(* ===== verification/QoS_Prelude.thy ===== *)
theory QoS_Prelude
  imports Main "HOL-Library.Word" "HOL-Library.Monad_Syntax"
begin

text \<open>
  Shared vocabulary of the development: Rust's unsigned machine integers, byte arrays and their
  little- and big-endian readings, unchecked slice accesses as partial operations, and the
  \<^theory_text>\<open>named_theorems\<close> collections the component proofs draw on.

  Conventions used by every theory.
  \<^item> \<open>u8\<close>, \<open>u16\<close>, \<open>u32\<close>, \<open>u64\<close> are words of that width; arithmetic on them wraps, as it does in
    the release profile of the workspace (Cargo.toml sets no overflow checks).
  \<^item> An index or a length (\<open>usize\<close>) that is bounded by an allocation is a \<open>nat\<close>.
  \<^item> A function that contains an \<open>unsafe\<close> unchecked access returns an \<open>option\<close>; \<open>None\<close> means the
    access was out of bounds or the \<open>unwrap_unchecked\<close> hit \<open>None\<close>, i.e. undefined behaviour.
    Theorems that conclude \<open>f x = Some y\<close> therefore state the absence of undefined behaviour.
\<close>

unbundle bit_operations_syntax

type_synonym u8 = "8 word"
type_synonym u16 = "16 word"
type_synonym u32 = "32 word"
type_synonym u64 = "64 word"
type_synonym usize = "64 word"
type_synonym u128 = "128 word"

named_theorems links \<open>frame and update facts for linked node arrays\<close>
named_theorems rust_std \<open>unfolding of the modelled standard-library operations\<close>

section \<open>Slices and vectors\<close>

definition get_unchecked :: "'a list \<Rightarrow> nat \<Rightarrow> 'a option" where
  "get_unchecked xs i = (if i < length xs then Some (xs ! i) else None)"

definition vec_push :: "'a list \<Rightarrow> 'a \<Rightarrow> 'a list" where
  "vec_push xs x = xs @ [x]"

definition vec_pop :: "'a list \<Rightarrow> ('a \<times> 'a list) option" where
  "vec_pop xs = (if xs = [] then None else Some (last xs, butlast xs))"

lemma get_unchecked_Some [simp]:
  "get_unchecked xs i = Some x \<longleftrightarrow> i < length xs \<and> xs ! i = x"
  by (auto simp: get_unchecked_def)

lemma vec_pop_push [simp]: "vec_pop (vec_push xs x) = Some (x, xs)"
  by (simp add: vec_pop_def vec_push_def)

lemma vec_pop_Some: "vec_pop xs = Some (x, ys) \<longleftrightarrow> xs = ys @ [x]"
  by (auto simp: vec_pop_def)

section \<open>Option chains used by doubly linked lists\<close>

text \<open>The first index of a list, or a default; the last index of a list, or a default.\<close>

definition first_or :: "'a list \<Rightarrow> 'a option \<Rightarrow> 'a option" where
  "first_or xs d = (case xs of [] \<Rightarrow> d | x # _ \<Rightarrow> Some x)"

definition last_or :: "'a option \<Rightarrow> 'a list \<Rightarrow> 'a option" where
  "last_or d xs = (if xs = [] then d else Some (last xs))"

lemma first_or_simps [simp]:
  "first_or [] d = d" "first_or (x # xs) d = Some x"
  by (simp_all add: first_or_def)

lemma last_or_simps [simp]:
  "last_or d [] = d" "last_or d (xs @ [x]) = Some x" "last_or d [x] = Some x"
  "last_or d (x # xs) = last_or (Some x) xs"
  by (simp_all add: last_or_def)

lemma first_or_append [simp]: "first_or (xs @ ys) d = first_or xs (first_or ys d)"
  by (cases xs) simp_all

lemma last_or_append [simp]: "last_or d (xs @ ys) = last_or (last_or d xs) ys"
  by (auto simp: last_or_def)

lemma first_or_in: "first_or xs None = Some x \<Longrightarrow> set xs \<subseteq> A \<Longrightarrow> x \<in> A"
  by (auto simp: first_or_def split: list.splits)

lemma last_or_in: "last_or None xs = Some x \<Longrightarrow> set xs \<subseteq> A \<Longrightarrow> x \<in> A"
  by (auto simp: last_or_def split: if_splits)

section \<open>Association lists with distinct keys\<close>

definition del_key :: "'k \<Rightarrow> ('k \<times> 'v) list \<Rightarrow> ('k \<times> 'v) list" where
  "del_key k es = filter (\<lambda>e. fst e \<noteq> k) es"

lemma del_key_simps [simp]:
  "del_key k [] = []"
  "del_key k (e # es) = (if fst e = k then del_key k es else e # del_key k es)"
  by (simp_all add: del_key_def)

lemma del_key_append [simp]: "del_key k (as @ bs) = del_key k as @ del_key k bs"
  by (simp add: del_key_def)

lemma del_key_notin: "k \<notin> fst ` set es \<Longrightarrow> del_key k es = es"
  by (auto simp: del_key_def filter_id_conv image_iff)

lemma map_of_del_key [simp]: "map_of (del_key k es) = (map_of es)(k := None)"
  by (induction es) auto

lemma set_del_key: "set (del_key k es) = {e \<in> set es. fst e \<noteq> k}"
  by (auto simp: del_key_def)

lemma keys_del_key [simp]: "fst ` set (del_key k es) = fst ` set es - {k}"
  by (auto simp: set_del_key)

lemma distinct_keys_del_key: "distinct (map fst es) \<Longrightarrow> distinct (map fst (del_key k es))"
  by (simp add: del_key_def distinct_map_filter)

lemma length_del_key_le: "length (del_key k es) \<le> length es"
  by (simp add: del_key_def)

lemma length_del_key:
  "distinct (map fst es) \<Longrightarrow> k \<in> fst ` set es \<Longrightarrow> Suc (length (del_key k es)) = length es"
proof (induction es)
  case (Cons e es)
  show ?case
  proof (cases "fst e = k")
    case True
    with Cons.prems have "k \<notin> fst ` set es" by auto
    with True show ?thesis by (simp add: del_key_notin)
  next
    case False
    with Cons show ?thesis by auto
  qed
qed simp

end
