(* ===== verification/Ordered_Tree.thy ===== *)
theory Ordered_Tree
  imports QoS_Prelude
begin

text \<open>
  The external crate \<open>lib-sokoban\<close> provides the fixed-capacity \<open>RedBlackTree\<close> in which the scoring
  models keep their scores (model/src/models). Its code is not part of the repository, so a tree is
  a parameter of the model: a record of the operations the repository calls. What those calls rely
  on is the documented map behaviour of the type, collected in \<open>tree_laws\<close>: a bounded map, whose
  iteration visits every key once, and whose root is some stored key. Nothing is said about an
  insertion of a new key into a full tree, nor about which key is the root.

  \<open>alist_ops\<close> is an association-list implementation; it shows that the laws are satisfiable and
  lets concrete runs be evaluated.
\<close>

record ('t, 'k, 'v) tree_ops =
  t_new :: 't
  t_get :: "'t \<Rightarrow> 'k \<Rightarrow> 'v option"
  t_set :: "'k \<Rightarrow> 'v \<Rightarrow> 't \<Rightarrow> 't"   \<comment> \<open>write through \<open>get_mut\<close> or \<open>iter_mut\<close>\<close>
  t_insert :: "'k \<Rightarrow> 'v \<Rightarrow> 't \<Rightarrow> 't"
  t_remove :: "'k \<Rightarrow> 't \<Rightarrow> 'v option \<times> 't"
  t_len :: "'t \<Rightarrow> nat"
  t_is_empty :: "'t \<Rightarrow> bool"
  t_root :: "'t \<Rightarrow> 'k"              \<comment> \<open>\<open>get_node(root).key\<close>\<close>
  t_remove_root :: "'t \<Rightarrow> ('k \<times> 'v) option \<times> 't"
  t_keys :: "'t \<Rightarrow> 'k list"         \<comment> \<open>the keys in the order of \<open>iter\<close> and \<open>iter_mut\<close>\<close>

definition tree_laws :: "nat \<Rightarrow> ('t \<Rightarrow> bool) \<Rightarrow> ('t, 'k, 'v) tree_ops \<Rightarrow> bool" where
  "tree_laws cap ok R \<longleftrightarrow>
     ok (t_new R) \<and> t_get R (t_new R) = Map.empty \<and>
     (\<forall>t. ok t \<longrightarrow>
        finite (dom (t_get R t)) \<and> t_len R t = card (dom (t_get R t)) \<and>
        card (dom (t_get R t)) \<le> cap \<and>
        (t_is_empty R t \<longleftrightarrow> dom (t_get R t) = {}) \<and>
        distinct (t_keys R t) \<and> set (t_keys R t) = dom (t_get R t) \<and>
        (\<forall>k v. k \<in> dom (t_get R t) \<or> card (dom (t_get R t)) < cap \<longrightarrow>
           ok (t_insert R k v t) \<and> t_get R (t_insert R k v t) = (t_get R t)(k \<mapsto> v)) \<and>
        (\<forall>k v. k \<in> dom (t_get R t) \<longrightarrow>
           ok (t_set R k v t) \<and> t_get R (t_set R k v t) = (t_get R t)(k \<mapsto> v)) \<and>
        (\<forall>k. fst (t_remove R k t) = t_get R t k \<and> ok (snd (t_remove R k t)) \<and>
           t_get R (snd (t_remove R k t)) = (t_get R t)(k := None)) \<and>
        (dom (t_get R t) \<noteq> {} \<longrightarrow>
           t_root R t \<in> dom (t_get R t) \<and>
           fst (t_remove_root R t) = Some (t_root R t, the (t_get R t (t_root R t))) \<and>
           ok (snd (t_remove_root R t)) \<and>
           t_get R (snd (t_remove_root R t)) = (t_get R t)(t_root R t := None)))"

named_theorems tree_facts \<open>consequences of the tree laws for a well-formed tree\<close>

lemma tree_new [tree_facts]:
  assumes "tree_laws cap ok R"
  shows "ok (t_new R)" and "t_get R (t_new R) = Map.empty"
  using assms by (simp_all add: tree_laws_def)

lemma tree_size [tree_facts]:
  assumes "tree_laws cap ok R" and "ok t"
  shows "finite (dom (t_get R t))" and "t_len R t = card (dom (t_get R t))" and "card (dom (t_get R t)) \<le> cap"
    and "t_is_empty R t \<longleftrightarrow> dom (t_get R t) = {}"
    and "distinct (t_keys R t)" and "set (t_keys R t) = dom (t_get R t)"
  using assms by (simp_all add: tree_laws_def)

lemma tree_insert [tree_facts]:
  assumes "tree_laws cap ok R" and "ok t" and "k \<in> dom (t_get R t) \<or> card (dom (t_get R t)) < cap"
  shows "ok (t_insert R k v t)" and "t_get R (t_insert R k v t) = (t_get R t)(k \<mapsto> v)"
  using assms unfolding tree_laws_def by blast+

lemma tree_set [tree_facts]:
  assumes "tree_laws cap ok R" and "ok t" and "k \<in> dom (t_get R t)"
  shows "ok (t_set R k v t)" and "t_get R (t_set R k v t) = (t_get R t)(k \<mapsto> v)"
  using assms unfolding tree_laws_def by blast+

lemma tree_remove [tree_facts]:
  assumes "tree_laws cap ok R" and "ok t"
  shows "fst (t_remove R k t) = t_get R t k" and "ok (snd (t_remove R k t))"
    and "t_get R (snd (t_remove R k t)) = (t_get R t)(k := None)"
  using assms by (simp_all add: tree_laws_def)

lemma tree_root [tree_facts]:
  assumes "tree_laws cap ok R" and "ok t" and "dom (t_get R t) \<noteq> {}"
  shows "t_root R t \<in> dom (t_get R t)"
    and "fst (t_remove_root R t) = Some (t_root R t, the (t_get R t (t_root R t)))"
    and "ok (snd (t_remove_root R t))"
    and "t_get R (snd (t_remove_root R t)) = (t_get R t)(t_root R t := None)"
  using assms by (simp_all add: tree_laws_def)

section \<open>An implementation that satisfies the laws\<close>

fun al_put :: "'k \<Rightarrow> 'v \<Rightarrow> ('k \<times> 'v) list \<Rightarrow> ('k \<times> 'v) list" where
  "al_put k v [] = [(k, v)]"
| "al_put k v (e # es) = (if fst e = k then (k, v) # es else e # al_put k v es)"

definition alist_ops :: "nat \<Rightarrow> (('k \<times> 'v) list, 'k, 'v) tree_ops" where
  "alist_ops cap =
     \<lparr>t_new = [],
      t_get = map_of,
      t_set = al_put,
      t_insert = (\<lambda>k v es. if k \<in> fst ` set es \<or> length es < cap then al_put k v es else es),
      t_remove = (\<lambda>k es. (map_of es k, del_key k es)),
      t_len = length,
      t_is_empty = List.null,
      t_root = (\<lambda>es. fst (es ! (length es div 2))),
      t_remove_root = (\<lambda>es.
        (if es = [] then (None, [])
         else (Some (es ! (length es div 2)), del_key (fst (es ! (length es div 2))) es))),
      t_keys = map fst\<rparr>"

definition alist_ok :: "nat \<Rightarrow> ('k \<times> 'v) list \<Rightarrow> bool" where
  "alist_ok cap es \<longleftrightarrow> distinct (map fst es) \<and> length es \<le> cap"

lemma map_of_al_put [simp]: "map_of (al_put k v es) = (map_of es)(k \<mapsto> v)"
  by (induction es) auto

lemma keys_al_put: "fst ` set (al_put k v es) = insert k (fst ` set es)"
  by (induction es) auto

lemma al_put_ok:
  assumes "alist_ok cap es" and "k \<in> fst ` set es \<or> length es < cap"
  shows "alist_ok cap (al_put k v es)"
proof -
  have "length (al_put k v es) = (if k \<in> fst ` set es then length es else Suc (length es))"
    by (induction es) auto
  moreover have "distinct (map fst (al_put k v es))" if "distinct (map fst es)"
    using that by (induction es) (simp_all add: keys_al_put, blast)
  ultimately show ?thesis using assms by (auto simp: alist_ok_def)
qed

lemma alist_ops_simps [simp]:
  "t_new (alist_ops cap) = []" "t_get (alist_ops cap) = map_of" "t_set (alist_ops cap) = al_put"
  "t_remove (alist_ops cap) k es = (map_of es k, del_key k es)"
  "t_len (alist_ops cap) = length" "t_is_empty (alist_ops cap) = List.null"
  "t_root (alist_ops cap) es = fst (es ! (length es div 2))"
  "t_keys (alist_ops cap) = map fst"
  by (simp_all add: alist_ops_def)

lemma alist_insert:
  "k \<in> fst ` set es \<or> length es < cap \<Longrightarrow> t_insert (alist_ops cap) k v es = al_put k v es"
  by (simp add: alist_ops_def)

lemma alist_remove_root:
  "es \<noteq> [] \<Longrightarrow> t_remove_root (alist_ops cap) es =
     (Some (es ! (length es div 2)), del_key (fst (es ! (length es div 2))) es)"
  by (simp add: alist_ops_def)

lemma alist_ok_facts:
  assumes "alist_ok cap es"
  shows "card (fst ` set es) = length es" "length es \<le> cap" "distinct (map fst es)"
    and "alist_ok cap (del_key k es)"
  using assms length_del_key_le [of k es] distinct_card [of "map fst es"]
  by (auto simp: alist_ok_def distinct_keys_del_key)

lemma alist_mid:
  assumes "alist_ok cap es" "es \<noteq> []"
  shows "es ! (length es div 2) \<in> set es"
    and "map_of es (fst (es ! (length es div 2))) = Some (snd (es ! (length es div 2)))"
proof -
  show mid: "es ! (length es div 2) \<in> set es"
    using assms(2) by (intro nth_mem) (simp add: div_less_dividend)
  from assms(1) mid show "map_of es (fst (es ! (length es div 2))) = Some (snd (es ! (length es div 2)))"
    by (simp add: alist_ok_def)
qed

lemma alist_laws: "tree_laws cap (alist_ok cap) (alist_ops cap)"
proof -
  have "es \<noteq> []" if "dom (map_of es) \<noteq> {}" for es :: "('a \<times> 'b) list" using that by auto
  note facts = alist_ok_facts alist_mid [OF _ this] alist_remove_root [OF this]
  show ?thesis
    unfolding tree_laws_def alist_ops_simps
  proof (intro conjI allI impI, goal_cases)
    case (5 es)
    from facts(1,2) [OF 5] show ?case by (simp add: dom_map_of_conv_image_fst)
  qed (simp_all add: facts alist_ok_def [of cap "[]"] alist_insert al_put_ok List.null_iff
      dom_map_of_conv_image_fst del: dom_eq_empty_conv)
qed

end
