(* ===== verification/Float64.thy ===== *)
theory Float64
  imports QoS_Prelude Complex_Main "HOL-Library.Log_Nat"
begin

text \<open>
  IEEE 754 binary64 arithmetic, as Rust's \<open>f64\<close> computes it (round to nearest, ties to even), and
  the order that \<open>OrderedFloat<f64>\<close> (the \<open>F64\<close> of internal-common/src/transaction_meta.rs) puts on
  it. A finite value is the rational it denotes; every operation computes the exact rational result
  and rounds it. Values are taken up to the equality of \<open>OrderedFloat\<close>, which identifies the two
  zeros and all NaNs; a zero divisor is \<open>+0.0\<close>, because every divisor in the program is converted
  from an unsigned integer.

  The facts the model proofs use are: rounding is monotone, representable values round to
  themselves, and therefore a rounded value lies between any representable bounds of the exact one
  (\<open>round_between\<close>).
\<close>

section \<open>Rounding\<close>

definition floor_log2 :: "rat \<Rightarrow> int" where
  "floor_log2 q =
     (let (a, b) = quotient_of q; k = bitlen a - bitlen b
      in if 2 powi k \<le> q then k else k - 1)"

definition round_half_even :: "rat \<Rightarrow> int" where
  "round_half_even x =
     (let f = \<lfloor>x\<rfloor>; d = x - of_int f
      in if d < 1 / 2 then f else if 1 / 2 < d then f + 1 else if even f then f else f + 1)"

definition ulp_exp :: "rat \<Rightarrow> int" where
  "ulp_exp q = max (floor_log2 q - 52) (- 1074)"

definition round_mag :: "rat \<Rightarrow> rat" where
  "round_mag q = (if q = 0 then 0 else of_int (round_half_even (q / 2 powi ulp_exp q)) * 2 powi ulp_exp q)"

datatype f64 = Fin rat | PInf | NInf | NaN

definition round_f64 :: "rat \<Rightarrow> f64" where
  "round_f64 q =
     (let r = round_mag \<bar>q\<bar>
      in if 2 ^ 1024 \<le> r then (if 0 < q then PInf else NInf) else Fin (if q < 0 then - r else r))"

definition representable :: "rat \<Rightarrow> bool" where
  "representable q \<longleftrightarrow>
     (\<exists>(m::nat) e. m < 2 ^ 53 \<and> - 1074 \<le> e \<and> q = of_nat m * 2 powi e) \<and> q < 2 ^ 1024"

section \<open>Order and arithmetic\<close>

fun f64_le :: "f64 \<Rightarrow> f64 \<Rightarrow> bool" where
  "f64_le _ NaN = True"
| "f64_le NaN _ = False"
| "f64_le _ PInf = True"
| "f64_le PInf _ = False"
| "f64_le NInf _ = True"
| "f64_le _ NInf = False"
| "f64_le (Fin a) (Fin b) = (a \<le> b)"

instantiation f64 :: linorder
begin

definition less_eq_f64 :: "f64 \<Rightarrow> f64 \<Rightarrow> bool" where
  "less_eq_f64 = f64_le"

definition less_f64 :: "f64 \<Rightarrow> f64 \<Rightarrow> bool" where
  "less_f64 x y \<longleftrightarrow> f64_le x y \<and> \<not> f64_le y x"

instance
proof
  fix x y z :: f64
  show "x < y \<longleftrightarrow> x \<le> y \<and> \<not> y \<le> x" by (simp add: less_f64_def less_eq_f64_def)
  show "x \<le> x" by (cases x) (simp_all add: less_eq_f64_def)
  show "x \<le> y \<Longrightarrow> y \<le> z \<Longrightarrow> x \<le> z"
    by (cases x; cases y; cases z) (simp_all add: less_eq_f64_def)
  show "x \<le> y \<Longrightarrow> y \<le> x \<Longrightarrow> x = y" by (cases x; cases y) (simp_all add: less_eq_f64_def)
  show "x \<le> y \<or> y \<le> x" by (cases x; cases y) (auto simp: less_eq_f64_def)
qed

end

lemma f64_order_simps [simp]:
  "Fin a \<le> Fin b \<longleftrightarrow> a \<le> b" "Fin a < Fin b \<longleftrightarrow> a < b" "x \<le> NaN" "Fin a \<le> PInf" "Fin a < PInf"
  "Fin a < NaN" "\<not> PInf \<le> Fin a" "\<not> NaN \<le> Fin a"
  by (cases x; auto simp: less_eq_f64_def less_f64_def)+

definition inf_of_sign :: "rat \<Rightarrow> f64" where
  "inf_of_sign s = (if 0 < s then PInf else if s < 0 then NInf else NaN)"

fun f64_mul :: "f64 \<Rightarrow> f64 \<Rightarrow> f64" where
  "f64_mul (Fin a) (Fin b) = round_f64 (a * b)"
| "f64_mul NaN _ = NaN"
| "f64_mul _ NaN = NaN"
| "f64_mul (Fin a) PInf = inf_of_sign a"
| "f64_mul (Fin a) NInf = inf_of_sign (- a)"
| "f64_mul PInf (Fin b) = inf_of_sign b"
| "f64_mul NInf (Fin b) = inf_of_sign (- b)"
| "f64_mul PInf PInf = PInf"
| "f64_mul NInf NInf = PInf"
| "f64_mul _ _ = NInf"

fun f64_add :: "f64 \<Rightarrow> f64 \<Rightarrow> f64" where
  "f64_add (Fin a) (Fin b) = round_f64 (a + b)"
| "f64_add NaN _ = NaN"
| "f64_add _ NaN = NaN"
| "f64_add PInf NInf = NaN"
| "f64_add NInf PInf = NaN"
| "f64_add PInf _ = PInf"
| "f64_add _ PInf = PInf"
| "f64_add _ _ = NInf"

fun f64_neg :: "f64 \<Rightarrow> f64" where
  "f64_neg (Fin a) = Fin (- a)"
| "f64_neg PInf = NInf"
| "f64_neg NInf = PInf"
| "f64_neg NaN = NaN"

definition f64_sub :: "f64 \<Rightarrow> f64 \<Rightarrow> f64" where
  "f64_sub x y = f64_add x (f64_neg y)"

fun f64_div :: "f64 \<Rightarrow> f64 \<Rightarrow> f64" where
  "f64_div (Fin a) (Fin b) = (if b = 0 then inf_of_sign a else round_f64 (a / b))"
| "f64_div NaN _ = NaN"
| "f64_div _ NaN = NaN"
| "f64_div (Fin a) _ = Fin 0"
| "f64_div PInf (Fin b) = (if b < 0 then NInf else PInf)"
| "f64_div NInf (Fin b) = (if b < 0 then PInf else NInf)"
| "f64_div _ _ = NaN"

text \<open>\<open>x as f64\<close> for an unsigned integer \<open>x\<close>, and a decimal literal of the source.\<close>

definition f64_of_nat :: "nat \<Rightarrow> f64" where
  "f64_of_nat n = round_f64 (of_nat n)"

definition f64_of_u64 :: "u64 \<Rightarrow> f64" where
  "f64_of_u64 w = f64_of_nat (unat w)"

definition f64_of_u32 :: "u32 \<Rightarrow> f64" where
  "f64_of_u32 w = f64_of_nat (unat w)"

text \<open>The cast from a float to \<open>u64\<close> truncates and saturates; NaN becomes zero.\<close>

definition f64_to_u64 :: "f64 \<Rightarrow> u64" where
  "f64_to_u64 x =
     (case x of
        Fin q \<Rightarrow> if q < 0 then 0 else if 2 ^ 64 - 1 < q then - 1 else of_int \<lfloor>q\<rfloor>
      | PInf \<Rightarrow> - 1 | NInf \<Rightarrow> 0 | NaN \<Rightarrow> 0)"

definition f64_lit :: "rat \<Rightarrow> f64" where
  "f64_lit = round_f64"

section \<open>Rounding is monotone and fixes representable values\<close>

lemma two_powi_pos [simp]: "(0::rat) < 2 powi e"
  by simp

lemma two_powi_less_iff [simp]: "(2::rat) powi i < 2 powi j \<longleftrightarrow> i < j"
  by (metis linorder_not_less one_less_numeral_iff order_less_imp_le power_int_increasing
      power_int_strict_increasing semiring_norm(76))

lemma two_powi_le_iff [simp]: "(2::rat) powi i \<le> 2 powi j \<longleftrightarrow> i \<le> j"
  by (simp flip: linorder_not_less)

lemma floor_log2_bounds:
  assumes "0 < q"
  shows "2 powi floor_log2 q \<le> q \<and> q < 2 powi (floor_log2 q + 1)"
proof -
  obtain a b where ab: "quotient_of q = (a, b)" by force
  have b: "0 < b" using quotient_of_denom_pos [OF ab] .
  have q: "q = of_int a / of_int b" using quotient_of_div [OF ab] .
  with assms b have a: "0 < a" by (simp add: zero_less_divide_iff)
  have pos: "0 < bitlen x" if "0 < x" for x
    using that bitlen_nonneg [of x] bitlen_eq_zero_iff [of x] by linarith
  have up: "(of_int x::rat) < 2 powi bitlen x" and lo: "2 powi (bitlen x - 1) \<le> (of_int x::rat)"
    if "0 < x" for x
  proof -
    from bitlen_bounds [OF that] have "2 ^ nat (bitlen x - 1) \<le> x" "x < 2 ^ nat (bitlen x)" by auto
    then have "(of_int (2 ^ nat (bitlen x - 1)) :: rat) \<le> of_int x"
      "(of_int x :: rat) < of_int (2 ^ nat (bitlen x))"
      by (simp_all only: of_int_le_iff of_int_less_iff)
    then show "(of_int x::rat) < 2 powi bitlen x" "2 powi (bitlen x - 1) \<le> (of_int x::rat)"
      using pos [OF that] by (simp_all add: power_int_def)
  qed
  have "q < 2 powi bitlen a / 2 powi (bitlen b - 1)"
    unfolding q using up [OF a] lo [OF b] b a by (intro frac_less) auto
  then have u: "q < 2 powi (bitlen a - bitlen b + 1)"
    by (simp add: power_int_diff [symmetric] algebra_simps)
  have "2 powi (bitlen a - 1) / 2 powi bitlen b < q"
    unfolding q using lo [OF a] up [OF b] b a by (intro frac_less2) auto
  then have "2 powi (bitlen a - bitlen b - 1) \<le> q"
    by (simp add: power_int_diff [symmetric] algebra_simps)
  with u show ?thesis by (auto simp: floor_log2_def ab Let_def)
qed

lemma floor_log2_unique:
  assumes "2 powi k \<le> q" and "q < 2 powi (k + 1)"
  shows "floor_log2 q = k"
proof -
  from assms(1) have "0 < q" by (meson less_le_trans two_powi_pos)
  from floor_log2_bounds [OF this] assms
  have "2 powi floor_log2 q < (2::rat) powi (k + 1)" "2 powi k < (2::rat) powi (floor_log2 q + 1)"
    by (meson le_less_trans)+
  then show ?thesis by simp
qed

lemma floor_log2_mono: "0 < x \<Longrightarrow> x \<le> y \<Longrightarrow> floor_log2 x \<le> floor_log2 y"
proof -
  assume "0 < x" "x \<le> y"
  with floor_log2_bounds [of x] floor_log2_bounds [of y]
  have "2 powi floor_log2 x < (2::rat) powi (floor_log2 y + 1)" by linarith
  then show ?thesis by simp
qed

lemma round_half_even_bounds: "\<lfloor>x\<rfloor> \<le> round_half_even x" "round_half_even x \<le> \<lfloor>x\<rfloor> + 1"
  by (simp_all add: round_half_even_def Let_def)

lemma round_half_even_int [simp]: "round_half_even (of_int i) = i"
  by (simp add: round_half_even_def)

lemma round_half_even_mono:
  assumes "x \<le> y"
  shows "round_half_even x \<le> round_half_even y"
proof (cases "\<lfloor>x\<rfloor> = \<lfloor>y\<rfloor>")
  case True
  with assms show ?thesis by (auto simp: round_half_even_def Let_def)
next
  case False
  with floor_mono [OF assms] have "\<lfloor>x\<rfloor> + 1 \<le> \<lfloor>y\<rfloor>" by simp
  with round_half_even_bounds [of x] round_half_even_bounds [of y] show ?thesis by linarith
qed

text \<open>Scaling by the unit in the last place turns representability into integrality.\<close>

lemma representable_scaled:
  assumes "0 < q" and "representable q"
  shows "\<exists>i. q / 2 powi ulp_exp q = of_int i"
proof -
  from assms(2) obtain m :: nat and e where m: "m < 2 ^ 53" and e: "- 1074 \<le> e"
    and q: "q = of_nat m * 2 powi e" by (auto simp: representable_def)
  have "(of_nat m :: rat) < 2 ^ 53"
    using m by (metis of_nat_less_iff of_nat_numeral of_nat_power)
  then have "q < 2 powi 53 * 2 powi e" unfolding q by simp
  then have "q < 2 powi (53 + e)" by (simp add: power_int_add)
  with floor_log2_bounds [OF assms(1)] have "(2::rat) powi floor_log2 q < 2 powi (53 + e)" by linarith
  then have "ulp_exp q \<le> e" using e by (simp add: ulp_exp_def)
  then have "q / 2 powi ulp_exp q = of_nat m * 2 powi (e - ulp_exp q)"
    by (simp add: q power_int_diff)
  also have "\<dots> = of_int (int m * 2 ^ nat (e - ulp_exp q))"
    using \<open>ulp_exp q \<le> e\<close> by (simp add: power_int_def)
  finally show ?thesis by blast
qed

lemma round_mag_representable: "0 \<le> q \<Longrightarrow> representable q \<Longrightarrow> round_mag q = q"
proof (cases "q = 0")
  case False
  assume "0 \<le> q" "representable q"
  with False representable_scaled [of q] obtain i where i: "q / 2 powi ulp_exp q = of_int i" by auto
  then have "round_mag q = of_int i * 2 powi ulp_exp q" using False by (simp add: round_mag_def)
  also have "\<dots> = q" by (simp flip: i)
  finally show ?thesis .
qed (simp add: round_mag_def)

lemma ulp_exp_mono: "0 < x \<Longrightarrow> x \<le> y \<Longrightarrow> ulp_exp x \<le> ulp_exp y"
  using floor_log2_mono [of x y] by (auto simp: ulp_exp_def)

lemma round_mag_same_ulp:
  assumes "0 < x" "x \<le> y" "ulp_exp x = ulp_exp y"
  shows "round_mag x \<le> round_mag y"
proof -
  have "x / 2 powi ulp_exp x \<le> y / 2 powi ulp_exp y" using assms by (simp add: divide_right_mono)
  from round_half_even_mono [OF this] assms show ?thesis by (simp add: round_mag_def mult_right_mono)
qed

lemma powi_scaled: "e \<le> k \<Longrightarrow> (2::rat) powi k = of_int (2 ^ nat (k - e)) * 2 powi e"
  using power_int_add [of "2::rat" "k - e" e] by (simp add: power_int_def)

lemma round_mag_below_power:
  assumes "0 < x" "x \<le> 2 powi k" "ulp_exp x \<le> k"
  shows "round_mag x \<le> 2 powi k"
proof -
  let ?e = "ulp_exp x"
  note p = powi_scaled [OF assms(3)]
  have "x / 2 powi ?e \<le> of_int (2 ^ nat (k - ?e))"
    using assms(2) unfolding p by (simp only: pos_divide_le_eq two_powi_pos)
  from round_half_even_mono [OF this] have "round_half_even (x / 2 powi ?e) \<le> 2 ^ nat (k - ?e)"
    by (simp only: round_half_even_int)
  then have "of_int (round_half_even (x / 2 powi ?e)) \<le> (of_int (2 ^ nat (k - ?e)) :: rat)"
    by (simp only: of_int_le_iff)
  then have "of_int (round_half_even (x / 2 powi ?e)) * 2 powi ?e \<le> (2::rat) powi k"
    unfolding p by (rule mult_right_mono) simp
  then show ?thesis using assms(1) by (simp add: round_mag_def)
qed

lemma round_mag_above_power:
  assumes "2 powi k \<le> y" "ulp_exp y \<le> k"
  shows "2 powi k \<le> round_mag y"
proof -
  let ?e = "ulp_exp y"
  note p = powi_scaled [OF assms(2)]
  have "0 < y" using assms(1) by (meson less_le_trans two_powi_pos)
  have "of_int (2 ^ nat (k - ?e)) \<le> y / 2 powi ?e"
    using assms(1) unfolding p by (simp only: pos_le_divide_eq two_powi_pos)
  from round_half_even_mono [OF this] have "2 ^ nat (k - ?e) \<le> round_half_even (y / 2 powi ?e)"
    by (simp only: round_half_even_int)
  then have "of_int (2 ^ nat (k - ?e)) \<le> (of_int (round_half_even (y / 2 powi ?e)) :: rat)"
    by (simp only: of_int_le_iff)
  then have "(2::rat) powi k \<le> of_int (round_half_even (y / 2 powi ?e)) * 2 powi ?e"
    unfolding p by (rule mult_right_mono) simp
  then show ?thesis using \<open>0 < y\<close> by (simp add: round_mag_def)
qed

lemma round_mag_mono:
  assumes "0 \<le> x" "x \<le> y"
  shows "round_mag x \<le> round_mag y"
proof (cases "x = 0")
  case True
  then show ?thesis
    using assms round_half_even_mono [of 0 "y / 2 powi ulp_exp y"] round_half_even_int [of 0]
    by (auto simp: round_mag_def)
next
  case False
  with assms have x: "0 < x" by simp
  show ?thesis
  proof (cases "ulp_exp x = ulp_exp y")
    case True
    with x assms(2) show ?thesis by (rule_tac round_mag_same_ulp)
  next
    case False
    with ulp_exp_mono [OF x assms(2)] have "ulp_exp x < ulp_exp y" by simp
    then have "floor_log2 x + 1 \<le> floor_log2 y" "ulp_exp y = floor_log2 y - 52"
      by (auto simp: ulp_exp_def split: if_splits)
    from floor_log2_bounds [OF x] have "x \<le> 2 powi (floor_log2 x + 1)" by simp
    also have "\<dots> \<le> 2 powi floor_log2 y"
      using \<open>floor_log2 x + 1 \<le> floor_log2 y\<close> by simp
    finally have "round_mag x \<le> 2 powi floor_log2 y"
      using x \<open>ulp_exp x < ulp_exp y\<close> \<open>ulp_exp y = floor_log2 y - 52\<close>
      by (intro round_mag_below_power) simp_all
    also have "\<dots> \<le> round_mag y"
      using floor_log2_bounds [of y] x assms(2) \<open>ulp_exp y = floor_log2 y - 52\<close>
      by (intro round_mag_above_power) simp_all
    finally show ?thesis .
  qed
qed

lemma round_mag_nonneg: "0 \<le> q \<Longrightarrow> 0 \<le> round_mag q"
  using round_mag_mono [of 0 q] by (simp add: round_mag_def)

text \<open>A rounded magnitude is again a multiple of a power of two with a 53-bit significand.\<close>

lemma round_mag_is_representable:
  assumes "0 \<le> q" and "round_mag q < 2 ^ 1024"
  shows "representable (round_mag q)"
proof (cases "q = 0")
  case True
  then show ?thesis
    by (auto simp: representable_def round_mag_def intro!: exI [where x = 0])
next
  case False
  let ?e = "ulp_exp q" and ?r = "round_half_even (q / 2 powi ulp_exp q)"
  from False assms(1) have q: "0 < q" by simp
  have e: "- 1074 \<le> ?e" "floor_log2 q - 52 \<le> ?e" by (simp_all add: ulp_exp_def)
  have r0: "0 \<le> ?r" using round_half_even_mono [of 0 "q / 2 powi ?e"] q round_half_even_int [of 0]
    by simp
  have "q \<le> 2 powi (53 + ?e)"
    using floor_log2_bounds [OF q] e(2) two_powi_le_iff [of "floor_log2 q + 1" "53 + ?e"] by linarith
  then have "q / 2 powi ?e \<le> of_int (2 ^ 53)"
    by (simp add: pos_divide_le_eq power_int_add)
  from round_half_even_mono [OF this] have r: "?r \<le> 2 ^ 53" by (simp only: round_half_even_int)
  have rm: "round_mag q = of_nat (nat ?r) * 2 powi ?e"
    using False r0 by (simp add: round_mag_def)
  show ?thesis
  proof (cases "?r = 2 ^ 53")
    case True
    then have "round_mag q = of_nat (2 ^ 52) * 2 powi (?e + 1)"
      unfolding rm by (simp add: power_int_add)
    with e assms(2) show ?thesis
      by (auto simp: representable_def intro!: exI [where x = "2 ^ 52 :: nat"] exI [where x = "?e + 1"])
  next
    case False
    with r r0 have "nat ?r < 2 ^ 53" by (simp add: nat_less_iff)
    with e(1) rm assms(2) show ?thesis unfolding representable_def by blast
  qed
qed

text \<open>The workhorse: a rounded value stays between representable bounds of the exact value.\<close>

lemma round_between:
  assumes "0 \<le> L" "representable L" "L \<le> x" "x \<le> B" "representable B"
  obtains r where "round_f64 x = Fin r" "L \<le> r" "r \<le> B" "representable r" "r = round_mag x"
proof -
  have x: "0 \<le> x" using assms by linarith
  have "round_mag L \<le> round_mag x" "round_mag x \<le> round_mag B"
    using assms x by (auto intro: round_mag_mono)
  then have r: "L \<le> round_mag x" "round_mag x \<le> B"
    using assms x by (auto simp: round_mag_representable)
  moreover have "B < 2 ^ 1024" using assms(5) by (simp add: representable_def)
  ultimately have "round_f64 x = Fin (round_mag x)" "representable (round_mag x)"
    using x round_mag_is_representable [OF x] by (auto simp: round_f64_def Let_def)
  with that r show ?thesis by blast
qed

text \<open>Evaluation of a rounding whose exact value is not half way between two neighbours.\<close>

lemma round_half_even_near:
  assumes "\<bar>x - of_int i\<bar> < 1 / 2"
  shows "round_half_even x = i"
proof -
  from assms have "\<lfloor>x\<rfloor> = (if of_int i \<le> x then i else i - 1)"
    by (auto simp: floor_eq_iff)
  with assms show ?thesis by (auto simp: round_half_even_def Let_def)
qed

lemma round_f64_eval:
  assumes "2 powi k \<le> q" "q < 2 powi (k + 1)" "- 1022 \<le> k" "k \<le> 1022"
    and "\<bar>q / 2 powi (k - 52) - of_int i\<bar> < 1 / 2"
  shows "round_f64 q = Fin (of_int i * 2 powi (k - 52))"
proof -
  have q: "0 < q" using assms(1) by (meson less_le_trans two_powi_pos)
  have e: "ulp_exp q = k - 52" using floor_log2_unique [OF assms(1,2)] assms(3) by (simp add: ulp_exp_def)
  then have rm: "round_mag q = of_int i * 2 powi (k - 52)"
    using q round_half_even_near [OF assms(5)] by (simp add: round_mag_def)
  have "round_mag q \<le> 2 powi (k + 1)"
    using q assms(2) e by (intro round_mag_below_power) simp_all
  also have "\<dots> < 2 powi 1024" using assms(4) by (simp only: two_powi_less_iff)
  finally have "round_mag q < 2 ^ 1024" by (simp only: power_int_numeral)
  with q rm show ?thesis by (simp add: round_f64_def)
qed

lemma representable_0 [simp]: "representable 0"
  by (auto simp: representable_def intro!: exI [where x = 0])

lemma representable_nat_power:
  "n < 2 ^ 53 \<Longrightarrow> k \<le> 900 \<Longrightarrow> representable (of_nat n * 2 ^ k)"
proof -
  assume n: "n < 2 ^ 53" and k: "k \<le> (900::nat)"
  have "(of_nat n :: rat) \<le> 2 ^ 53"
    using n by (metis less_imp_le of_nat_le_iff of_nat_numeral of_nat_power)
  then have "(of_nat n :: rat) * 2 ^ k \<le> 2 ^ 53 * 2 ^ 900"
    using k by (intro mult_mono power_increasing) simp_all
  also have "\<dots> < 2 ^ 1024" by (simp flip: power_add)
  finally show ?thesis
    using n by (auto simp: representable_def power_int_def intro!: exI [where x = n] exI [where x = "int k"])
qed

text \<open>Natural numbers below \<open>2^53\<close> are exact.\<close>

lemma representable_nat: "n < 2 ^ 53 \<Longrightarrow> representable (of_nat n)"
  using representable_nat_power [of n 0] by simp

lemma round_f64_nat:
  assumes "n < 2 ^ 53"
  shows "round_f64 (of_nat n) = Fin (of_nat n)"
proof -
  obtain r where "round_f64 (of_nat n) = Fin r" "of_nat n \<le> r" "r \<le> of_nat n"
    by (rule round_between [OF _ representable_nat [OF assms] order_refl order_refl representable_nat [OF assms]]) simp_all
  then show ?thesis by (simp add: order_antisym)
qed

lemma f64_of_u64_exact: "unat w < 2 ^ 53 \<Longrightarrow> f64_of_u64 w = Fin (of_nat (unat w))"
  by (simp only: f64_of_u64_def f64_of_nat_def round_f64_nat)

end
