(* ===== verification/Score_Table.thy ===== *)
theory Score_Table
  imports Ordered_Tree Float64 "HOL-Library.List_Lexorder"
begin

text \<open>
  What the two scoring models share (model/src/lib.rs, model/src/models): a score table is a tree
  from keys (source addresses or signers) to scores together with an \<^emph>\<open>inverse\<close> tree ordered by
  score, whose root serves as an approximate median. The source writes each step twice, once for
  addresses and once for signers; here a step is one definition over the key type, and the models
  compose them in the source's order.

  The table invariant says that the inverse tree holds exactly the pairs of the forward tree.
  The lemmas give the effect of each step on the forward map.
\<close>

section \<open>Scores, entries and candidates\<close>

type_synonym pubkey = "u8 list"

definition ONE :: f64 where "ONE = Fin 1"

definition ZERO :: f64 where "ZERO = Fin 0"

text \<open>
  The macro \<open>declare_inverse_score_entry\<close> declares a struct with a score, one field and zero
  padding, with the derived (lexicographic) order; the constant padding never decides a comparison.
\<close>

datatype 'k InverseScoreEntry = InverseScoreEntry (entry_score: f64) (entry_field: 'k)

instantiation InverseScoreEntry :: (linorder) linorder
begin

definition less_eq_InverseScoreEntry :: "'a InverseScoreEntry \<Rightarrow> 'a InverseScoreEntry \<Rightarrow> bool" where
  "less_eq_InverseScoreEntry x y \<longleftrightarrow>
     entry_score x < entry_score y \<or>
     entry_score x = entry_score y \<and> entry_field x \<le> entry_field y"

definition less_InverseScoreEntry :: "'a InverseScoreEntry \<Rightarrow> 'a InverseScoreEntry \<Rightarrow> bool" where
  "less_InverseScoreEntry x y \<longleftrightarrow>
     entry_score x < entry_score y \<or>
     entry_score x = entry_score y \<and> entry_field x < entry_field y"

instance
  by standard
    (auto simp: less_eq_InverseScoreEntry_def less_InverseScoreEntry_def
      intro: InverseScoreEntry.expand)

end

record 'a QoSTransactionMeta =
  tm_ip :: u32
  tm_signer :: pubkey
  tm_value :: f64
  tm_additional_metadata :: 'a

definition new_for_tests :: "u32 \<Rightarrow> pubkey \<Rightarrow> u64 \<Rightarrow> u64 \<Rightarrow> 'a \<Rightarrow> 'a QoSTransactionMeta" where
  "new_for_tests ip signer fee execution_nanos a =
     \<lparr>tm_ip = ip, tm_signer = signer,
      tm_value = f64_div (f64_of_u64 fee) (f64_of_u64 execution_nanos),
      tm_additional_metadata = a\<rparr>"

record ScoreUpdateCandidate =
  score_sum :: f64
  sc_count :: u32

definition candidate_new :: "f64 \<Rightarrow> ScoreUpdateCandidate" where
  "candidate_new score = \<lparr>score_sum = score, sc_count = 1\<rparr>"

definition candidate_update :: "f64 \<Rightarrow> ScoreUpdateCandidate \<Rightarrow> ScoreUpdateCandidate" where
  "candidate_update score sc =
     sc\<lparr>score_sum := f64_add (score_sum sc) score, sc_count := sc_count sc + 1\<rparr>"

definition candidate_finalize :: "ScoreUpdateCandidate \<Rightarrow> f64" where
  "candidate_finalize sc = f64_div (score_sum sc) (f64_of_u32 (sc_count sc))"

definition ALPHA :: f64 where "ALPHA = f64_lit (1 / 20)"

definition ema :: "f64 \<Rightarrow> f64 \<Rightarrow> f64" where
  "ema old_score new_score =
     f64_add (f64_mul old_score (f64_sub ONE ALPHA)) (f64_mul new_score ALPHA)"

text \<open>
  \<open>BTreeMap\<close> as a key-sorted association list; \<open>bt_upsert f d k\<close> is
  \<open>entry(k).and_modify(f).or_insert_with(|| d)\<close>.
\<close>

fun bt_upsert :: "('v \<Rightarrow> 'v) \<Rightarrow> 'v \<Rightarrow> 'k::linorder \<Rightarrow> ('k \<times> 'v) list \<Rightarrow> ('k \<times> 'v) list" where
  "bt_upsert f d k [] = [(k, d)]"
| "bt_upsert f d k ((k', v) # es) =
     (if k < k' then (k, d) # (k', v) # es
      else if k = k' then (k', f v) # es
      else (k', v) # bt_upsert f d k es)"

definition note_candidate ::
  "'k::linorder \<Rightarrow> f64 \<Rightarrow> ('k \<times> ScoreUpdateCandidate) list \<Rightarrow> ('k \<times> ScoreUpdateCandidate) list" where
  "note_candidate k score cands = bt_upsert (candidate_update score) (candidate_new score) k cands"

section \<open>Operations on one table\<close>

type_synonym ('m, 'k) fwd_ops = "('m, 'k, f64) tree_ops"
type_synonym ('i, 'k) inv_ops = "('i, 'k InverseScoreEntry, unit) tree_ops"

definition approximate_median_score :: "('i, 'k) inv_ops \<Rightarrow> 'i \<Rightarrow> f64" where
  "approximate_median_score V iv =
     (if t_is_empty V iv then ONE else entry_score (t_root V iv))"

definition load_scores ::
  "('m, 'k) fwd_ops \<Rightarrow> ('i, 'k) inv_ops \<Rightarrow> ('k \<times> f64) list \<Rightarrow> 'm \<times> 'i" where
  "load_scores M V scores =
     fold (\<lambda>(k, score) (m, iv). (t_insert M k score m, t_insert V (InverseScoreEntry score k) () iv))
       scores (t_new M, t_new V)"

definition replace_score ::
  "('m, 'k) fwd_ops \<Rightarrow> ('i, 'k) inv_ops \<Rightarrow> 'k \<Rightarrow> f64 \<Rightarrow> f64 \<Rightarrow> 'm \<times> 'i \<Rightarrow> 'm \<times> 'i" where
  "replace_score M V k score new_score = (\<lambda>(m, iv).
     let iv = snd (t_remove V (InverseScoreEntry score k) iv);
         iv = t_insert V (InverseScoreEntry new_score k) () iv
     in (t_set M k new_score m, iv))"

definition feedback_factor :: f64 where "feedback_factor = f64_lit (1 / 100)"

definition feedback_score ::
  "('m, 'k) fwd_ops \<Rightarrow> ('i, 'k) inv_ops \<Rightarrow> 'k \<Rightarrow> 'm \<times> 'i \<Rightarrow> 'm \<times> 'i" where
  "feedback_score M V k = (\<lambda>(m, iv).
     case t_get M m k of
       Some score \<Rightarrow> replace_score M V k score (f64_mul score feedback_factor) (m, iv)
     | None \<Rightarrow> (m, iv))"

definition add_score ::
  "('m, 'k) fwd_ops \<Rightarrow> ('i, 'k) inv_ops \<Rightarrow> 'k \<Rightarrow> f64 \<Rightarrow> 'm \<times> 'i \<Rightarrow> 'm \<times> 'i" where
  "add_score M V k score = (\<lambda>(m, iv).
     let (removed, m) = t_remove M k m;
         iv = (case removed of
                  Some old \<Rightarrow> snd (t_remove V (InverseScoreEntry old k) iv)
                | None \<Rightarrow> iv)
     in (t_insert M k score m, t_insert V (InverseScoreEntry score k) () iv))"

text \<open>
  Pruning removes the root of the inverse tree again and again; \<open>remove_root().unwrap()\<close> panics on
  an empty tree, which is \<open>None\<close> here.
\<close>

fun prune_loop ::
  "('m, 'k) fwd_ops \<Rightarrow> ('i, 'k) inv_ops \<Rightarrow> nat \<Rightarrow> 'm \<times> 'i \<Rightarrow> ('m \<times> 'i) option" where
  "prune_loop M V 0 (m, iv) = Some (m, iv)"
| "prune_loop M V (Suc n) (m, iv) =
     (case t_remove_root V iv of
        (None, _) \<Rightarrow> None
      | (Some (root_key, _), iv) \<Rightarrow>
          prune_loop M V n (snd (t_remove M (entry_field root_key) m), iv))"

definition prune_scores ::
  "('m, 'k) fwd_ops \<Rightarrow> ('i, 'k) inv_ops \<Rightarrow> nat \<Rightarrow> 'm \<times> 'i \<Rightarrow> ('m \<times> 'i) option" where
  "prune_scores M V num = (\<lambda>(m, iv). prune_loop M V (t_len V iv - num) (m, iv))"

text \<open>
  The two update loops: every stored score moves towards the mean of its batch candidates (at
  least five of them) or else towards the median; then the remaining candidates with at least five
  observations enter the table.
\<close>

definition min_observations :: u32 where "min_observations = 5"

definition target_score :: "f64 \<Rightarrow> ScoreUpdateCandidate option \<Rightarrow> f64" where
  "target_score median removed =
     (case removed of
        Some sc \<Rightarrow> if min_observations \<le> sc_count sc then candidate_finalize sc else median
      | None \<Rightarrow> median)"

definition rescore_step ::
  "('m, 'k) fwd_ops \<Rightarrow> ('i, 'k) inv_ops \<Rightarrow> f64 \<Rightarrow> 'k
     \<Rightarrow> ('m \<times> 'i) \<times> ('k \<times> ScoreUpdateCandidate) list
     \<Rightarrow> ('m \<times> 'i) \<times> ('k \<times> ScoreUpdateCandidate) list" where
  "rescore_step M V median k = (\<lambda>((m, iv), cands).
     case t_get M m k of
       Some score \<Rightarrow>
         let new_score = target_score median (map_of cands k);
             cands = del_key k cands;
             new_score = ema score new_score
         in (replace_score M V k score new_score (m, iv), cands)
     | None \<Rightarrow> ((m, iv), cands))"

definition admit_step ::
  "('m, 'k) fwd_ops \<Rightarrow> ('i, 'k) inv_ops \<Rightarrow> 'k \<times> ScoreUpdateCandidate \<Rightarrow> 'm \<times> 'i \<Rightarrow> 'm \<times> 'i" where
  "admit_step M V = (\<lambda>(k, sc) (m, iv).
     if min_observations \<le> sc_count sc
     then let score = candidate_finalize sc
          in (t_insert M k score m, t_insert V (InverseScoreEntry score k) () iv)
     else (m, iv))"

definition update_scores ::
  "('m, 'k) fwd_ops \<Rightarrow> ('i, 'k) inv_ops \<Rightarrow> ('k \<times> ScoreUpdateCandidate) list
     \<Rightarrow> 'm \<times> 'i \<Rightarrow> 'm \<times> 'i" where
  "update_scores M V cands = (\<lambda>(m, iv).
     let median = approximate_median_score V iv;
         ((m, iv), cands) = fold (rescore_step M V median) (t_keys M m) ((m, iv), cands)
     in fold (admit_step M V) cands (m, iv))"

section \<open>The table invariant\<close>

definition mirrored :: "('k \<rightharpoonup> f64) \<Rightarrow> 'k InverseScoreEntry set \<Rightarrow> bool" where
  "mirrored g E \<longleftrightarrow> (\<forall>s k. InverseScoreEntry s k \<in> E \<longleftrightarrow> g k = Some s)"

text \<open>
  \<open>tables_ok N (okm, oki) M V\<close> states the tree laws for both trees of a table with capacity \<open>N\<close>;
  \<open>table_inv\<close> is the invariant of a table, and \<open>scores_of\<close> its abstraction, a finite map.
\<close>

definition tables_ok ::
  "nat \<Rightarrow> ('m \<Rightarrow> bool) \<Rightarrow> ('i \<Rightarrow> bool) \<Rightarrow> ('m, 'k) fwd_ops \<Rightarrow> ('i, 'k) inv_ops \<Rightarrow> bool" where
  "tables_ok N okm oki M V \<longleftrightarrow> tree_laws N okm M \<and> tree_laws N oki V"

definition table_inv ::
  "('m \<Rightarrow> bool) \<Rightarrow> ('i \<Rightarrow> bool) \<Rightarrow> ('m, 'k) fwd_ops \<Rightarrow> ('i, 'k) inv_ops \<Rightarrow> 'm \<times> 'i \<Rightarrow> bool" where
  "table_inv okm oki M V t \<longleftrightarrow>
     okm (fst t) \<and> oki (snd t) \<and> mirrored (t_get M (fst t)) (dom (t_get V (snd t)))"

abbreviation scores_of :: "('m, 'k) fwd_ops \<Rightarrow> 'm \<times> 'i \<Rightarrow> ('k \<rightharpoonup> f64)" where
  "scores_of M t \<equiv> t_get M (fst t)"

lemma mirrored_upd:
  "mirrored g E \<Longrightarrow> g k = Some s \<Longrightarrow>
   mirrored (g(k \<mapsto> s')) (insert (InverseScoreEntry s' k) (E - {InverseScoreEntry s k}))"
  by (auto simp: mirrored_def)

lemma mirrored_new:
  "mirrored g E \<Longrightarrow> g k = None \<Longrightarrow> mirrored (g(k \<mapsto> s)) (insert (InverseScoreEntry s k) E)"
  by (auto simp: mirrored_def)

lemma mirrored_del:
  "mirrored g E \<Longrightarrow> g k = Some s \<Longrightarrow> mirrored (g(k := None)) (E - {InverseScoreEntry s k})"
  by (auto simp: mirrored_def)

lemma mirrored_card:
  assumes "mirrored g E"
  shows "card E = card (dom g)"
proof -
  have "E = (\<lambda>k. InverseScoreEntry (the (g k)) k) ` dom g"
  proof (intro equalityI subsetI)
    fix x assume x: "x \<in> E"
    obtain s k where "x = InverseScoreEntry s k" by (cases x)
    with x assms show "x \<in> (\<lambda>k. InverseScoreEntry (the (g k)) k) ` dom g"
      by (force simp: mirrored_def)
  qed (use assms in \<open>auto simp: mirrored_def\<close>)
  then show ?thesis by (simp add: card_image inj_on_def)
qed

lemma table_inv_size:
  assumes "tables_ok N okm oki M V" and "table_inv okm oki M V t"
  shows "finite (dom (scores_of M t))" and "card (dom (scores_of M t)) \<le> N"
    and "card (dom (t_get V (snd t))) = card (dom (scores_of M t))"
    and "t_len V (snd t) = card (dom (scores_of M t))"
  using assms mirrored_card [of "scores_of M t" "dom (t_get V (snd t))"]
  by (auto simp: tables_ok_def table_inv_def tree_facts)

lemma replace_score_ok:
  assumes laws: "tables_ok N okm oki M V" and inv: "table_inv okm oki M V t"
    and k: "scores_of M t k = Some s"
  shows "table_inv okm oki M V (replace_score M V k s s' t)"
    and "scores_of M (replace_score M V k s s' t) = (scores_of M t)(k \<mapsto> s')"
proof -
  obtain m iv where t: "t = (m, iv)" by force
  let ?iv1 = "snd (t_remove V (InverseScoreEntry s k) iv)"
  from laws have LM: "tree_laws N okm M" and LV: "tree_laws N oki V" by (simp_all add: tables_ok_def)
  from inv t have m: "okm m" and iv: "oki iv" and mir: "mirrored (t_get M m) (dom (t_get V iv))"
    by (simp_all add: table_inv_def)
  have e: "InverseScoreEntry s k \<in> dom (t_get V iv)" using mir k t by (simp add: mirrored_def)
  have "card (dom (t_get V iv) - {InverseScoreEntry s k}) < N"
    using tree_size(1,3) [OF LV iv] card_Diff1_less [OF _ e] by linarith
  then have lt: "card (dom (t_get V ?iv1)) < N"
    by (simp add: tree_remove(3) [OF LV iv])
  have "oki ?iv1" by (rule tree_remove(2) [OF LV iv])
  note ins = tree_insert [OF LV this disjI2 [OF lt], of "InverseScoreEntry s' k" "()"]
  have "k \<in> dom (t_get M m)" using k t by auto
  note set = tree_set [OF LM m this, of s']
  have "dom (t_get V (t_insert V (InverseScoreEntry s' k) () ?iv1)) =
      insert (InverseScoreEntry s' k) (dom (t_get V iv) - {InverseScoreEntry s k})"
    by (simp add: ins(2) tree_remove(3) [OF LV iv])
  with mirrored_upd [OF mir, of k s s'] k t ins(1) set
  show "table_inv okm oki M V (replace_score M V k s s' t)"
    by (simp add: table_inv_def replace_score_def Let_def)
  show "scores_of M (replace_score M V k s s' t) = (scores_of M t)(k \<mapsto> s')"
    using set(2) by (simp add: t replace_score_def Let_def)
qed

lemma insert_score_ok:
  assumes laws: "tables_ok N okm oki M V" and inv: "table_inv okm oki M V (m, iv)"
    and k: "t_get M m k = None" and room: "card (dom (t_get M m)) < N"
  shows "table_inv okm oki M V (t_insert M k s m, t_insert V (InverseScoreEntry s k) () iv)"
    and "t_get M (t_insert M k s m) = (t_get M m)(k \<mapsto> s)"
proof -
  from laws have LM: "tree_laws N okm M" and LV: "tree_laws N oki V" by (simp_all add: tables_ok_def)
  from inv have m: "okm m" and iv: "oki iv" and mir: "mirrored (t_get M m) (dom (t_get V iv))"
    by (simp_all add: table_inv_def)
  note insm = tree_insert [OF LM m disjI2 [OF room], of k s]
  have "card (dom (t_get V iv)) < N" using mirrored_card [OF mir] room by simp
  note insv = tree_insert [OF LV iv disjI2 [OF this], of "InverseScoreEntry s k" "()"]
  from insm insv mirrored_new [OF mir k, of s]
  show "table_inv okm oki M V (t_insert M k s m, t_insert V (InverseScoreEntry s k) () iv)"
    by (simp add: table_inv_def)
  show "t_get M (t_insert M k s m) = (t_get M m)(k \<mapsto> s)" by (rule insm(2))
qed

lemma remove_score_ok:
  assumes laws: "tables_ok N okm oki M V" and inv: "table_inv okm oki M V (m, iv)"
    and k: "t_get M m k = Some s"
  shows "table_inv okm oki M V (snd (t_remove M k m), snd (t_remove V (InverseScoreEntry s k) iv))"
    and "t_get M (snd (t_remove M k m)) = (t_get M m)(k := None)"
proof -
  from laws have LM: "tree_laws N okm M" and LV: "tree_laws N oki V" by (simp_all add: tables_ok_def)
  from inv have m: "okm m" and iv: "oki iv" and mir: "mirrored (t_get M m) (dom (t_get V iv))"
    by (simp_all add: table_inv_def)
  from tree_remove [OF LM m, of k] tree_remove [OF LV iv, of "InverseScoreEntry s k"]
    mirrored_del [OF mir k]
  show "table_inv okm oki M V (snd (t_remove M k m), snd (t_remove V (InverseScoreEntry s k) iv))"
    "t_get M (snd (t_remove M k m)) = (t_get M m)(k := None)"
    by (simp_all add: table_inv_def)
qed

section \<open>Effect of the operations on the score map\<close>

lemma feedback_score_ok:
  assumes "tables_ok N okm oki M V" and "table_inv okm oki M V t"
  shows "table_inv okm oki M V (feedback_score M V k t)"
    and "scores_of M (feedback_score M V k t) =
      (case scores_of M t k of
         None \<Rightarrow> scores_of M t
       | Some s \<Rightarrow> (scores_of M t)(k \<mapsto> f64_mul s feedback_factor))"
  using assms replace_score_ok [OF assms, of k]
  by (cases t; auto simp: feedback_score_def split: option.splits)+

lemma add_score_ok:
  assumes laws: "tables_ok N okm oki M V" and inv: "table_inv okm oki M V t"
    and room: "k \<in> dom (scores_of M t) \<or> card (dom (scores_of M t)) < N"
  shows "table_inv okm oki M V (add_score M V k s t)"
    and "scores_of M (add_score M V k s t) = (scores_of M t)(k \<mapsto> s)"
proof -
  obtain m iv where t: "t = (m, iv)" by force
  have rem: "fst (t_remove M k m) = t_get M m k" "okm (snd (t_remove M k m))"
    "t_get M (snd (t_remove M k m)) = (t_get M m)(k := None)"
    using laws inv by (auto simp: t tables_ok_def table_inv_def tree_remove)
  let ?iv = "case t_get M m k of Some old \<Rightarrow> snd (t_remove V (InverseScoreEntry old k) iv) | None \<Rightarrow> iv"
  have inv1: "table_inv okm oki M V (snd (t_remove M k m), ?iv)"
  proof (cases "t_get M m k")
    case None
    then have "(t_get M m)(k := None) = t_get M m" by (simp add: fun_upd_idem)
    with None inv rem t show ?thesis by (simp add: table_inv_def)
  next
    case (Some old)
    with remove_score_ok(1) [OF laws inv [unfolded t]] show ?thesis by simp
  qed
  have fin: "finite (dom (t_get M m))" "card (dom (t_get M m)) \<le> N"
    using table_inv_size [OF laws inv] t by auto
  have lt: "card (dom (t_get M (snd (t_remove M k m)))) < N"
    using room fin card_Diff1_less [OF fin(1), of k] t
    by (cases "k \<in> dom (t_get M m)") (auto simp: rem(3))
  have none: "t_get M (snd (t_remove M k m)) k = None" by (simp add: rem(3))
  have eq: "add_score M V k s t =
      (t_insert M k s (snd (t_remove M k m)), t_insert V (InverseScoreEntry s k) () ?iv)"
    using rem(1) by (auto simp: add_score_def t Let_def split: prod.splits)
  from insert_score_ok [OF laws inv1 none lt, of s]
  show "table_inv okm oki M V (add_score M V k s t)"
    "scores_of M (add_score M V k s t) = (scores_of M t)(k \<mapsto> s)"
    unfolding eq by (simp_all add: rem(3) t)
qed

lemma load_scores_ok:
  assumes laws: "tables_ok N okm oki M V" and "distinct (map fst kvs)" and "length kvs \<le> N"
  shows "table_inv okm oki M V (load_scores M V kvs) \<and> scores_of M (load_scores M V kvs) = map_of (rev kvs)"
  using assms(2,3)
proof (induction kvs rule: rev_induct)
  case Nil
  then show ?case
    using laws by (auto simp: load_scores_def tables_ok_def table_inv_def mirrored_def tree_new)
next
  case (snoc kv kvs)
  obtain k s where kv: "kv = (k, s)" by force
  obtain m iv where l: "load_scores M V kvs = (m, iv)" by force
  from snoc have IH: "table_inv okm oki M V (m, iv)" "t_get M m = map_of (rev kvs)" by (auto simp: l)
  have k: "t_get M m k = None" using snoc.prems(1) kv by (auto simp: IH(2) map_of_eq_None_iff)
  have "card (dom (t_get M m)) \<le> card (fst ` set kvs)"
    by (simp add: IH(2) dom_map_of_conv_image_fst)
  also have "\<dots> \<le> length kvs" by (metis card_length length_map list.set_map)
  finally have "card (dom (t_get M m)) < N" using snoc.prems(2) by simp
  from insert_score_ok [OF laws IH(1) k this, of s] IH(2) show ?case
    using l by (simp add: load_scores_def kv)
qed

text \<open>The median of an empty table is one; otherwise it is the score of some stored key.\<close>

lemma median_cases:
  assumes laws: "tables_ok N okm oki M V" and inv: "table_inv okm oki M V t"
  obtains "scores_of M t = Map.empty" "approximate_median_score V (snd t) = ONE"
  | k where "scores_of M t k = Some (approximate_median_score V (snd t))"
proof -
  from laws inv have LV: "tree_laws N oki V" and iv: "oki (snd t)"
    and mir: "mirrored (scores_of M t) (dom (t_get V (snd t)))"
    by (simp_all add: tables_ok_def table_inv_def)
  show ?thesis
  proof (cases "dom (t_get V (snd t)) = {}")
    case True
    have "card (dom (scores_of M t)) = 0" using table_inv_size(3) [OF laws inv] True by simp
    then have "scores_of M t = Map.empty" using table_inv_size(1) [OF laws inv] by simp
    moreover have "approximate_median_score V (snd t) = ONE"
      using tree_size(4) [OF LV iv] True by (simp add: approximate_median_score_def)
    ultimately show ?thesis by (rule that(1))
  next
    case False
    obtain s k where e: "t_root V (snd t) = InverseScoreEntry s k" by (cases "t_root V (snd t)")
    with tree_root(1) [OF LV iv False] mir have "scores_of M t k = Some s"
      by (simp add: mirrored_def)
    moreover have "approximate_median_score V (snd t) = s"
      using tree_size(4) [OF LV iv] False e by (simp add: approximate_median_score_def)
    ultimately show ?thesis using that(2) by simp
  qed
qed

text \<open>
  Pruning never panics, ends with exactly \<open>num\<close> scores when there were more, and the scores that
  remain are unchanged.
\<close>

lemma prune_loop_ok:
  assumes laws: "tables_ok N okm oki M V" and "table_inv okm oki M V t"
    and "n \<le> card (dom (scores_of M t))"
  shows "\<exists>t'. prune_loop M V n t = Some t' \<and> table_inv okm oki M V t' \<and>
    scores_of M t' \<subseteq>\<^sub>m scores_of M t \<and> card (dom (scores_of M t')) = card (dom (scores_of M t)) - n"
  using assms(2,3)
proof (induction n arbitrary: t)
  case 0
  then show ?case by (cases t) auto
next
  case (Suc n)
  obtain m iv where t: "t = (m, iv)" by force
  from laws Suc.prems t have LV: "tree_laws N oki V" and iv: "oki iv"
    and mir: "mirrored (t_get M m) (dom (t_get V iv))" by (simp_all add: tables_ok_def table_inv_def)
  have "card (dom (t_get V iv)) \<noteq> 0"
    using Suc.prems table_inv_size(3) [OF laws Suc.prems(1)] t by simp
  then have ne: "dom (t_get V iv) \<noteq> {}" by force
  obtain s k where root: "t_root V iv = InverseScoreEntry s k" by (cases "t_root V iv")
  note rr = tree_root [OF LV iv ne]
  from rr(1) root mir have k: "t_get M m k = Some s" by (simp add: mirrored_def)
  let ?t1 = "(snd (t_remove M k m), snd (t_remove_root V iv))"
  have inv1: "table_inv okm oki M V ?t1" and sc1: "scores_of M ?t1 = (t_get M m)(k := None)"
    using remove_score_ok [OF laws Suc.prems(1) [unfolded t] k] rr(3,4) root
      tree_remove(3) [OF LV iv]
    by (auto simp: table_inv_def)
  have card1: "card (dom (scores_of M ?t1)) = card (dom (t_get M m)) - 1"
    unfolding sc1 using card_Diff_singleton [OF domI [of "t_get M m" k s, OF k]] by simp
  then have "n \<le> card (dom (scores_of M ?t1))" using Suc.prems(2) t by simp
  from Suc.IH [OF inv1 this] obtain t' where t': "prune_loop M V n ?t1 = Some t'"
    "table_inv okm oki M V t'" "scores_of M t' \<subseteq>\<^sub>m (t_get M m)(k := None)"
    "card (dom (scores_of M t')) = card (dom (t_get M m)) - Suc n"
    unfolding sc1 [symmetric] card1 by auto
  have "prune_loop M V (Suc n) t = Some t'"
    using t'(1) rr(2) root t by (auto split: prod.splits)
  moreover have "scores_of M t' \<subseteq>\<^sub>m scores_of M t"
    using map_le_trans [OF t'(3), of "scores_of M t"] t by (simp add: map_le_def)
  ultimately show ?case using t' t by auto
qed

lemma prune_scores_ok:
  assumes laws: "tables_ok N okm oki M V" and inv: "table_inv okm oki M V t"
  obtains t' where "prune_scores M V num t = Some t'" "table_inv okm oki M V t'"
    "scores_of M t' \<subseteq>\<^sub>m scores_of M t"
    "card (dom (scores_of M t')) = min (card (dom (scores_of M t))) num"
proof -
  obtain m iv where t: "t = (m, iv)" by force
  have len: "t_len V iv = card (dom (scores_of M t))" using table_inv_size(4) [OF laws inv] t by simp
  obtain t' where "prune_loop M V (card (dom (scores_of M t)) - num) t = Some t'"
    "table_inv okm oki M V t'" "scores_of M t' \<subseteq>\<^sub>m scores_of M t"
    "card (dom (scores_of M t')) = card (dom (scores_of M t)) - (card (dom (scores_of M t)) - num)"
    using prune_loop_ok [OF laws inv, of "card (dom (scores_of M t)) - num"] by auto
  moreover have "prune_scores M V num t = prune_loop M V (card (dom (scores_of M t)) - num) t"
    using len t by (simp add: prune_scores_def)
  ultimately show ?thesis using that by (auto simp: min_def)
qed

section \<open>The update loops\<close>

text \<open>What one batch does to the score map, before pruning.\<close>

definition updated_scores ::
  "f64 \<Rightarrow> ('k \<rightharpoonup> ScoreUpdateCandidate) \<Rightarrow> ('k \<rightharpoonup> f64) \<Rightarrow> ('k \<rightharpoonup> f64)" where
  "updated_scores median cands g k =
     (case g k of
        Some s \<Rightarrow> Some (ema s (target_score median (cands k)))
      | None \<Rightarrow>
          (case cands k of
             Some sc \<Rightarrow> if min_observations \<le> sc_count sc then Some (candidate_finalize sc) else None
           | None \<Rightarrow> None))"

lemma rescore_loop_ok:
  assumes laws: "tables_ok N okm oki M V" and "table_inv okm oki M V t"
    and "distinct ks" and "set ks \<subseteq> dom (scores_of M t)"
  shows "\<exists>t'. fold (rescore_step M V median) ks (t, cands) =
        (t', filter (\<lambda>e. fst e \<notin> set ks) cands) \<and>
      table_inv okm oki M V t' \<and>
      scores_of M t' = (\<lambda>k. if k \<in> set ks
        then Some (ema (the (scores_of M t k)) (target_score median (map_of cands k)))
        else scores_of M t k)"
  using assms(2-)
proof (induction ks arbitrary: t cands)
  case (Cons k ks)
  from Cons.prems(3) obtain s where s: "scores_of M t k = Some s" by auto
  let ?s' = "ema s (target_score median (map_of cands k))"
  let ?t1 = "replace_score M V k s ?s' t"
  have step: "rescore_step M V median k (t, cands) = (?t1, del_key k cands)"
    using s by (cases t) (simp add: rescore_step_def)
  note r = replace_score_ok [OF laws Cons.prems(1) s, of ?s']
  have "set ks \<subseteq> dom (scores_of M ?t1)" using Cons.prems(3) by (auto simp: r(2))
  from Cons.IH [OF r(1) _ this, of "del_key k cands"] Cons.prems(2) obtain t' where
    t': "fold (rescore_step M V median) ks (?t1, del_key k cands) =
        (t', filter (\<lambda>e. fst e \<notin> set ks) (del_key k cands))" "table_inv okm oki M V t'"
    "scores_of M t' = (\<lambda>k'. if k' \<in> set ks
        then Some (ema (the (scores_of M ?t1 k')) (target_score median (map_of (del_key k cands) k')))
        else scores_of M ?t1 k')"
    by auto
  have "filter (\<lambda>e. fst e \<notin> set ks) (del_key k cands) = filter (\<lambda>e. fst e \<notin> set (k # ks)) cands"
    by (simp add: del_key_def conj_commute)
  moreover have "k \<notin> set ks" using Cons.prems(2) by simp
  then have "scores_of M t' = (\<lambda>k'. if k' \<in> set (k # ks)
        then Some (ema (the (scores_of M t k')) (target_score median (map_of cands k')))
        else scores_of M t k')"
    unfolding t'(3) r(2) by (auto simp: fun_eq_iff s)
  ultimately show ?case using t'(1,2) step by simp
qed auto

definition admitted :: "('k \<times> ScoreUpdateCandidate) list \<Rightarrow> ('k \<times> ScoreUpdateCandidate) list" where
  "admitted cands = filter (\<lambda>e. min_observations \<le> sc_count (snd e)) cands"

lemma admit_loop_ok:
  assumes laws: "tables_ok N okm oki M V" and "table_inv okm oki M V t"
    and "distinct (map fst cands)" and "fst ` set cands \<inter> dom (scores_of M t) = {}"
    and "card (dom (scores_of M t)) + length (admitted cands) \<le> N"
  shows "table_inv okm oki M V (fold (admit_step M V) cands t) \<and>
      scores_of M (fold (admit_step M V) cands t) =
        scores_of M t ++ (\<lambda>k. map_option candidate_finalize (map_of (admitted cands) k))"
  using assms(2-)
proof (induction cands arbitrary: t)
  case Nil
  then show ?case by (simp add: admitted_def map_add_def)
next
  case (Cons e cands)
  obtain k sc where e: "e = (k, sc)" by force
  obtain m iv where t: "t = (m, iv)" by force
  show ?case
  proof (cases "min_observations \<le> sc_count sc")
    case False
    then have "admit_step M V e t = t" "admitted (e # cands) = admitted cands"
      by (simp_all add: e t admit_step_def admitted_def)
    with Cons show ?thesis by simp
  next
    case True
    let ?t1 = "(t_insert M k (candidate_finalize sc) m,
                t_insert V (InverseScoreEntry (candidate_finalize sc) k) () iv)"
    have step: "admit_step M V e t = ?t1" using True by (simp add: e t admit_step_def Let_def)
    have adm: "admitted (e # cands) = e # admitted cands" using True by (simp add: e admitted_def)
    have k: "t_get M m k = None" using Cons.prems(3) e t by (auto simp: dom_def)
    have fin: "finite (dom (t_get M m))" using table_inv_size(1) [OF laws Cons.prems(1)] t by simp
    have "card (dom (t_get M m)) < N" using Cons.prems(4) adm t by simp
    note ins = insert_score_ok [OF laws Cons.prems(1) [unfolded t] k this, of "candidate_finalize sc"]
    have "fst ` set cands \<inter> dom (scores_of M ?t1) = {}"
      using Cons.prems(2,3) e t by (auto simp: ins(2))
    moreover have "card (dom (scores_of M ?t1)) + length (admitted cands) \<le> N"
      using Cons.prems(4) adm t k fin by (simp add: ins(2) domIff)
    ultimately have "table_inv okm oki M V (fold (admit_step M V) cands ?t1)"
      "scores_of M (fold (admit_step M V) cands ?t1) =
        scores_of M ?t1 ++ (\<lambda>k. map_option candidate_finalize (map_of (admitted cands) k))"
      using Cons.IH [OF ins(1)] Cons.prems(2) by auto
    moreover have "map_of (admitted cands) k = None"
      using Cons.prems(2) e by (auto simp: admitted_def map_of_eq_None_iff)
    ultimately show ?thesis
      using step adm e t by (auto simp: ins(2) map_add_def fun_eq_iff split: option.splits)
  qed
qed

lemma map_of_filter_keys: "map_of (filter (\<lambda>e. P (fst e)) es) k = (if P k then map_of es k else None)"
  by (induction es) auto

lemma map_of_admitted:
  "distinct (map fst cands) \<Longrightarrow> map_of (admitted cands) k =
     (case map_of cands k of
        Some sc \<Rightarrow> if min_observations \<le> sc_count sc then Some sc else None | None \<Rightarrow> None)"
  by (induction cands) (auto simp: admitted_def map_of_eq_None_iff split: option.splits)

lemma update_scores_ok:
  assumes laws: "tables_ok N okm oki M V" and inv: "table_inv okm oki M V t"
    and dist: "distinct (map fst cands)"
    and room: "card (dom (scores_of M t)) + length (filter (\<lambda>e. fst e \<notin> dom (scores_of M t)) (admitted cands)) \<le> N"
  shows "table_inv okm oki M V (update_scores M V cands t)"
    and "scores_of M (update_scores M V cands t) =
      updated_scores (approximate_median_score V (snd t)) (map_of cands) (scores_of M t)"
proof -
  let ?med = "approximate_median_score V (snd t)" and ?ks = "t_keys M (fst t)"
  from laws inv have LM: "tree_laws N okm M" and m: "okm (fst t)"
    by (simp_all add: tables_ok_def table_inv_def)
  have ks: "distinct ?ks" "set ?ks = dom (scores_of M t)"
    using tree_size [OF LM m] by simp_all
  let ?cands = "filter (\<lambda>e. fst e \<notin> set ?ks) cands"
  from rescore_loop_ok [OF laws inv ks(1), where median = ?med and cands = cands] ks(2) obtain t1 where
    t1: "fold (rescore_step M V ?med) ?ks (t, cands) = (t1, ?cands)" "table_inv okm oki M V t1"
    "scores_of M t1 = (\<lambda>k. if k \<in> set ?ks
        then Some (ema (the (scores_of M t k)) (target_score ?med (map_of cands k)))
        else scores_of M t k)" by auto
  have dom1: "dom (scores_of M t1) = dom (scores_of M t)" using ks(2) by (auto simp: t1(3) split: if_splits)
  have d: "distinct (map fst ?cands)" using dist by (simp add: distinct_map_filter)
  have disj: "fst ` set ?cands \<inter> dom (scores_of M t1) = {}" unfolding dom1 using ks(2) by auto
  have "admitted ?cands = filter (\<lambda>e. fst e \<notin> set ?ks) (admitted cands)"
    by (simp add: admitted_def conj_commute)
  with room dom1 ks(2) have "card (dom (scores_of M t1)) + length (admitted ?cands) \<le> N" by simp
  note adm = admit_loop_ok [OF laws t1(2) d disj this]
  have eq: "update_scores M V cands t = fold (admit_step M V) ?cands t1"
    using t1(1) by (cases t) (auto simp: update_scores_def split: prod.splits)
  show "table_inv okm oki M V (update_scores M V cands t)" using adm by (simp add: eq)
  show "scores_of M (update_scores M V cands t) =
      updated_scores ?med (map_of cands) (scores_of M t)"
  proof
    fix k
    have "scores_of M t k = None \<longleftrightarrow> k \<notin> set ?ks" using ks(2) by (simp add: domIff)
    with adm show "scores_of M (update_scores M V cands t) k =
        updated_scores ?med (map_of cands) (scores_of M t) k"
      by (auto simp: eq map_add_def t1(3) updated_scores_def map_of_admitted [OF d]
          map_of_filter_keys [where P = "\<lambda>k. k \<notin> set ?ks"]
          split: option.splits)
  qed
qed

end
