(* ===== verification/Score_Range.thy ===== *)
theory Score_Range
  imports Score_Table
begin

text \<open>
  Two groups of facts about the data a model update works on.

  \<^item> The candidates collected from a batch: per key the rounded sum and the number of its values;
    at most a fifth of the batch can be admitted.
  \<^item> Ranges: a score is \<open>in_range B\<close> when it is a finite binary64 value between zero and \<open>B\<close>.
    Every step of an update keeps scores in the range \<open>[0, 2 ^ K]\<close> when the incoming values lie in
    it, so that no score ever becomes infinite or NaN.
\<close>

section \<open>Candidates of a batch\<close>

definition candidates ::
  "('t \<Rightarrow> 'k::linorder) \<Rightarrow> ('t \<Rightarrow> f64) \<Rightarrow> 't list \<Rightarrow> ('k \<times> ScoreUpdateCandidate) list" where
  "candidates key val txs = fold (\<lambda>tx. note_candidate (key tx) (val tx)) txs []"

fun candidate_of :: "f64 list \<Rightarrow> ScoreUpdateCandidate option" where
  "candidate_of [] = None"
| "candidate_of (v # vs) = Some (fold candidate_update vs (candidate_new v))"

definition sorted_keys :: "('k::linorder \<times> 'v) list \<Rightarrow> bool" where
  "sorted_keys es \<longleftrightarrow> sorted_wrt (<) (map fst es)"

lemma sorted_keys_simps [simp]:
  "sorted_keys []" "sorted_keys (e # es) \<longleftrightarrow> (\<forall>e' \<in> set es. fst e < fst e') \<and> sorted_keys es"
  by (auto simp: sorted_keys_def)

lemma sorted_keys_distinct: "sorted_keys es \<Longrightarrow> distinct (map fst es)"
  by (simp add: sorted_keys_def strict_sorted_iff flip: strict_sorted_simps)

lemma keys_bt_upsert: "fst ` set (bt_upsert f d k es) = insert k (fst ` set es)"
  by (induction f d k es rule: bt_upsert.induct) auto

lemma keys_bt_upsert_above:
  "\<forall>e \<in> set es. x < fst e \<Longrightarrow> x < k \<Longrightarrow> e \<in> set (bt_upsert f d k es) \<Longrightarrow> x < fst e"
  using keys_bt_upsert [of f d k es] by (metis (no_types, lifting) image_iff insert_iff)

lemma sorted_bt_upsert: "sorted_keys es \<Longrightarrow> sorted_keys (bt_upsert f d k es)"
proof (induction es)
  case (Cons e es)
  have "\<forall>e' \<in> set (bt_upsert f d k es). fst e < fst e'" if "fst e < k"
    using keys_bt_upsert_above [OF _ that] Cons.prems by auto
  with Cons show ?case by (cases e) (auto intro: less_trans)
qed simp

lemma map_of_bt_upsert:
  "sorted_keys es \<Longrightarrow> map_of (bt_upsert f d k es) =
     (map_of es)(k \<mapsto> (case map_of es k of Some v \<Rightarrow> f v | None \<Rightarrow> d))"
proof (induction es)
  case (Cons e es)
  have "map_of es k = None" if "k < fst e"
    using Cons.prems that by (force simp: map_of_eq_None_iff)
  with Cons show ?case by (cases e) auto
qed simp

lemmas bt_upsert_ok = sorted_bt_upsert map_of_bt_upsert

lemma candidates_snoc:
  "candidates key val (txs @ [tx]) = note_candidate (key tx) (val tx) (candidates key val txs)"
  by (simp add: candidates_def)

lemma candidate_of_snoc:
  "candidate_of (vs @ [v]) =
     Some (case candidate_of vs of Some sc \<Rightarrow> candidate_update v sc | None \<Rightarrow> candidate_new v)"
  by (cases vs) simp_all

lemma candidates_map_of:
  "sorted_keys (candidates key val txs) \<and>
   map_of (candidates key val txs) k = candidate_of (map val (filter (\<lambda>t. key t = k) txs))"
proof (induction txs arbitrary: k rule: rev_induct)
  case (snoc tx txs)
  let ?f = "candidate_update (val tx)" and ?d = "candidate_new (val tx)"
  from snoc have "sorted_keys (candidates key val txs)" by blast
  note up = bt_upsert_ok [OF this, of ?f ?d "key tx"]
  have "map_of (candidates key val (txs @ [tx])) k =
      (if key tx = k then candidate_of (map val (filter (\<lambda>t. key t = k) txs) @ [val tx])
       else map_of (candidates key val txs) k)"
    using snoc [of "key tx"] by (auto simp: candidates_snoc note_candidate_def up(2) candidate_of_snoc)
  then show ?case using snoc up(1) by (simp add: candidates_snoc note_candidate_def)
qed (simp add: candidates_def)

lemma candidates_distinct: "distinct (map fst (candidates key val txs))"
  using candidates_map_of by (rule sorted_keys_distinct [OF conjunct1])

text \<open>Each admitted key needs at least five transactions of the batch.\<close>

lemma note_candidate_total:
  "sum_list (map (\<lambda>e. unat (sc_count (snd e))) (note_candidate k v es)) \<le>
     Suc (sum_list (map (\<lambda>e. unat (sc_count (snd e))) es))"
proof (induction es)
  case (Cons e es)
  have "unat (w + 1) \<le> Suc (unat w)" for w :: u32
    using unat_plus_if' [of w 1] by (auto split: if_splits)
  from this [of "sc_count (snd e)"] Cons show ?case
    by (cases e) (auto simp: note_candidate_def candidate_update_def candidate_new_def)
qed (simp add: note_candidate_def candidate_new_def)

lemma candidates_total:
  "sum_list (map (\<lambda>e. unat (sc_count (snd e))) (candidates key val txs)) \<le> length txs"
proof (induction txs rule: rev_induct)
  case (snoc tx txs)
  with note_candidate_total [of "key tx" "val tx" "candidates key val txs"] show ?case
    by (simp add: candidates_snoc)
qed (simp add: candidates_def)

lemma candidates_admitted: "5 * length (admitted (candidates key val txs)) \<le> length txs"
proof -
  have "5 * length (admitted es) \<le> sum_list (map (\<lambda>e. unat (sc_count (snd e))) es)"
    for es :: "('k \<times> ScoreUpdateCandidate) list"
    by (induction es) (auto simp: admitted_def min_observations_def word_le_nat_alt)
  from this [of "candidates key val txs"] candidates_total [of key val txs] show ?thesis by linarith
qed

section \<open>Score ranges\<close>

definition in_range :: "rat \<Rightarrow> f64 \<Rightarrow> bool" where
  "in_range B x \<longleftrightarrow> (case x of Fin q \<Rightarrow> 0 \<le> q \<and> q \<le> B \<and> representable q | _ \<Rightarrow> False)"

lemma in_range_Fin [simp]: "in_range B (Fin q) \<longleftrightarrow> 0 \<le> q \<and> q \<le> B \<and> representable q"
  by (simp add: in_range_def)

lemma in_range_iff: "in_range B x \<longleftrightarrow> (\<exists>q. x = Fin q \<and> 0 \<le> q \<and> q \<le> B \<and> representable q)"
  by (cases x) (auto simp: in_range_def)

lemma representable_scale:
  "n < 2 ^ 53 \<Longrightarrow> - 1074 \<le> e \<Longrightarrow> e \<le> 970 \<Longrightarrow> representable (of_nat n * 2 powi e)"
proof -
  assume n: "n < 2 ^ 53" and e: "- 1074 \<le> e" "e \<le> 970"
  have n53: "(of_nat n :: rat) < 2 ^ 53"
    using n by (metis of_nat_less_iff of_nat_numeral of_nat_power)
  have "(2::rat) powi e \<le> 2 powi 970" using e(2) by (simp only: two_powi_le_iff)
  then have "(2::rat) powi e \<le> 2 ^ 970" by (simp only: power_int_numeral)
  with n53 have "(of_nat n :: rat) * 2 powi e \<le> 2 ^ 53 * 2 ^ 970"
    by (intro mult_mono) simp_all
  also have "\<dots> < 2 ^ 1024" unfolding power_add [symmetric] by (rule power_strict_increasing) simp_all
  finally show ?thesis using n e(1) unfolding representable_def by blast
qed

lemma representable_pow2: "- 1000 \<le> K \<Longrightarrow> K \<le> 970 \<Longrightarrow> representable (2 powi K)"
  using representable_scale [of 1 K] by simp

lemma f64_of_nat_value:
  assumes "n < 2 ^ 64"
  shows "f64_of_nat n = Fin (round_mag (of_nat n))"
proof -
  have "(of_nat n :: rat) \<le> of_nat (2 ^ 64)" using assms by (simp only: of_nat_le_iff less_imp_le)
  moreover have "representable (of_nat (2 ^ 64))" using representable_pow2 [of 64] by simp
  ultimately show ?thesis
    using round_between [OF order_refl representable_0 of_nat_0_le_iff [of n]] f64_of_nat_def by metis
qed

lemma f64_of_u64_value: "f64_of_u64 w = Fin (round_mag (of_nat (unat w)))"
  unfolding f64_of_u64_def using unsigned_less [where w = w and 'a = nat] by (intro f64_of_nat_value) simp

lemma in_range_round:
  assumes "0 \<le> x" "x \<le> B" "representable B"
  shows "in_range B (round_f64 x)"
  using round_between [OF order_refl representable_0 assms] by (metis in_range_Fin)

lemma mul_in_range:
  assumes "in_range A x" "in_range B y" "representable (A * B)"
  shows "in_range (A * B) (f64_mul x y)"
  using assms by (auto simp: in_range_iff intro!: in_range_round [unfolded in_range_iff] mult_mono mult_nonneg_nonneg)

lemma add_in_range:
  assumes "in_range A x" "in_range B y" "representable (A + B)"
  shows "in_range (A + B) (f64_add x y)"
  using assms by (auto simp: in_range_iff intro!: in_range_round [unfolded in_range_iff])

lemma in_range_mono: "in_range A x \<Longrightarrow> A \<le> B \<Longrightarrow> in_range B x"
  by (auto simp: in_range_iff)

lemma alpha_value: "ALPHA = Fin (3602879701896397 / 72057594037927936)"
  unfolding ALPHA_def f64_lit_def
  by (subst round_f64_eval [where k = "- 5" and i = 7205759403792794])
    (simp_all add: power_int_def power_one_over)

lemma one_minus_alpha_value: "f64_sub ONE ALPHA = Fin (8556839292003942 / 9007199254740992)"
  unfolding alpha_value ONE_def f64_sub_def
  by (simp, subst round_f64_eval [where k = "- 1" and i = 8556839292003942])
    (simp_all add: power_int_def power_one_over)

lemma ema_constants:
  "ALPHA = Fin (of_nat 3602879701896397 * 2 powi (- 56))"
  "f64_sub ONE ALPHA = Fin (of_nat 8556839292003942 * 2 powi (- 53))"
  by (simp add: alpha_value power_int_def power_one_over)
    (simp add: one_minus_alpha_value power_int_def power_one_over)

lemma ema_in_range:
  assumes K: "- 900 \<le> K" "K \<le> 900" and old: "in_range (2 powi K) old" and new: "in_range (2 powi K) new"
  shows "in_range (2 powi K) (ema old new)"
proof -
  let ?a = "of_nat 3602879701896397 :: rat" and ?b = "of_nat 8556839292003942 :: rat"
  have P: "(2::rat) powi K * (c * 2 powi j) = c * 2 powi (K + j)" for c j by (simp add: power_int_add)
  have rep: "representable (2 powi K * (?a * 2 powi (- 56)))" "representable (2 powi K * (?b * 2 powi (- 53)))"
    unfolding P using K by (intro representable_scale; simp)+
  have r1: "in_range (?a * 2 powi (- 56)) ALPHA"
    unfolding ema_constants(1) in_range_Fin using representable_scale [of 3602879701896397 "- 56"] by simp
  have r2: "in_range (?b * 2 powi (- 53)) (f64_sub ONE ALPHA)"
    unfolding ema_constants(2) in_range_Fin using representable_scale [of 8556839292003942 "- 53"] by simp
  obtain p where p: "f64_mul old (f64_sub ONE ALPHA) = Fin p" "0 \<le> p" "p \<le> 2 powi K * (?b * 2 powi (- 53))"
    using mul_in_range [OF old r2 rep(2)] by (auto simp: in_range_iff)
  obtain q where q: "f64_mul new ALPHA = Fin q" "0 \<le> q" "q \<le> 2 powi K * (?a * 2 powi (- 56))"
    using mul_in_range [OF new r1 rep(1)] by (auto simp: in_range_iff)
  have "p + q \<le> 2 powi K * (?b * 2 powi (- 53) + ?a * 2 powi (- 56))"
    using p(3) q(3) by (simp add: distrib_left)
  also have "\<dots> \<le> 2 powi K * 1"
    by (intro mult_left_mono) (simp_all add: power_int_def power_one_over)
  finally have "in_range (2 powi K) (round_f64 (p + q))"
    using p(2) q(2) K representable_pow2 [of K] by (intro in_range_round) auto
  then show ?thesis by (simp add: ema_def p(1) q(1))
qed


text \<open>The mean of a batch of values in the range is in the range (\<open>count\<close> stays below its width).\<close>

lemma candidate_in_range:
  assumes K: "0 \<le> K" "K \<le> 900" and "\<forall>v \<in> set vs. in_range (2 powi K) v"
    and "length vs < 2 ^ 32" and "candidate_of vs = Some sc"
  shows "in_range (of_nat (length vs) * 2 powi K) (score_sum sc) \<and> unat (sc_count sc) = length vs"
  using assms(3-)
proof (induction vs arbitrary: sc rule: rev_induct)
  case (snoc v vs)
  have v: "in_range (2 powi K) v" using snoc.prems by simp
  show ?case
  proof (cases "candidate_of vs")
    case None
    then have "vs = []" by (cases vs) simp_all
    with snoc.prems v show ?thesis by (auto simp: candidate_new_def)
  next
    case (Some sc')
    with snoc have IH: "in_range (of_nat (length vs) * 2 powi K) (score_sum sc')"
      "unat (sc_count sc') = length vs" by auto
    have sc: "sc = candidate_update v sc'" using snoc.prems Some by (simp add: candidate_of_snoc)
    have sum: "of_nat (length vs) * 2 powi K + 2 powi K = (of_nat (length (vs @ [v])) * 2 powi K :: rat)"
      by (simp add: distrib_right)
    have "representable (of_nat (length (vs @ [v])) * 2 powi K)"
      using snoc.prems(2) K by (intro representable_scale) simp_all
    from add_in_range [OF IH(1) v, unfolded sum, OF this]
    have "in_range (of_nat (length (vs @ [v])) * 2 powi K) (score_sum sc)"
      by (simp add: sc candidate_update_def)
    moreover have "unat (sc_count sc' + 1) = Suc (unat (sc_count sc'))"
      using snoc.prems(2) IH(2) unat_plus_if' [of "sc_count sc'" 1] by simp
    ultimately show ?thesis by (simp add: sc candidate_update_def IH(2))
  qed
qed simp

lemma finalize_in_range:
  assumes K: "0 \<le> K" "K \<le> 900" and vs: "\<forall>v \<in> set vs. in_range (2 powi K) v"
    and len: "length vs < 2 ^ 32" and sc: "candidate_of vs = Some sc"
  shows "in_range (2 powi K) (candidate_finalize sc)"
proof -
  let ?n = "length vs"
  note c = candidate_in_range [OF K vs len sc]
  from c obtain q where q: "score_sum sc = Fin q" "0 \<le> q" "q \<le> of_nat ?n * 2 powi K"
    by (auto simp: in_range_iff)
  have n: "0 < ?n" using sc by (cases vs) simp_all
  have "representable (of_nat ?n * 2 powi 0)" using len by (intro representable_scale) simp_all
  then have rn: "round_f64 (of_nat ?n) = Fin (of_nat ?n)"
    using round_between [of "of_nat ?n" "of_nat ?n" "of_nat ?n"]
    by (metis mult.right_neutral of_nat_0_le_iff order_antisym order_refl power_int_0_right)
  have "candidate_finalize sc = round_f64 (q / of_nat ?n)"
    using q(1) c n by (simp add: candidate_finalize_def f64_of_u32_def f64_of_nat_def rn)
  moreover have "q / of_nat ?n \<le> 2 powi K" using q(3) n by (simp add: field_simps)
  ultimately show ?thesis
    using q(2) n K representable_pow2 [of K] by (simp add: in_range_round)
qed

text \<open>Negative feedback strictly lowers every positive score.\<close>

lemma feedback_factor_value: "feedback_factor = Fin (5764607523034235 / 576460752303423488)"
  unfolding feedback_factor_def f64_lit_def
  by (subst round_f64_eval [where k = "- 7" and i = 5764607523034235])
    (simp_all add: power_int_def power_one_over)

lemma below_half_rounds_below:
  assumes q: "0 < q" "representable q" and x: "0 \<le> x" "x \<le> q / 3"
  obtains r where "round_f64 x = Fin r" "0 \<le> r" "r < q" "representable r"
proof -
  from q(2) obtain m :: nat and e where m: "m < 2 ^ 53" and e: "- 1074 \<le> e"
    and qe: "q = of_nat m * 2 powi e" and big: "q < 2 ^ 1024" by (auto simp: representable_def)
  have m0: "0 < m" using q(1) qe by (cases m) simp_all
  show ?thesis
  proof (cases "m = 1 \<and> e = - 1074")
    case False
    obtain B where B: "representable B" "x \<le> B" "B < q"
    proof (cases "m = 1")
      case True
      with False e have "- 1074 \<le> e - 1" by simp
      moreover have "2 powi (e - 1) = q / 2" using True qe by (simp add: power_int_diff)
      ultimately have "representable (q / 2)"
        using big q(1) unfolding representable_def
        by (intro conjI exI [where x = 1] exI [where x = "e - 1"]) simp_all
      then show ?thesis using that [of "q / 2"] q(1) x(2) by simp
    next
      case False
      let ?B = "of_nat (m div 2) * (2::rat) powi e"
      have "m \<le> 3 * (m div 2)" using False m0 by presburger
      then have "(of_nat m :: rat) \<le> of_nat (3 * (m div 2))" by (simp only: of_nat_le_iff)
      then have "q / 3 \<le> ?B" unfolding qe by (simp add: field_simps)
      moreover have "m div 2 < m" using m0 by simp
      then have lt: "?B < q" unfolding qe by simp
      moreover have "m div 2 < 2 ^ 53" using m by simp
      then have "representable ?B"
        using e lt big unfolding representable_def by (blast intro: less_trans)
      ultimately show ?thesis using that [of ?B] x(2) by simp
    qed
    from round_between [OF order_refl representable_0 x(1) B(2,1)] B(3) that show ?thesis
      by (metis le_less_trans)
  next
    case True
    define u :: rat where "u = 2 powi (- 1074)"
    have u: "0 < u" "floor_log2 u = - 1074"
      unfolding u_def by (rule two_powi_pos) (rule floor_log2_unique; simp only: two_powi_less_iff order_refl)
    from True have small: "x \<le> u / 3" using x(2) qe by (simp only: u_def of_nat_1 mult_1)
    have "round_mag x = 0"
    proof (cases "x = 0")
      case False
      with x(1) have x0: "0 < x" by simp
      have "x \<le> u" using small u(1) by linarith
      from floor_log2_mono [OF x0 this] have "ulp_exp x = - 1074" by (simp add: ulp_exp_def u(2))
      moreover have "x / u \<le> 1 / 3" using small u(1) by (simp add: pos_divide_le_eq)
      then have "round_half_even (x / u) = 0" using x0 u(1) by (intro round_half_even_near) simp
      ultimately show ?thesis unfolding round_mag_def u_def by simp
    qed (simp add: round_mag_def)
    then have "round_f64 x = Fin 0" using x(1) by (simp add: round_f64_def)
    then show ?thesis using that q(1) by simp
  qed
qed

lemma feedback_lowers:
  assumes "0 < q" "representable q"
  obtains r where "f64_mul (Fin q) feedback_factor = Fin r" "0 \<le> r" "r < q" "representable r"
  using below_half_rounds_below [OF assms, of "q * (5764607523034235 / 576460752303423488)"] assms that
  by (auto simp: feedback_factor_value field_simps)

lemma feedback_in_range:
  assumes "in_range B s"
  shows "in_range B (f64_mul s feedback_factor)"
proof -
  from assms obtain q where q: "s = Fin q" "0 \<le> q" "q \<le> B" "representable q"
    by (auto simp: in_range_iff)
  show ?thesis
  proof (cases "q = 0")
    case True
    with q show ?thesis by (simp add: feedback_factor_value round_f64_def round_mag_def)
  next
    case False
    with q feedback_lowers [of q] show ?thesis by (metis in_range_Fin less_le order.trans)
  qed
qed

text \<open>A quotient of two 64-bit counts, as the value of a transaction is one.\<close>

lemma f64_nat_quotient_in_range:
  assumes "a < 2 ^ 64" "1 \<le> b" "b < 2 ^ 64"
  shows "in_range (2 powi 64) (f64_div (f64_of_nat a) (f64_of_nat b))"
proof -
  have a: "of_nat a \<le> (of_nat (2 ^ 64) :: rat)" using assms(1) unfolding of_nat_le_iff by simp
  have p: "representable (of_nat (2 ^ 64))" using representable_pow2 [of 64] by simp
  have "0 \<le> round_mag (of_nat a)" "round_mag (of_nat a) \<le> of_nat (2 ^ 64)"
    using round_mag_mono [OF _ a] round_mag_representable [OF _ p] round_mag_nonneg [of "of_nat a"] by simp_all
  moreover have b1: "1 \<le> round_mag (of_nat b)"
    using round_mag_mono [of 1 "of_nat b"] assms(2) round_mag_representable [of 1] representable_pow2 [of 0]
    by simp
  ultimately have q: "0 \<le> round_mag (of_nat a) / round_mag (of_nat b)"
    "round_mag (of_nat a) / round_mag (of_nat b) \<le> of_nat (2 ^ 64)"
    by (simp_all add: pos_divide_le_eq order_trans [OF _ mult_right_mono [of 1]])
  from in_range_round [OF q p] b1 show ?thesis
    by (simp add: f64_of_nat_value [OF assms(1)] f64_of_nat_value [OF assms(3)])
qed

lemma f64_quotient_in_range:
  assumes "0 < d"
  shows "in_range (2 powi 64) (f64_div (f64_of_u64 n) (f64_of_u64 d))"
  unfolding f64_of_u64_def
  using assms unsigned_less [where w = n and 'a = nat] unsigned_less [where w = d and 'a = nat]
  by (intro f64_nat_quotient_in_range) (simp_all add: word_less_nat_alt)

end
