(* ===== verification/Wire_Data.thy ===== *)
theory Wire_Data
  imports Score_Range
begin

text \<open>
  The data that travels between the stages: little-endian byte encodings, packets and their
  addresses (types of the external crate \<open>solana_sdk\<close>, given by their documented fields), the
  preimage of the packet hash, the key of a signature, the two halves of a transaction's metadata
  and the counters (common/src, internal-common/src).
\<close>

section \<open>Little-endian bytes\<close>

definition to_le_bytes :: "nat \<Rightarrow> 'a::len word \<Rightarrow> u8 list" where
  "to_le_bytes n w = map (\<lambda>i. ucast (drop_bit (8 * i) w)) [0..<n]"

fun from_le_bytes :: "u8 list \<Rightarrow> 'a::len word" where
  "from_le_bytes [] = 0"
| "from_le_bytes (b # bs) = ucast b OR push_bit 8 (from_le_bytes bs)"

lemma length_to_le_bytes [simp]: "length (to_le_bytes n w) = n"
  by (simp add: to_le_bytes_def)

lemma bit_from_le_bytes:
  "bit (from_le_bytes bs :: 'a::len word) n \<longleftrightarrow>
     n < LENGTH('a) \<and> n div 8 < length bs \<and> bit (bs ! (n div 8)) (n mod 8)"
proof (induction bs arbitrary: n)
  case (Cons b bs)
  show ?case
  proof (cases "n < 8")
    case True
    then show ?thesis by (auto simp: bit_or_iff bit_push_bit_iff bit_ucast_iff)
  next
    case False
    then obtain m where n: "n = 8 + m" using le_Suc_ex not_less by blast
    have "\<not> bit b n" using False bit_imp_le_length [of b n] by auto
    then show ?thesis using Cons.IH [of m] n
      by (auto simp: bit_or_iff bit_push_bit_iff bit_ucast_iff dest: bit_imp_le_length)
  qed
qed simp

lemma from_to_le_bytes [simp]:
  assumes "LENGTH('a) \<le> 8 * n"
  shows "from_le_bytes (to_le_bytes n w) = (w :: 'a::len word)"
proof (rule bit_word_eqI)
  fix i assume "i < LENGTH('a)"
  moreover from this assms have "i div 8 < n" by auto
  ultimately show "bit (from_le_bytes (to_le_bytes n w) :: 'a word) i = bit w i"
    by (simp add: bit_from_le_bytes to_le_bytes_def bit_ucast_iff bit_drop_bit_eq)
qed

lemma from_le_bytes_inject:
  assumes "length as = length bs" and "8 * length bs \<le> LENGTH('a)"
    and "(from_le_bytes as :: 'a::len word) = from_le_bytes bs"
  shows "as = bs"
proof (rule nth_equalityI)
  fix i assume i: "i < length as"
  show "as ! i = bs ! i"
  proof (rule bit_word_eqI)
    fix j assume "j < LENGTH(8)"
    then have j: "j < 8" by simp
    with i assms have lt: "8 * i + j < LENGTH('a)" by simp
    have "(8 * i + j) div 8 = i" "(8 * i + j) mod 8 = j" using j by simp_all
    with lt i assms(1) bit_from_le_bytes [of as "8 * i + j", where 'a = 'a]
      bit_from_le_bytes [of bs "8 * i + j", where 'a = 'a] assms(3)
    show "bit (as ! i) j = bit (bs ! i) j" by simp
  qed
qed (simp add: assms)

lemma to_le_bytes_inject:
  assumes "LENGTH('a) \<le> 8 * n" and "to_le_bytes n v = to_le_bytes n (w :: 'a::len word)"
  shows "v = w"
  using assms from_to_le_bytes [of n v] from_to_le_bytes [of n w] by metis

section \<open>Addresses and packets\<close>

datatype Ipv4Addr = Ipv4Addr u8 u8 u8 u8

datatype IpAddr = V4 Ipv4Addr | V6 "u16 list"

fun octets :: "Ipv4Addr \<Rightarrow> u8 list" where
  "octets (Ipv4Addr a b c d) = [a, b, c, d]"

text \<open>The key of an address in the tables, and \<open>Ipv4Addr::to_bits\<close> (most significant octet first).\<close>

definition ip_key :: "Ipv4Addr \<Rightarrow> u32" where
  "ip_key ip = from_le_bytes (octets ip)"

definition ip_to_bits :: "Ipv4Addr \<Rightarrow> u32" where
  "ip_to_bits ip = from_le_bytes (rev (octets ip))"

record Meta =
  meta_size :: usize
  meta_addr :: IpAddr
  meta_port :: u16
  meta_flags :: u8

record Packet =
  packet_buffer :: "u8 list"
  packet_meta :: Meta

definition PACKET_DATA_SIZE :: nat where "PACKET_DATA_SIZE = 1232"

definition PACKET_SIZE :: nat where "PACKET_SIZE = 1264"

lemma length_octets [simp]: "length (octets ip) = 4"
  by (cases ip) simp

lemma octets_inject [simp]: "octets p = octets q \<longleftrightarrow> p = q"
  by (cases p; cases q) simp

lemma ip_key_inject: "ip_key p = ip_key q \<Longrightarrow> p = q"
  using from_le_bytes_inject [of "octets p" "octets q", where 'a = 32] by (simp add: ip_key_def)

lemma ip_to_bits_eq_key: "ip_to_bits (Ipv4Addr a b c d) = ip_key (Ipv4Addr d c b a)"
  by (simp add: ip_to_bits_def ip_key_def)

section \<open>The packet hash\<close>

text \<open>The hasher of common/src/xxhash.rs; the two functions of the hash crate are parameters.\<close>

record xx_ops =
  custom_default_secret :: "u64 \<Rightarrow> u8 list"
  xxh3_with_secret :: "u8 list \<Rightarrow> u8 list \<Rightarrow> u64"

record xxHasher =
  secret :: "u8 list"

definition initialize_with_seed :: "xx_ops \<Rightarrow> u64 \<Rightarrow> xxHasher" where
  "initialize_with_seed X seed = \<lparr>secret = custom_default_secret X seed\<rparr>"

definition xx_hash :: "xx_ops \<Rightarrow> xxHasher \<Rightarrow> u8 list \<Rightarrow> u64" where
  "xx_hash X h input = xxh3_with_secret X input (secret h)"

text \<open>
  \<open>packet_hash\<close> copies the payload into a zeroed array, appends the size (eight bytes) and the four
  octets of the sender, and hashes that prefix. \<open>None\<close> stands for an unchecked slice out of range
  and for the \<open>unreachable!\<close> on a packet that is not IPv4. The hash function is external.
\<close>

definition overwrite :: "'a list \<Rightarrow> nat \<Rightarrow> 'a list \<Rightarrow> 'a list" where
  "overwrite xs i ys = take i xs @ ys @ drop (i + length ys) xs"

definition write_packet_meta_bytes :: "u8 list \<Rightarrow> nat \<Rightarrow> Meta \<Rightarrow> u8 list option" where
  "write_packet_meta_bytes bytes meta_ptr m =
     (case meta_addr m of
        V4 ipv4 \<Rightarrow>
          if meta_ptr + 12 \<le> length bytes
          then let bytes = overwrite bytes meta_ptr (to_le_bytes 8 (meta_size m))
               in Some (overwrite bytes (meta_ptr + 8) (octets ipv4))
          else None
      | V6 _ \<Rightarrow> None)"

definition packet_hash :: "(u8 list \<Rightarrow> u64) \<Rightarrow> Packet \<Rightarrow> u64 option" where
  "packet_hash hash packet =
     (let preimage = replicate (PACKET_DATA_SIZE + 12) 0;
          packet_data_size = unat (meta_size (packet_meta packet))
      in if packet_data_size \<le> PACKET_DATA_SIZE then do {
           let preimage = overwrite preimage 0 (take packet_data_size (packet_buffer packet));
           preimage \<leftarrow> write_packet_meta_bytes preimage packet_data_size (packet_meta packet);
           Some (hash (take (packet_data_size + 12) preimage))
         } else None)"

definition packet_ok :: "Packet \<Rightarrow> bool" where
  "packet_ok packet \<longleftrightarrow>
     length (packet_buffer packet) = PACKET_DATA_SIZE \<and>
     unat (meta_size (packet_meta packet)) \<le> PACKET_DATA_SIZE"

definition preimage_of :: "Packet \<Rightarrow> Ipv4Addr \<Rightarrow> u8 list" where
  "preimage_of packet ipv4 =
     take (unat (meta_size (packet_meta packet))) (packet_buffer packet) @
     to_le_bytes 8 (meta_size (packet_meta packet)) @ octets ipv4"

lemma overwrite_append:
  "length xs = i \<Longrightarrow> overwrite (xs @ ys) i zs = xs @ zs @ drop (length zs) ys"
  by (simp add: overwrite_def)

lemma packet_hash_eq:
  assumes "packet_ok packet" and "meta_addr (packet_meta packet) = V4 ipv4"
  shows "packet_hash hash packet = Some (hash (preimage_of packet ipv4))"
proof -
  define n d where "n = unat (meta_size (packet_meta packet))" and "d = take n (packet_buffer packet)"
  have n: "n \<le> PACKET_DATA_SIZE" and d: "length d = n"
    using assms(1) by (simp_all add: packet_ok_def n_def d_def)
  let ?z = "\<lambda>m. replicate m (0::u8)" and ?s = "to_le_bytes 8 (meta_size (packet_meta packet))"
  have 1: "overwrite (?z (PACKET_DATA_SIZE + 12)) 0 d = d @ ?z (PACKET_DATA_SIZE + 12 - n)"
    using d by (simp add: overwrite_def)
  have 2: "overwrite (d @ ?z (PACKET_DATA_SIZE + 12 - n)) n ?s =
      (d @ ?s) @ ?z (PACKET_DATA_SIZE + 12 - n - 8)"
    using d by (simp add: overwrite_append)
  have 3: "overwrite ((d @ ?s) @ ?z (PACKET_DATA_SIZE + 12 - n - 8)) (n + 8) (octets ipv4) =
      (d @ ?s @ octets ipv4) @ ?z (PACKET_DATA_SIZE + 12 - n - 8 - 4)"
    using d by (subst overwrite_append) simp_all
  have "take (n + 12) ((d @ ?s @ octets ipv4) @ ?z (PACKET_DATA_SIZE + 12 - n - 8 - 4)) =
      d @ ?s @ octets ipv4" using d by simp
  then show ?thesis
    using n d assms(2) 1 2 3
    by (simp add: packet_hash_def write_packet_meta_bytes_def preimage_of_def Let_def flip: n_def d_def)
qed

lemma preimage_inject:
  assumes "packet_ok p" "packet_ok q" and "preimage_of p a = preimage_of q b"
  shows "a = b \<and> meta_size (packet_meta p) = meta_size (packet_meta q) \<and>
    take (unat (meta_size (packet_meta p))) (packet_buffer p) =
    take (unat (meta_size (packet_meta q))) (packet_buffer q)"
proof -
  from arg_cong [OF assms(3), of length] assms(1,2)
  have "unat (meta_size (packet_meta p)) = unat (meta_size (packet_meta q))"
    by (simp add: preimage_of_def packet_ok_def)
  then have size: "meta_size (packet_meta p) = meta_size (packet_meta q)" by (simp only: word_unat_eq_iff)
  with assms have "octets a = octets b \<and>
      take (unat (meta_size (packet_meta p))) (packet_buffer p) =
      take (unat (meta_size (packet_meta q))) (packet_buffer q)"
    by (simp add: preimage_of_def packet_ok_def)
  then show ?thesis using size by simp
qed

section \<open>Signature keys\<close>

definition xor_group :: "u8 list \<Rightarrow> nat \<Rightarrow> u8" where
  "xor_group sig i = sig ! (8 * i) XOR sig ! (8 * i + 1) XOR sig ! (8 * i + 2) XOR sig ! (8 * i + 3) XOR
     sig ! (8 * i + 4) XOR sig ! (8 * i + 5) XOR sig ! (8 * i + 6) XOR sig ! (8 * i + 7)"

definition u64_key :: "u8 list \<Rightarrow> u64" where
  "u64_key sig = from_le_bytes (map (xor_group sig) [0, 1, 2, 3, 4, 5, 6, 7])"

lemma u64_key_groups: "u64_key s = u64_key t \<longleftrightarrow> (\<forall>i < 8. xor_group s i = xor_group t i)"
proof
  assume "u64_key s = u64_key t"
  then have "map (xor_group s) [0, 1, 2, 3, 4, 5, 6, 7] = map (xor_group t) [0, 1, 2, 3, 4, 5, 6, 7]"
    unfolding u64_key_def by (intro from_le_bytes_inject) simp_all
  then have "\<forall>i \<in> set [0, 1, 2, 3, 4, 5, 6, 7]. xor_group s i = xor_group t i" by (simp only: map_eq_conv)
  then show "\<forall>i < 8. xor_group s i = xor_group t i" by (simp add: numeral_eq_Suc All_less_Suc)
next
  assume "\<forall>i < 8. xor_group s i = xor_group t i"
  then show "u64_key s = u64_key t" by (simp add: u64_key_def)
qed

lemma xor_absorbs_iff: "x XOR (y XOR z) = x \<longleftrightarrow> y = z" for x y z :: u8
  by (auto simp: bit_eq_iff bit_xor_iff)

lemma xor_group_update:
  assumes "8 * i + j < length s" and "j < 8"
  shows "xor_group (s[8 * i + j := b]) i = xor_group s i XOR (s ! (8 * i + j) XOR b)"
proof -
  have other: "s[8 * i + j := b] ! (8 * i + m) = (if m = j then b else s ! (8 * i + m))" for m
    using assms(1) by (simp add: nth_list_update)
  consider "j = 0" | "j = 1" | "j = 2" | "j = 3" | "j = 4" | "j = 5" | "j = 6" | "j = 7"
    using assms(2) by linarith
  then show ?thesis
    unfolding xor_group_def other [of 0, simplified] other
    by cases (simp_all add: xor.assoc xor.left_commute xor.commute)
qed

section \<open>Transaction metadata\<close>

record QoSPartialMeta =
  pm_ip :: u32
  pm_signer :: pubkey
  pm_total_fee :: u64
  pm_cus :: u32

definition partial_meta_new :: "Ipv4Addr \<Rightarrow> pubkey \<Rightarrow> u64 \<Rightarrow> u32 \<Rightarrow> QoSPartialMeta" where
  "partial_meta_new ip signer total_fee cus =
     \<lparr>pm_ip = ip_key ip, pm_signer = signer, pm_total_fee = total_fee, pm_cus = cus\<rparr>"

record 'a QoSRemainingMeta =
  rm_packet_hash :: u64
  rm_execution_nanos :: u64
  rm_additional_metadata :: 'a

definition merge :: "QoSPartialMeta \<Rightarrow> 'a QoSRemainingMeta \<Rightarrow> 'a QoSTransactionMeta" where
  "merge pm rm =
     (let execution_nanos = (if rm_execution_nanos rm = 0 then 100000 else rm_execution_nanos rm)
      in \<lparr>tm_ip = pm_ip pm, tm_signer = pm_signer pm,
          tm_value = f64_div (f64_of_u64 (pm_total_fee pm)) (f64_of_u64 execution_nanos),
          tm_additional_metadata = rm_additional_metadata rm\<rparr>)"

text \<open>
  The wire format of the remaining metadata is its memory image, for additional metadata \<open>A\<close> given by
  its bytes. The struct is aligned to eight bytes, so it ends in padding unless the size of \<open>A\<close> is a
  multiple of eight; the padding bytes hold whatever was in memory (\<open>garbage\<close>). A read beyond the given
  bytes is \<open>None\<close>.
\<close>

definition remaining_size :: "nat \<Rightarrow> nat" where
  "remaining_size n = 16 + n + (8 - n mod 8) mod 8"

definition remaining_as_bytes :: "u8 list \<Rightarrow> u8 list QoSRemainingMeta \<Rightarrow> u8 list" where
  "remaining_as_bytes garbage rm =
     (let data = to_le_bytes 8 (rm_packet_hash rm) @ to_le_bytes 8 (rm_execution_nanos rm) @ rm_additional_metadata rm
      in data @ take (remaining_size (length (rm_additional_metadata rm)) - length data) garbage)"

definition remaining_from_bytes :: "nat \<Rightarrow> u8 list \<Rightarrow> u8 list QoSRemainingMeta option" where
  "remaining_from_bytes n bytes =
     (if length bytes < remaining_size n then None
      else Some \<lparr>rm_packet_hash = from_le_bytes (take 8 bytes),
             rm_execution_nanos = from_le_bytes (take 8 (drop 8 bytes)),
             rm_additional_metadata = take n (drop 16 bytes)\<rparr>)"

record ScoredTransaction =
  st_score :: f64
  st_sig_key :: u64
  st_packet :: Packet
  st_ipv4 :: u32

text \<open>Only the score takes part in the order of scored transactions.\<close>

definition scored_le :: "ScoredTransaction \<Rightarrow> ScoredTransaction \<Rightarrow> bool" where
  "scored_le s t \<longleftrightarrow> st_score s \<le> st_score t"

section \<open>Counters\<close>

record Stats =
  total_packets :: usize
  non_ipv4 :: usize
  non_transaction_packet :: usize
  recently_processed :: usize
  recently_processed_queued :: usize
  recent_signatures_received :: usize
  invalid_meta_size :: usize
  failed_sanitize :: usize
  failed_view :: usize
  invalid_packet_data :: usize
  leaked_priority :: usize
  duplicate_packets :: usize
  banking_transmissions :: usize
  zero_score :: usize
  completed :: usize

definition Stats_new :: Stats where
  "Stats_new =
     \<lparr>total_packets = 0, non_ipv4 = 0, non_transaction_packet = 0, recently_processed = 0,
      recently_processed_queued = 0, recent_signatures_received = 0, invalid_meta_size = 0,
      failed_sanitize = 0, failed_view = 0, invalid_packet_data = 0, leaked_priority = 0,
      duplicate_packets = 0, banking_transmissions = 0, zero_score = 0, completed = 0\<rparr>"

section \<open>Values of completed transactions\<close>

lemma merge_value_in_range: "in_range (2 powi 64) (tm_value (merge pm rm))"
proof -
  have "0 < (if rm_execution_nanos rm = 0 then 100000 else rm_execution_nanos rm)"
    by (simp add: word_neq_0_conv)
  from f64_quotient_in_range [OF this] show ?thesis by (simp only: merge_def Let_def QoSTransactionMeta.simps)
qed

section \<open>Properties\<close>

text \<open>
  C30. The packet hash of a validated IPv4 packet is computed without leaving the buffers, and it
  hashes an unambiguous encoding of payload, size and sender: two packets have the same preimage
  exactly when these three agree (the port and the flags are ignored).
\<close>

theorem packet_hash_identifies:
  assumes "packet_ok p" "packet_ok q"
    and "meta_addr (packet_meta p) = V4 a" "meta_addr (packet_meta q) = V4 b"
  shows "packet_hash hash p = Some (hash (preimage_of p a)) \<and>
    (preimage_of p a = preimage_of q b \<longleftrightarrow>
      a = b \<and> meta_size (packet_meta p) = meta_size (packet_meta q) \<and>
      take (unat (meta_size (packet_meta p))) (packet_buffer p) =
      take (unat (meta_size (packet_meta q))) (packet_buffer q))"
proof -
  have "preimage_of p a = preimage_of q b"
    if "a = b" "meta_size (packet_meta p) = meta_size (packet_meta q)"
      "take (unat (meta_size (packet_meta p))) (packet_buffer p) =
       take (unat (meta_size (packet_meta q))) (packet_buffer q)"
    using that by (simp add: preimage_of_def)
  with packet_hash_eq [OF assms(1,3)] preimage_inject [OF assms(1,2)] show ?thesis by blast
qed

definition demo_packet :: "u8 list \<Rightarrow> Ipv4Addr \<Rightarrow> u16 \<Rightarrow> Packet" where
  "demo_packet payload ip port =
     \<lparr>packet_buffer = payload @ replicate (PACKET_DATA_SIZE - length payload) 0,
      packet_meta = \<lparr>meta_size = of_nat (length payload), meta_addr = V4 ip, meta_port = port, meta_flags = 0\<rparr>\<rparr>"

lemma demo_packet_ok [simp]:
  "length payload \<le> PACKET_DATA_SIZE \<Longrightarrow> packet_ok (demo_packet payload ip port)"
  "meta_addr (packet_meta (demo_packet payload ip port)) = V4 ip"
  by (simp_all add: packet_ok_def demo_packet_def unat_of_nat PACKET_DATA_SIZE_def)

theorem packet_hash_identifies_witness:
  "packet_hash from_le_bytes (demo_packet [1, 2] (Ipv4Addr 10 0 0 1) 80) =
     Some (from_le_bytes (preimage_of (demo_packet [1, 2] (Ipv4Addr 10 0 0 1) 80) (Ipv4Addr 10 0 0 1))) \<and>
   preimage_of (demo_packet [1, 2] (Ipv4Addr 10 0 0 1) 80) (Ipv4Addr 10 0 0 1) \<noteq>
   preimage_of (demo_packet [1, 2] (Ipv4Addr 10 0 0 2) 80) (Ipv4Addr 10 0 0 2)"
proof -
  have ok: "packet_ok (demo_packet [1, 2] ip 80)" for ip
    by (rule demo_packet_ok) (simp add: PACKET_DATA_SIZE_def)
  have "Ipv4Addr 10 0 0 1 \<noteq> Ipv4Addr 10 0 0 2" by simp
  with packet_hash_identifies [OF ok ok demo_packet_ok(2) demo_packet_ok(2)] show ?thesis by blast
qed

text \<open>
  The 64-bit key of a signature changes whenever a single byte of the signature changes, so two
  signatures with equal keys differ in no byte or in at least two.
\<close>

lemma u64_key_detects_single_byte:
  assumes "length sig = 64" and "k < 64" and "b \<noteq> sig ! k"
  shows "u64_key (sig[k := b]) \<noteq> u64_key sig"
proof -
  have k: "k = 8 * (k div 8) + k mod 8" by simp
  have "xor_group (sig[k := b]) (k div 8) = xor_group sig (k div 8) XOR (sig ! k XOR b)"
    using xor_group_update [of "k div 8" "k mod 8" sig b] assms by simp
  then have "xor_group (sig[k := b]) (k div 8) \<noteq> xor_group sig (k div 8)"
    using assms(3) by (simp add: xor_absorbs_iff)
  moreover have "k div 8 < 8" using assms(2) by simp
  ultimately show ?thesis using u64_key_groups by blast
qed

lemma u64_key_detects_single_byte_witness:
  "u64_key ((replicate 64 0)[9 := 3]) \<noteq> u64_key (replicate 64 0)"
  by (rule u64_key_detects_single_byte) simp_all

text \<open>
  Reading back the bytes of a remaining-metadata message returns the message, whatever the padding holds.
  Eight bytes of it suffice, and none is used when the size of the additional metadata is a multiple of eight.\<close>

lemma remaining_meta_roundtrip:
  assumes "8 \<le> length garbage"
  shows "remaining_from_bytes (length (rm_additional_metadata rm)) (remaining_as_bytes garbage rm) = Some rm"
    "length (remaining_as_bytes garbage rm) = remaining_size (length (rm_additional_metadata rm))"
proof -
  let ?n = "length (rm_additional_metadata rm)"
  have "(8 - ?n mod 8) mod 8 \<le> 8" by simp
  then have "remaining_size ?n - (16 + ?n) \<le> length garbage" using assms by (simp add: remaining_size_def)
  then show len: "length (remaining_as_bytes garbage rm) = remaining_size ?n"
    by (simp add: remaining_as_bytes_def remaining_size_def Let_def)
  show "remaining_from_bytes ?n (remaining_as_bytes garbage rm) = Some rm"
    using len by (simp add: remaining_from_bytes_def) (simp add: remaining_as_bytes_def Let_def)
qed

text \<open>
  The value of a completed transaction is finite and non-negative, whatever the two messages
  contain: a missing execution time counts as 100 microseconds, so the divisor is never zero.
\<close>

lemma merge_value_finite:
  "in_range (2 powi 64) (tm_value (merge pm rm)) \<and>
   tm_value (merge pm rm) = f64_div (f64_of_u64 (pm_total_fee pm))
     (f64_of_u64 (if rm_execution_nanos rm = 0 then 100000 else rm_execution_nanos rm))"
  by (intro conjI merge_value_in_range) (simp add: merge_def Let_def)

text \<open>
  The two readings of an address agree only for addresses that are symmetric in their octets;
  the tables are keyed by one (\<open>u32::from_le_bytes\<close>) and the feedback on unparsable packets
  uses the other (\<open>Ipv4Addr::to_bits\<close>).
\<close>

lemma to_bits_is_key_iff_symmetric:
  "ip_to_bits (Ipv4Addr a b c d) = ip_key (Ipv4Addr a b c d) \<longleftrightarrow> a = d \<and> b = c"
  using ip_key_inject [of "Ipv4Addr d c b a" "Ipv4Addr a b c d"] by (auto simp: ip_to_bits_eq_key)

end
