(* ===== verification/LRU_Cache.thy ===== *)
theory LRU_Cache
  imports QoS_Prelude "HOL-Library.AList_Mapping"
begin

text \<open>
  The crate \<open>lru\<close> (lru/src/lib.rs): a fixed-capacity least-recently-used cache. Nodes live in an
  array of optional slots, a hash map sends a key to its slot, a stack of free slots feeds new
  entries, and the \<open>prev\<close>/\<open>next\<close> indices inside the slots form a doubly linked list from the most
  recently used entry (\<open>head\<close>) to the least recently used one (\<open>tail\<close>).

  Every array access of the source is \<open>get_unchecked\<close> followed by \<open>unwrap_unchecked\<close>; the
  operations here return \<open>None\<close> where such an access would be undefined behaviour. The invariant
  \<open>lru_inv\<close> rules that out, and under it each operation is simulated by the obvious
  operation on the list of entries (\<open>entries\<close>), most recently used first.
\<close>

section \<open>The data structure\<close>

record ('k, 'v) Node =
  node_key :: 'k
  node_value :: 'v
  node_prev :: "nat option"
  node_next :: "nat option"

record ('k, 'v) LRUCache =
  nodes :: "('k, 'v) Node option list"
  key_map :: "('k, nat) mapping"
  free_list :: "nat list"
  head_ix :: "nat option"
  tail_ix :: "nat option"

text \<open>
  \<open>new\<close> pushes \<open>N-1, \<dots>, 0\<close> on the free stack, so that slot 0 is popped first. \<open>new_boxed\<close>
  initialises the fields of a zeroed allocation one by one; slot by slot it writes \<open>None\<close>.
\<close>

definition lru_new :: "nat \<Rightarrow> ('k, 'v) LRUCache" where
  "lru_new N =
     \<lparr>nodes = map (\<lambda>_. None) [0..<N],
      key_map = Mapping.empty,
      free_list = fold (\<lambda>i fl. vec_push fl i) (rev [0..<N]) [],
      head_ix = None,
      tail_ix = None\<rparr>"

definition lru_new_boxed :: "nat \<Rightarrow> ('k, 'v) LRUCache \<Rightarrow> ('k, 'v) LRUCache" where
  "lru_new_boxed N raw =
     (let c1 = fold (\<lambda>i c. c\<lparr>nodes := (nodes c)[i := None]\<rparr>) [0..<N] raw;
          c2 = c1\<lparr>free_list := []\<rparr>;
          c3 = fold (\<lambda>i c. c\<lparr>free_list := vec_push (free_list c) i\<rparr>) (rev [0..<N]) c2;
          c4 = c3\<lparr>key_map := Mapping.empty\<rparr>;
          c5 = c4\<lparr>head_ix := None\<rparr>
      in c5\<lparr>tail_ix := None\<rparr>)"

text \<open>\<open>nodes.get_unchecked(i).as_ref().unwrap_unchecked()\<close>, and the same for writing.\<close>

definition node_at :: "('k, 'v) LRUCache \<Rightarrow> nat \<Rightarrow> ('k, 'v) Node option" where
  "node_at c i = do { slot \<leftarrow> get_unchecked (nodes c) i; slot }"

definition update_node ::
  "(('k, 'v) Node \<Rightarrow> ('k, 'v) Node) \<Rightarrow> nat \<Rightarrow> ('k, 'v) LRUCache \<Rightarrow> ('k, 'v) LRUCache option" where
  "update_node f i c =
     do { n \<leftarrow> node_at c i; Some (c\<lparr>nodes := (nodes c)[i := Some (f n)]\<rparr>) }"

definition put_slot ::
  "('k, 'v) Node option \<Rightarrow> nat \<Rightarrow> ('k, 'v) LRUCache \<Rightarrow> ('k, 'v) LRUCache option" where
  "put_slot s i c =
     do { old \<leftarrow> get_unchecked (nodes c) i; Some (c\<lparr>nodes := (nodes c)[i := s]\<rparr>) }"

text \<open>\<open>if let Some(i) = oi { \<dots>.next = x }\<close> and \<open>if let Some(i) = oi { \<dots>.prev = x }\<close>.\<close>

definition set_next ::
  "nat option \<Rightarrow> nat option \<Rightarrow> ('k, 'v) LRUCache \<Rightarrow> ('k, 'v) LRUCache option" where
  "set_next oi x c =
     (case oi of None \<Rightarrow> Some c | Some i \<Rightarrow> update_node (\<lambda>n. n\<lparr>node_next := x\<rparr>) i c)"

definition set_prev ::
  "nat option \<Rightarrow> nat option \<Rightarrow> ('k, 'v) LRUCache \<Rightarrow> ('k, 'v) LRUCache option" where
  "set_prev oi x c =
     (case oi of None \<Rightarrow> Some c | Some i \<Rightarrow> update_node (\<lambda>n. n\<lparr>node_prev := x\<rparr>) i c)"

section \<open>The operations\<close>

definition move_to_front :: "nat \<Rightarrow> ('k, 'v) LRUCache \<Rightarrow> ('k, 'v) LRUCache option" where
  "move_to_front index c =
     (if Some index = head_ix c then Some c
      else do {
        n \<leftarrow> node_at c index;
        let prev_index = node_prev n;
        let next_index = node_next n;
        c \<leftarrow> set_next prev_index next_index c;
        c \<leftarrow> (case next_index of
               Some _ \<Rightarrow> set_prev next_index prev_index c
             | None \<Rightarrow> Some (c\<lparr>tail_ix := prev_index\<rparr>));
        c \<leftarrow> set_prev (Some index) None c;
        c \<leftarrow> set_next (Some index) (head_ix c) c;
        c \<leftarrow> set_prev (head_ix c) (Some index) c;
        Some (c\<lparr>head_ix := Some index\<rparr>)
      })"

definition lru_get ::
  "'k \<Rightarrow> ('k, 'v) LRUCache \<Rightarrow> ('v option \<times> ('k, 'v) LRUCache) option" where
  "lru_get k c =
     (case Mapping.lookup (key_map c) k of
        Some index \<Rightarrow> do {
          c \<leftarrow> move_to_front index c;
          slot \<leftarrow> get_unchecked (nodes c) index;
          Some (map_option node_value slot, c)
        }
      | None \<Rightarrow> Some (None, c))"

definition lru_contains :: "('k, 'v) LRUCache \<Rightarrow> 'k \<Rightarrow> bool" where
  "lru_contains c k = (Mapping.lookup (key_map c) k \<noteq> None)"

definition lru_pop ::
  "'k \<Rightarrow> ('k, 'v) LRUCache \<Rightarrow> (('k \<times> 'v) option \<times> ('k, 'v) LRUCache) option" where
  "lru_pop k c =
     (case Mapping.lookup (key_map c) k of
        Some index \<Rightarrow> do {
          let c = c\<lparr>key_map := Mapping.delete k (key_map c)\<rparr>;
          n \<leftarrow> node_at c index;
          c \<leftarrow> put_slot None index c;
          c \<leftarrow> (case node_prev n of
                 Some _ \<Rightarrow> set_next (node_prev n) (node_next n) c
               | None \<Rightarrow> Some (c\<lparr>head_ix := node_next n\<rparr>));
          c \<leftarrow> (case node_next n of
                 Some _ \<Rightarrow> set_prev (node_next n) (node_prev n) c
               | None \<Rightarrow> Some (c\<lparr>tail_ix := node_prev n\<rparr>));
          let c = c\<lparr>free_list := vec_push (free_list c) index\<rparr>;
          Some (Some (node_key n, node_value n), c)
        }
      | None \<Rightarrow> Some (None, c))"

definition evict ::
  "('k, 'v) LRUCache \<Rightarrow> (('k \<times> 'v) option \<times> ('k, 'v) LRUCache) option" where
  "evict c =
     (case tail_ix c of
        Some tail_index \<Rightarrow> do {
          tail_node \<leftarrow> node_at c tail_index;
          c \<leftarrow> put_slot None tail_index c;
          let c = c\<lparr>key_map := Mapping.delete (node_key tail_node) (key_map c)\<rparr>;
          let c = c\<lparr>tail_ix := node_prev tail_node\<rparr>;
          c \<leftarrow> (case tail_ix c of
                 Some _ \<Rightarrow> set_next (tail_ix c) None c
               | None \<Rightarrow> Some (c\<lparr>head_ix := None\<rparr>));
          let c = c\<lparr>free_list := vec_push (free_list c) tail_index\<rparr>;
          Some (Some (node_key tail_node, node_value tail_node), c)
        }
      | None \<Rightarrow> Some (None, c))"

text \<open>
  The two non-duplicate branches of \<open>put\<close> contain the same insertion sequence, once after
  \<open>evict\<close> and once without; it is \<open>insert_front\<close> here.
\<close>

definition insert_front :: "'k \<Rightarrow> 'v \<Rightarrow> ('k, 'v) LRUCache \<Rightarrow> ('k, 'v) LRUCache option" where
  "insert_front k v c =
     do {
       (index, fl) \<leftarrow> vec_pop (free_list c);
       let c = c\<lparr>free_list := fl\<rparr>;
       c \<leftarrow> put_slot (Some \<lparr>node_key = k, node_value = v, node_prev = None,
                            node_next = head_ix c\<rparr>) index c;
       c \<leftarrow> set_prev (head_ix c) (Some index) c;
       let c = c\<lparr>head_ix := Some index\<rparr>;
       let c = (if tail_ix c = None then c\<lparr>tail_ix := Some index\<rparr> else c);
       Some (c\<lparr>key_map := Mapping.update k index (key_map c)\<rparr>)
     }"

definition lru_put ::
  "nat \<Rightarrow> 'k \<Rightarrow> 'v \<Rightarrow> ('k, 'v) LRUCache
     \<Rightarrow> ((('k \<times> 'v) option \<times> bool) \<times> ('k, 'v) LRUCache) option" where
  "lru_put N k v c =
     (case Mapping.lookup (key_map c) k of
        Some index \<Rightarrow> do {
          c \<leftarrow> update_node (\<lambda>n. n\<lparr>node_value := v\<rparr>) index c;
          c \<leftarrow> move_to_front index c;
          Some ((None, True), c)
        }
      | None \<Rightarrow>
          if Mapping.size (key_map c) = N then do {
            (evicted, c) \<leftarrow> evict c;
            c \<leftarrow> insert_front k v c;
            Some ((evicted, False), c)
          } else do {
            c \<leftarrow> insert_front k v c;
            Some ((None, False), c)
          })"

section \<open>Links and data of the node array\<close>

text \<open>
  The node array is read through two partial functions on slots: the links of an occupied slot
  and its key/value pair. \<open>seg L p xs q\<close> says that the slots \<open>xs\<close> form a doubly linked segment whose
  predecessor is \<open>p\<close> and whose successor is \<open>q\<close>.
\<close>

definition slot_links :: "('k, 'v) Node option list \<Rightarrow> nat \<rightharpoonup> nat option \<times> nat option" where
  "slot_links ns i =
     (if i < length ns then map_option (\<lambda>n. (node_prev n, node_next n)) (ns ! i) else None)"

definition slot_data :: "('k, 'v) Node option list \<Rightarrow> nat \<rightharpoonup> 'k \<times> 'v" where
  "slot_data ns i =
     (if i < length ns then map_option (\<lambda>n. (node_key n, node_value n)) (ns ! i) else None)"

fun seg :: "(nat \<rightharpoonup> nat option \<times> nat option) \<Rightarrow> nat option \<Rightarrow> nat list \<Rightarrow> nat option \<Rightarrow> bool" where
  "seg L p [] q \<longleftrightarrow> True"
| "seg L p (i # is) q \<longleftrightarrow> L i = Some (p, first_or is q) \<and> seg L (Some i) is q"

definition link_next ::
  "nat option \<Rightarrow> nat option \<Rightarrow> (nat \<rightharpoonup> nat option \<times> nat option) \<Rightarrow> (nat \<rightharpoonup> nat option \<times> nat option)" where
  "link_next oi x L =
     (case oi of None \<Rightarrow> L | Some i \<Rightarrow> L(i := map_option (\<lambda>(p, _). (p, x)) (L i)))"

definition link_prev ::
  "nat option \<Rightarrow> nat option \<Rightarrow> (nat \<rightharpoonup> nat option \<times> nat option) \<Rightarrow> (nat \<rightharpoonup> nat option \<times> nat option)" where
  "link_prev oi x L =
     (case oi of None \<Rightarrow> L | Some i \<Rightarrow> L(i := map_option (\<lambda>(_, q). (x, q)) (L i)))"

lemma link_simps [simp]:
  "link_next None x L = L" "link_prev None x L = L"
  "link_next (Some i) x L = L(i := map_option (\<lambda>(p, _). (p, x)) (L i))"
  "link_prev (Some i) x L = L(i := map_option (\<lambda>(_, q). (x, q)) (L i))"
  by (simp_all add: link_next_def link_prev_def)

lemma dom_link [simp]: "dom (link_next oi x L) = dom L" "dom (link_prev oi x L) = dom L"
  by (auto simp: link_next_def link_prev_def split: option.splits)

lemma seg_upd [links]: "i \<notin> set xs \<Longrightarrow> seg (L(i := y)) p xs q = seg L p xs q"
  by (induction xs arbitrary: p) auto

lemma seg_append [links]:
  "seg L p (xs @ ys) q \<longleftrightarrow> seg L p xs (first_or ys q) \<and> seg L (last_or p xs) ys q"
  by (induction xs arbitrary: p) auto

lemma seg_dom: "seg L p xs q \<Longrightarrow> set xs \<subseteq> dom L"
  by (induction xs arbitrary: p) auto

lemma seg_link_next:
  assumes "seg L p (as @ [a]) q" and "a \<notin> set as"
  shows "seg (link_next (Some a) q' L) p (as @ [a]) q'"
  using assms by (auto simp: links)

lemma seg_link_prev:
  assumes "seg L p (b # bs) q" and "b \<notin> set bs"
  shows "seg (link_prev (Some b) p' L) p' (b # bs) q"
  using assms by (auto simp: links)

text \<open>Unlinking slot \<open>i\<close> from its neighbours leaves a well-linked list without it.\<close>

lemma seg_unlink:
  assumes as: "seg L None as (Some i)" and bs: "seg L (Some i) bs None"
    and dist: "distinct (as @ bs)"
  shows "seg (link_prev (first_or bs None) (last_or None as)
               (link_next (last_or None as) (first_or bs None) L)) None (as @ bs) None"
proof -
  let ?L1 = "link_next (last_or None as) (first_or bs None) L"
  let ?L2 = "link_prev (first_or bs None) (last_or None as) ?L1"
  have as1: "seg ?L1 None as (first_or bs None)"
  proof (cases as rule: rev_cases)
    case (snoc as' a)
    with as dist show ?thesis by (auto simp: links)
  qed simp
  have bs1: "seg ?L1 (Some i) bs None"
    using bs dist by (cases as rule: rev_cases) (auto simp: links)
  have "seg ?L2 None as (first_or bs None)"
    using as1 dist by (cases bs) (auto simp: links)
  moreover have "seg ?L2 (last_or None as) bs None"
  proof (cases bs)
    case (Cons b bs')
    with seg_link_prev [of ?L1 "Some i" b bs' None "last_or None as"] bs1 dist
    show ?thesis by simp
  qed simp
  ultimately show ?thesis by (simp add: seg_append)
qed

text \<open>Linking a fresh slot in front of the list.\<close>

lemma seg_push_front:
  assumes "seg L None xs None" and "distinct (i # xs)"
  shows "seg (link_prev (first_or xs None) (Some i) (L(i \<mapsto> (None, first_or xs None))))
           None (i # xs) None"
proof (cases xs)
  case (Cons x xs')
  with assms have "seg (L(i \<mapsto> (None, Some x))) None (x # xs') None"
    by (simp add: links)
  from seg_link_prev [OF this, of "Some i"] Cons assms(2)
  show ?thesis by auto
qed simp

section \<open>Effect of the node updates\<close>

lemma slot_links_upd [simp]:
  "slot_links (ns[i := s]) =
     (if i < length ns
      then (slot_links ns)(i := map_option (\<lambda>n. (node_prev n, node_next n)) s) else slot_links ns)"
  by (auto simp: slot_links_def fun_eq_iff nth_list_update list_update_beyond)

lemma slot_data_upd [simp]:
  "slot_data (ns[i := s]) =
     (if i < length ns
      then (slot_data ns)(i := map_option (\<lambda>n. (node_key n, node_value n)) s) else slot_data ns)"
  by (auto simp: slot_data_def fun_eq_iff nth_list_update list_update_beyond)

lemma dom_slot_data: "dom (slot_data ns) = dom (slot_links ns)"
  by (auto simp: slot_data_def slot_links_def split: if_splits)

lemma slot_links_bound: "slot_links ns i = Some l \<Longrightarrow> i < length ns"
  by (simp add: slot_links_def split: if_splits)

lemma node_at_Some:
  "slot_links (nodes c) i = Some (p, q) \<Longrightarrow> slot_data (nodes c) i = Some (k, v) \<Longrightarrow>
   node_at c i = Some \<lparr>node_key = k, node_value = v, node_prev = p, node_next = q\<rparr>"
  by (auto simp: node_at_def slot_links_def slot_data_def get_unchecked_def split: if_splits)

lemma set_next_effect:
  assumes "\<And>i. oi = Some i \<Longrightarrow> i \<in> dom (slot_links ns)"
  obtains ns' where "\<And>c. nodes c = ns \<Longrightarrow> set_next oi x c = Some (c\<lparr>nodes := ns'\<rparr>)"
    "length ns' = length ns" "slot_data ns' = slot_data ns"
    "slot_links ns' = link_next oi x (slot_links ns)"
proof (cases oi)
  case None
  show ?thesis by (rule that [of ns]) (auto simp: None set_next_def)
next
  case (Some i)
  then have "i \<in> dom (slot_links ns)" by (rule assms)
  then obtain n where n: "ns ! i = Some n" "i < length ns"
    by (auto simp: slot_links_def split: if_splits)
  show ?thesis
    by (rule that [of "ns[i := Some (n\<lparr>node_next := x\<rparr>)]"])
      (use n Some in \<open>auto simp: set_next_def update_node_def node_at_def get_unchecked_def
          fun_eq_iff slot_links_def slot_data_def\<close>)
qed

lemma set_prev_effect:
  assumes "\<And>i. oi = Some i \<Longrightarrow> i \<in> dom (slot_links ns)"
  obtains ns' where "\<And>c. nodes c = ns \<Longrightarrow> set_prev oi x c = Some (c\<lparr>nodes := ns'\<rparr>)"
    "length ns' = length ns" "slot_data ns' = slot_data ns"
    "slot_links ns' = link_prev oi x (slot_links ns)"
proof (cases oi)
  case None
  show ?thesis by (rule that [of ns]) (auto simp: None set_prev_def)
next
  case (Some i)
  then have "i \<in> dom (slot_links ns)" by (rule assms)
  then obtain n where n: "ns ! i = Some n" "i < length ns"
    by (auto simp: slot_links_def split: if_splits)
  show ?thesis
    by (rule that [of "ns[i := Some (n\<lparr>node_prev := x\<rparr>)]"])
      (use n Some in \<open>auto simp: set_prev_def update_node_def node_at_def get_unchecked_def
          fun_eq_iff slot_links_def slot_data_def\<close>)
qed

text \<open>The two writes that take a slot out of the list, and the write that puts one in front.\<close>

lemma unlink_effect:
  assumes "seg (slot_links ns) None as (Some i)" "seg (slot_links ns) (Some i) bs None"
    and dist: "distinct (as @ bs)"
  obtains ns1 ns2 where
    "\<And>c. nodes c = ns \<Longrightarrow>
       set_next (last_or None as) (first_or bs None) c = Some (c\<lparr>nodes := ns1\<rparr>)"
    "\<And>c. nodes c = ns1 \<Longrightarrow>
       set_prev (first_or bs None) (last_or None as) c = Some (c\<lparr>nodes := ns2\<rparr>)"
    "length ns2 = length ns" "slot_data ns2 = slot_data ns"
    "dom (slot_links ns2) = dom (slot_links ns)"
    "seg (slot_links ns2) None (as @ bs) None"
proof -
  note dom = seg_dom [OF assms(1)] seg_dom [OF assms(2)]
  obtain ns1 where ns1: "\<And>c. nodes c = ns \<Longrightarrow>
       set_next (last_or None as) (first_or bs None) c = Some (c\<lparr>nodes := ns1\<rparr>)"
    "length ns1 = length ns" "slot_data ns1 = slot_data ns"
    "slot_links ns1 = link_next (last_or None as) (first_or bs None) (slot_links ns)"
    by (rule set_next_effect [where x = "first_or bs None", OF last_or_in [OF _ dom(1)]]) blast+
  have dom1: "set bs \<subseteq> dom (slot_links ns1)" using dom(2) by (simp add: ns1(4))
  obtain ns2 where ns2: "\<And>c. nodes c = ns1 \<Longrightarrow>
       set_prev (first_or bs None) (last_or None as) c = Some (c\<lparr>nodes := ns2\<rparr>)"
    "length ns2 = length ns1" "slot_data ns2 = slot_data ns1"
    "slot_links ns2 = link_prev (first_or bs None) (last_or None as) (slot_links ns1)"
    by (rule set_prev_effect [where x = "last_or None as", OF first_or_in [OF _ dom1]]) blast+
  from seg_unlink [OF assms] show ?thesis
    by (intro that [of ns1 ns2] ns1(1) ns2(1)) (simp_all add: ns1(2-) ns2(2-))
qed

lemma relink_effect:
  assumes "i \<in> dom (slot_links ns)"
  obtains ns1 ns2 where
    "\<And>c. nodes c = ns \<Longrightarrow> set_prev (Some i) p c = Some (c\<lparr>nodes := ns1\<rparr>)"
    "\<And>c. nodes c = ns1 \<Longrightarrow> set_next (Some i) q c = Some (c\<lparr>nodes := ns2\<rparr>)"
    "length ns2 = length ns" "slot_data ns2 = slot_data ns"
    "slot_links ns2 = (slot_links ns)(i \<mapsto> (p, q))"
proof -
  obtain ns1 where ns1: "\<And>c. nodes c = ns \<Longrightarrow> set_prev (Some i) p c = Some (c\<lparr>nodes := ns1\<rparr>)"
    "length ns1 = length ns" "slot_data ns1 = slot_data ns"
    "slot_links ns1 = link_prev (Some i) p (slot_links ns)"
    by (rule set_prev_effect [of "Some i" ns]) (use assms in auto)
  have "i \<in> dom (slot_links ns1)" using assms by (simp add: ns1(4) del: link_simps)
  then obtain ns2 where ns2: "\<And>c. nodes c = ns1 \<Longrightarrow> set_next (Some i) q c = Some (c\<lparr>nodes := ns2\<rparr>)"
    "length ns2 = length ns1" "slot_data ns2 = slot_data ns1"
    "slot_links ns2 = link_next (Some i) q (slot_links ns1)"
    by (rule_tac set_next_effect [of "Some i" ns1]) auto
  have "slot_links ns2 = (slot_links ns)(i \<mapsto> (p, q))"
    using assms by (auto simp: ns2(4) ns1(4))
  then show ?thesis by (intro that [of ns1 ns2] ns1(1) ns2(1)) (simp_all add: ns1(2,3) ns2(2,3))
qed

lemma push_front_effect:
  assumes "seg (slot_links ns) None xs None" "distinct (i # xs)"
    and li: "slot_links ns i = Some (None, first_or xs None)"
  obtains ns' where
    "\<And>c. nodes c = ns \<Longrightarrow> set_prev (first_or xs None) (Some i) c = Some (c\<lparr>nodes := ns'\<rparr>)"
    "length ns' = length ns" "slot_data ns' = slot_data ns"
    "dom (slot_links ns') = dom (slot_links ns)"
    "seg (slot_links ns') None (i # xs) None"
proof -
  obtain ns' where ns': "\<And>c. nodes c = ns \<Longrightarrow>
       set_prev (first_or xs None) (Some i) c = Some (c\<lparr>nodes := ns'\<rparr>)"
    "length ns' = length ns" "slot_data ns' = slot_data ns"
    "slot_links ns' = link_prev (first_or xs None) (Some i) (slot_links ns)"
    by (rule set_prev_effect [where x = "Some i", OF first_or_in [OF _ seg_dom [OF assms(1)]]]) blast+
  have "(slot_links ns)(i \<mapsto> (None, first_or xs None)) = slot_links ns"
    using li by (simp add: fun_upd_idem)
  with seg_push_front [OF assms(1,2)] have "seg (slot_links ns') None (i # xs) None"
    by (simp add: ns'(4))
  then show ?thesis by (intro that [of ns'] ns'(1)) (simp_all add: ns'(2-))
qed

lemma put_slot_Some [simp]:
  "i < length (nodes c) \<Longrightarrow> put_slot s i c = Some (c\<lparr>nodes := (nodes c)[i := s]\<rparr>)"
  by (simp add: put_slot_def get_unchecked_def)

section \<open>The invariant and the abstraction\<close>

definition keys_ok :: "('k, nat) mapping \<Rightarrow> (nat \<rightharpoonup> 'k \<times> 'v) \<Rightarrow> bool" where
  "keys_ok m D \<longleftrightarrow> (\<forall>k i. Mapping.lookup m k = Some i \<longleftrightarrow> (\<exists>v. D i = Some (k, v)))"

definition lru_rel :: "nat \<Rightarrow> ('k, 'v) LRUCache \<Rightarrow> nat list \<Rightarrow> bool" where
  "lru_rel N c xs \<longleftrightarrow>
     length (nodes c) = N \<and> distinct xs \<and> dom (slot_links (nodes c)) = set xs \<and>
     seg (slot_links (nodes c)) None xs None \<and>
     head_ix c = first_or xs None \<and> tail_ix c = last_or None xs \<and>
     distinct (free_list c) \<and> set (free_list c) = {0..<N} - set xs \<and>
     keys_ok (key_map c) (slot_data (nodes c))"

definition lru_inv :: "nat \<Rightarrow> ('k, 'v) LRUCache \<Rightarrow> bool" where
  "lru_inv N c \<longleftrightarrow> 0 < N \<and> (\<exists>xs. lru_rel N c xs)"

text \<open>
  The abstraction walks the list from the head. Its fuel is the number of slots, which bounds the
  number of linked nodes.
\<close>

fun walk :: "nat \<Rightarrow> ('k, 'v) Node option list \<Rightarrow> nat option \<Rightarrow> ('k \<times> 'v) list" where
  "walk (Suc fuel) ns (Some i) =
     (case get_unchecked ns i of
        Some (Some n) \<Rightarrow> (node_key n, node_value n) # walk fuel ns (node_next n)
      | _ \<Rightarrow> [])"
| "walk _ _ _ = []"

definition entries :: "('k, 'v) LRUCache \<Rightarrow> ('k \<times> 'v) list" where
  "entries c = walk (length (nodes c)) (nodes c) (head_ix c)"

lemma walk_seg:
  "seg (slot_links ns) p xs None \<Longrightarrow> length xs \<le> fuel \<Longrightarrow>
   walk fuel ns (first_or xs None) = map (\<lambda>i. the (slot_data ns i)) xs"
proof (induction xs arbitrary: p fuel)
  case Nil
  then show ?case by (cases fuel) auto
next
  case (Cons x xs)
  then obtain fuel' where fuel: "fuel = Suc fuel'" by (cases fuel) auto
  from Cons.prems obtain n where n: "x < length ns" "ns ! x = Some n"
    "node_next n = first_or xs None"
    by (auto simp: slot_links_def split: if_splits)
  from Cons.prems fuel have "walk fuel' ns (first_or xs None) = map (\<lambda>i. the (slot_data ns i)) xs"
    by (intro Cons.IH [of "Some x"]) auto
  with n fuel show ?case by (simp add: get_unchecked_def slot_data_def)
qed

lemma lru_rel_length:
  assumes "lru_rel N c xs"
  shows "length xs \<le> N"
proof -
  from assms have "set xs = dom (slot_links (nodes c))" and "length (nodes c) = N"
    by (simp_all add: lru_rel_def)
  then have "set xs \<subseteq> {0..<N}" by (auto dest: slot_links_bound)
  from card_mono [OF _ this] assms show ?thesis
    by (simp add: lru_rel_def distinct_card)
qed

lemma entries_rel:
  "lru_rel N c xs \<Longrightarrow> entries c = map (\<lambda>i. the (slot_data (nodes c) i)) xs"
  using lru_rel_length [of N c xs] walk_seg [of "nodes c" None xs N]
  by (simp add: lru_rel_def entries_def)

lemma slot_data_in_rel:
  assumes "lru_rel N c xs"
  shows "i \<in> set xs \<longleftrightarrow> (\<exists>e. slot_data (nodes c) i = Some e)"
proof -
  from assms have "set xs = dom (slot_data (nodes c))"
    by (simp add: lru_rel_def dom_slot_data)
  then show ?thesis by (simp add: domIff)
qed

lemma lookup_rel:
  "lru_rel N c xs \<Longrightarrow>
   Mapping.lookup (key_map c) k = Some i \<longleftrightarrow> (\<exists>v. slot_data (nodes c) i = Some (k, v))"
  by (simp add: lru_rel_def keys_ok_def)

lemma lookup_rel_split:
  assumes "lru_rel N c xs" and "Mapping.lookup (key_map c) k = Some i"
  obtains as bs v where "xs = as @ i # bs" "slot_data (nodes c) i = Some (k, v)"
    "slot_links (nodes c) i = Some (last_or None as, first_or bs None)" "i < N"
proof -
  from assms obtain v where v: "slot_data (nodes c) i = Some (k, v)"
    by (auto simp: lookup_rel)
  with assms(1) have "i \<in> set xs" by (auto simp: slot_data_in_rel)
  then obtain as bs where xs: "xs = as @ i # bs" by (auto simp: in_set_conv_decomp)
  with assms(1) have l: "slot_links (nodes c) i = Some (last_or None as, first_or bs None)"
    by (auto simp: lru_rel_def seg_append)
  have "i < N" using slot_links_bound [OF l] assms(1) by (simp add: lru_rel_def)
  with that xs v l show ?thesis by blast
qed

lemma keys_distinct_rel:
  assumes "lru_rel N c xs"
  shows "distinct (map fst (entries c))"
proof -
  have "inj_on (\<lambda>i. fst (the (slot_data (nodes c) i))) (set xs)"
  proof (rule inj_onI)
    fix i j
    assume ij: "i \<in> set xs" "j \<in> set xs"
      and eq: "fst (the (slot_data (nodes c) i)) = fst (the (slot_data (nodes c) j))"
    from ij assms obtain k v k' w where
      "slot_data (nodes c) i = Some (k, v)" "slot_data (nodes c) j = Some (k', w)"
      by (auto simp: slot_data_in_rel)
    moreover from this eq have "k = k'" by simp
    ultimately have "Mapping.lookup (key_map c) k = Some i" "Mapping.lookup (key_map c) k = Some j"
      using lookup_rel [OF assms, of k] by auto
    then show "i = j" by simp
  qed
  with assms show ?thesis
    by (simp add: entries_rel distinct_map o_def) (simp add: lru_rel_def)
qed

lemma lookup_None_rel:
  assumes "lru_rel N c xs"
  shows "Mapping.lookup (key_map c) k = None \<longleftrightarrow> k \<notin> fst ` set (entries c)"
proof -
  have "k \<in> fst ` set (entries c) \<longleftrightarrow> (\<exists>i v. slot_data (nodes c) i = Some (k, v))"
  proof
    assume "k \<in> fst ` set (entries c)"
    then obtain i where "i \<in> set xs" "fst (the (slot_data (nodes c) i)) = k"
      using assms by (auto simp: entries_rel)
    moreover from this assms obtain e where "slot_data (nodes c) i = Some e"
      by (auto simp: slot_data_in_rel)
    ultimately show "\<exists>i v. slot_data (nodes c) i = Some (k, v)"
      by (metis option.sel prod.collapse)
  next
    assume "\<exists>i v. slot_data (nodes c) i = Some (k, v)"
    then obtain i v where i: "slot_data (nodes c) i = Some (k, v)" by blast
    with assms have "i \<in> set xs" by (auto simp: slot_data_in_rel)
    with i assms show "k \<in> fst ` set (entries c)"
      by (force simp: entries_rel)
  qed
  with lookup_rel [OF assms, of k] show ?thesis
    by (metis not_None_eq)
qed

lemma map_of_entries:
  assumes "lru_rel N c xs" and "slot_data (nodes c) i = Some (k, v)"
  shows "map_of (entries c) k = Some v"
proof -
  from assms have "i \<in> set xs" by (auto simp: slot_data_in_rel)
  with assms have "(k, v) \<in> set (entries c)"
    by (force simp: entries_rel)
  with keys_distinct_rel [OF assms(1)] show ?thesis by simp
qed

lemma size_rel:
  assumes "lru_rel N c xs"
  shows "Mapping.size (key_map c) = length xs"
proof -
  have "Mapping.keys (key_map c) = fst ` set (entries c)"
    using lookup_None_rel [OF assms] by (simp add: keys_dom_lookup dom_def)
  moreover have "card (fst ` set (entries c)) = length (entries c)"
    using keys_distinct_rel [OF assms] distinct_card [of "map fst (entries c)"] by simp
  ultimately show ?thesis
    using assms by (simp add: Mapping.size_def entries_rel)
qed

section \<open>Specification on the list of entries\<close>

text \<open>What each operation promises, on the list of entries, most recently used first.\<close>

definition spec_get :: "'k \<Rightarrow> ('k \<times> 'v) list \<Rightarrow> 'v option \<times> ('k \<times> 'v) list" where
  "spec_get k es =
     (case map_of es k of None \<Rightarrow> (None, es) | Some v \<Rightarrow> (Some v, (k, v) # del_key k es))"

definition spec_pop :: "'k \<Rightarrow> ('k \<times> 'v) list \<Rightarrow> ('k \<times> 'v) option \<times> ('k \<times> 'v) list" where
  "spec_pop k es = (map_option (Pair k) (map_of es k), del_key k es)"

definition spec_put ::
  "nat \<Rightarrow> 'k \<Rightarrow> 'v \<Rightarrow> ('k \<times> 'v) list \<Rightarrow> (('k \<times> 'v) option \<times> bool) \<times> ('k \<times> 'v) list" where
  "spec_put N k v es =
     (if k \<in> fst ` set es then ((None, True), (k, v) # del_key k es)
      else if length es = N then ((Some (last es), False), (k, v) # butlast es)
      else ((None, False), (k, v) # es))"

section \<open>Construction\<close>

lemma fold_vec_push: "fold (\<lambda>i fl. vec_push fl i) is fl = fl @ is"
  by (induction "is" arbitrary: fl) (auto simp: vec_push_def)

lemma lru_new_rel: "lru_rel N (lru_new N) []"
  by (auto simp: lru_rel_def lru_new_def keys_ok_def fold_vec_push slot_links_def slot_data_def
      split: if_splits)

lemma fold_clear_nodes:
  "n \<le> length (nodes c) \<Longrightarrow>
   fold (\<lambda>i c. c\<lparr>nodes := (nodes c)[i := None]\<rparr>) [0..<n] c =
   c\<lparr>nodes := replicate n None @ drop n (nodes c)\<rparr>"
proof (induction n)
  case (Suc n)
  then have "drop n (nodes c) = nodes c ! n # drop (Suc n) (nodes c)"
    by (simp add: Cons_nth_drop_Suc)
  with Suc show ?case
    by (simp add: list_update_append replicate_app_Cons_same)
qed simp

lemma fold_push_free:
  "fold (\<lambda>i c. c\<lparr>free_list := vec_push (free_list c) i\<rparr>) is c =
   c\<lparr>free_list := free_list c @ is\<rparr>"
  by (induction "is" arbitrary: c) (auto simp: vec_push_def)

lemma new_boxed_eq_new: "length (nodes raw) = N \<Longrightarrow> lru_new_boxed N raw = lru_new N"
  by (simp add: lru_new_boxed_def lru_new_def fold_clear_nodes fold_push_free fold_vec_push
      map_replicate_const)

section \<open>Simulation of the operations\<close>

lemma map_data_upd: "i \<notin> set xs \<Longrightarrow> map (\<lambda>j. the ((D(i := y)) j)) xs = map (\<lambda>j. the (D j)) xs"
  by auto

lemma slot_data_value:
  "slot_data ns i = Some (k, v) \<Longrightarrow>
   do { slot \<leftarrow> get_unchecked ns i; Some (map_option node_value slot, c) } = Some (Some v, c)"
  by (auto simp: slot_data_def get_unchecked_def split: if_splits)

lemma entries_without:
  assumes "lru_rel N c (as @ i # bs)" and "slot_data (nodes c) i = Some (k, v)"
  shows "map (\<lambda>j. the (slot_data (nodes c) j)) (as @ bs) = del_key k (entries c)"
proof -
  let ?d = "\<lambda>j. the (slot_data (nodes c) j)"
  from assms(1) have e: "entries c = map ?d as @ (k, v) # map ?d bs"
    by (simp add: entries_rel assms(2))
  from keys_distinct_rel [OF assms(1)] have "k \<notin> fst ` set (map ?d as)" "k \<notin> fst ` set (map ?d bs)"
    by (auto simp: e image_iff)
  then show ?thesis by (simp add: e del_key_notin)
qed

lemma move_to_front_rel:
  assumes rel: "lru_rel N c (as @ i # bs)"
  obtains c' where "move_to_front i c = Some c'" "lru_rel N c' (i # as @ bs)"
    "slot_data (nodes c') = slot_data (nodes c)" "key_map c' = key_map c"
proof (cases "as = []")
  case True
  show ?thesis
    by (rule that [of c]) (use rel True in \<open>auto simp: move_to_front_def lru_rel_def\<close>)
next
  case False
  note r = rel [unfolded lru_rel_def]
  from r have seg: "seg (slot_links (nodes c)) None (as @ i # bs) None" by blast
  then have li: "slot_links (nodes c) i = Some (last_or None as, first_or bs None)"
    by (simp add: seg_append)
  then obtain n where n: "node_at c i = Some n" "node_prev n = last_or None as"
    "node_next n = first_or bs None"
    by (auto simp: node_at_def slot_links_def get_unchecked_def split: if_splits)
  obtain ns1 ns2 where ns2: "\<And>c'. nodes c' = nodes c \<Longrightarrow>
       set_next (last_or None as) (first_or bs None) c' = Some (c'\<lparr>nodes := ns1\<rparr>)"
    "\<And>c'. nodes c' = ns1 \<Longrightarrow>
       set_prev (first_or bs None) (last_or None as) c' = Some (c'\<lparr>nodes := ns2\<rparr>)"
    "length ns2 = length (nodes c)" "slot_data ns2 = slot_data (nodes c)"
    "dom (slot_links ns2) = dom (slot_links (nodes c))" "seg (slot_links ns2) None (as @ bs) None"
    by (rule unlink_effect [of "nodes c" as i bs]) (use r in \<open>auto simp: seg_append\<close>)
  let ?c2 = "(if bs = [] then c\<lparr>nodes := ns2, tail_ix := last_or None as\<rparr> else c\<lparr>nodes := ns2\<rparr>)"
  have step2: "(case first_or bs None of
       Some _ \<Rightarrow> set_prev (first_or bs None) (last_or None as) (c\<lparr>nodes := ns1\<rparr>)
     | None \<Rightarrow> Some (c\<lparr>nodes := ns1, tail_ix := last_or None as\<rparr>)) = Some ?c2"
    using ns2(2) [of "c\<lparr>nodes := ns1\<rparr>"] by (cases bs) (auto simp: set_prev_def)
  have i2: "i \<in> dom (slot_links ns2)" using ns2(5) li by auto
  have head: "head_ix c = first_or (as @ bs) None" "Some i \<noteq> head_ix c"
    using r False by (cases as; auto)+
  obtain ns3 ns4 where ns3: "\<And>c'. nodes c' = ns2 \<Longrightarrow>
       set_prev (Some i) None c' = Some (c'\<lparr>nodes := ns3\<rparr>)"
    and ns4: "\<And>c'. nodes c' = ns3 \<Longrightarrow>
       set_next (Some i) (head_ix c) c' = Some (c'\<lparr>nodes := ns4\<rparr>)"
    "length ns4 = length ns2" "slot_data ns4 = slot_data ns2"
    "slot_links ns4 = (slot_links ns2)(i \<mapsto> (None, head_ix c))"
    by (rule relink_effect [OF i2, of None "head_ix c"]) blast
  obtain ns5 where ns5: "\<And>c'. nodes c' = ns4 \<Longrightarrow>
       set_prev (first_or (as @ bs) None) (Some i) c' = Some (c'\<lparr>nodes := ns5\<rparr>)"
    "length ns5 = length ns4" "slot_data ns5 = slot_data ns4"
    "dom (slot_links ns5) = dom (slot_links ns4)" "seg (slot_links ns5) None (i # as @ bs) None"
    by (rule push_front_effect [of ns4 "as @ bs" i])
      (use ns2(6) r head in \<open>auto simp: ns4(4) seg_upd\<close>)
  have "dom (slot_links ns5) = set (i # as @ bs)"
    using r i2 by (auto simp: ns5(4) ns4(4) ns2(5))
  moreover have "tail_ix ?c2 = last_or None (i # as @ bs)"
    using r False by (cases as rule: rev_cases; cases bs) auto
  ultimately have final: "lru_rel N (?c2\<lparr>nodes := ns5, head_ix := Some i\<rparr>) (i # as @ bs)"
    using r ns5(5) by (auto simp: lru_rel_def ns2(3,4) ns4(2,3) ns5(2,3))
  have "move_to_front i c = Some (?c2\<lparr>nodes := ns5, head_ix := Some i\<rparr>)"
    using head n ns2(1) step2 ns3 ns4(1) ns5(1) by (cases bs) (simp_all add: move_to_front_def)
  from that [OF this final] show ?thesis by (auto simp: ns2(4) ns4(3) ns5(3))
qed

lemma keys_ok_update:
  "keys_ok m D \<Longrightarrow> Mapping.lookup m k = None \<Longrightarrow> D i = None \<Longrightarrow>
   keys_ok (Mapping.update k i m) (D(i \<mapsto> (k, v)))"
  unfolding keys_ok_def lookup_update' by (metis fun_upd_apply option.distinct(1) option.inject prod.inject)

lemma keys_ok_delete:
  assumes "keys_ok m D" and "D i = Some (k, v)"
  shows "keys_ok (Mapping.delete k m) (D(i := None))"
  unfolding keys_ok_def
proof (intro allI)
  fix k' j
  from assms have "Mapping.lookup m k = Some i" by (auto simp: keys_ok_def)
  moreover from assms(1) have "Mapping.lookup m k' = Some j \<longleftrightarrow> (\<exists>v. D j = Some (k', v))"
    by (simp add: keys_ok_def)
  ultimately show "Mapping.lookup (Mapping.delete k m) k' = Some j \<longleftrightarrow>
      (\<exists>v. (D(i := None)) j = Some (k', v))"
    using assms(2) by (cases "k = k'") (auto simp: lookup_delete lookup_delete_neq)
qed

lemma insert_front_rel:
  assumes rel: "lru_rel N c xs" and free: "free_list c = fl @ [i]"
    and k: "Mapping.lookup (key_map c) k = None"
  obtains c' where "insert_front k v c = Some c'" "lru_rel N c' (i # xs)"
    "slot_data (nodes c') = (slot_data (nodes c))(i \<mapsto> (k, v))"
proof -
  note r = rel [unfolded lru_rel_def]
  from r free have i: "i < N" "i \<notin> set xs" "i \<notin> set fl" by auto
  let ?n = "\<lparr>node_key = k, node_value = v, node_prev = None, node_next = head_ix c\<rparr>"
  let ?ns = "(nodes c)[i := Some ?n]"
  obtain ns where ns: "\<And>c'. nodes c' = ?ns \<Longrightarrow>
       set_prev (first_or xs None) (Some i) c' = Some (c'\<lparr>nodes := ns\<rparr>)"
    "length ns = length ?ns" "slot_data ns = slot_data ?ns"
    "dom (slot_links ns) = dom (slot_links ?ns)" "seg (slot_links ns) None (i # xs) None"
    by (rule push_front_effect [of ?ns xs i]) (use r i in \<open>auto simp: seg_upd\<close>)
  let ?c' = "c\<lparr>free_list := fl, nodes := ns, head_ix := Some i,
       tail_ix := (if tail_ix c = None then Some i else tail_ix c),
       key_map := Mapping.update k i (key_map c)\<rparr>"
  have "slot_data (nodes c) i = None"
    using slot_data_in_rel [OF rel, of i] i not_None_eq by blast
  with r k have "keys_ok (Mapping.update k i (key_map c)) (slot_data ns)"
    using i by (simp add: ns(3) keys_ok_update)
  moreover have "(if tail_ix c = None then Some i else tail_ix c) = last_or None (i # xs)"
    using r by (cases xs) (auto simp: last_or_def)
  moreover have "dom (slot_links ns) = set (i # xs)" using r i by (simp add: ns(4))
  ultimately have "lru_rel N ?c' (i # xs)"
    using r i ns(5) free by (auto simp: lru_rel_def ns(2))
  moreover have "insert_front k v c = Some ?c'"
    using ns(1) r free i by (cases c) (auto simp: insert_front_def vec_pop_def Let_def)
  ultimately show ?thesis
    using that [of ?c'] i r by (simp add: ns(3))
qed

lemma pop_rel:
  assumes rel: "lru_rel N c (as @ i # bs)" and data: "slot_data (nodes c) i = Some (k, v)"
  obtains c' where "lru_pop k c = Some (Some (k, v), c')" "lru_rel N c' (as @ bs)"
    "slot_data (nodes c') = (slot_data (nodes c))(i := None)"
    "free_list c' = free_list c @ [i]"
proof -
  note r = rel [unfolded lru_rel_def]
  from rel data have lk: "Mapping.lookup (key_map c) k = Some i" by (auto simp: lookup_rel)
  from r have li: "slot_links (nodes c) i = Some (last_or None as, first_or bs None)"
    by (auto simp: seg_append)
  then have iN: "i < length (nodes c)" by (rule slot_links_bound)
  let ?ns = "(nodes c)[i := None]"
  obtain ns1 ns2 where ns: "\<And>c'. nodes c' = ?ns \<Longrightarrow>
       set_next (last_or None as) (first_or bs None) c' = Some (c'\<lparr>nodes := ns1\<rparr>)"
    "\<And>c'. nodes c' = ns1 \<Longrightarrow>
       set_prev (first_or bs None) (last_or None as) c' = Some (c'\<lparr>nodes := ns2\<rparr>)"
    "length ns2 = length ?ns" "slot_data ns2 = slot_data ?ns"
    "dom (slot_links ns2) = dom (slot_links ?ns)" "seg (slot_links ns2) None (as @ bs) None"
    by (rule unlink_effect [of ?ns as i bs]) (use r iN in \<open>auto simp: links\<close>)
  have e1: "as = [] \<Longrightarrow> ns1 = ?ns" and e2: "bs = [] \<Longrightarrow> ns2 = ns1"
    using ns(1) [of "c\<lparr>nodes := ?ns\<rparr>"] ns(2) [of "c\<lparr>nodes := ns1\<rparr>"]
    by (auto simp: set_next_def set_prev_def dest: arg_cong [where f = nodes])
  let ?c' = "c\<lparr>key_map := Mapping.delete k (key_map c), nodes := ns2,
       head_ix := first_or (as @ bs) None, tail_ix := last_or None (as @ bs),
       free_list := free_list c @ [i]\<rparr>"
  have "keys_ok (Mapping.delete k (key_map c)) (slot_data ns2)"
    using r data iN by (simp add: ns(4) keys_ok_delete)
  moreover have "dom (slot_links ns2) = set (as @ bs)" using r iN by (auto simp: ns(5))
  ultimately have "lru_rel N ?c' (as @ bs)"
    using r ns(6) iN by (auto simp: lru_rel_def ns(3))
  moreover have "lru_pop k c = Some (Some (k, v), ?c')"
  proof -
    have n: "node_at (c\<lparr>key_map := Mapping.delete k (key_map c)\<rparr>) i =
        Some \<lparr>node_key = k, node_value = v, node_prev = last_or None as, node_next = first_or bs None\<rparr>"
      by (rule node_at_Some) (use li data in simp_all)
    show ?thesis
      using lk n iN ns(1,2) e1 e2 r
      by (cases as rule: rev_cases; cases bs) (auto simp: lru_pop_def vec_push_def)
  qed
  ultimately show ?thesis
    using that [of ?c'] iN by (simp add: ns(4))
qed

text \<open>Evicting the tail is popping the key of the last entry.\<close>

lemma evict_eq_pop:
  assumes rel: "lru_rel N c (as @ [i])" and data: "slot_data (nodes c) i = Some (k, v)"
  shows "evict c = lru_pop k c"
proof -
  note r = rel [unfolded lru_rel_def]
  from rel data have lk: "Mapping.lookup (key_map c) k = Some i" by (auto simp: lookup_rel)
  from r have li: "slot_links (nodes c) i = Some (last_or None as, None)"
    by (auto simp: seg_append)
  have n: "node_at c' i = Some \<lparr>node_key = k, node_value = v, node_prev = last_or None as,
       node_next = None\<rparr>" if "nodes c' = nodes c" for c'
    by (rule node_at_Some) (use li data that in simp_all)
  have upd: "set_next oi x (c'\<lparr>tail_ix := t\<rparr>) = map_option (tail_ix_update (\<lambda>_. t)) (set_next oi x c')"
    for oi x c' t
    by (auto simp: set_next_def update_node_def node_at_def get_unchecked_def
        split: option.splits Option.bind_splits)
  have comm: "c\<lparr>key_map := m, nodes := ns\<rparr> = c\<lparr>nodes := ns, key_map := m\<rparr>" for m ns
    by simp
  from r have "tail_ix c = Some i" by simp
  with n lk slot_links_bound [OF li] show ?thesis
    by (cases as rule: rev_cases)
      (auto simp: evict_def lru_pop_def upd comm Let_def map_option_case split: option.splits)
qed

section \<open>Refinement of the list specification\<close>

text \<open>
  Each operation, started in a state that satisfies the invariant, completes without undefined
  behaviour, keeps the invariant, and acts on the entries as specified.
\<close>

lemma lru_inv_entries:
  assumes "lru_inv N c"
  shows "distinct (map fst (entries c))" and "length (entries c) \<le> N" and "0 < N"
  using assms lru_rel_length [of N c]
  by (auto simp: lru_inv_def entries_rel intro: keys_distinct_rel)

lemma lru_new_refines: "0 < N \<Longrightarrow> lru_inv N (lru_new N) \<and> entries (lru_new N) = []"
  using lru_new_rel [of N] entries_rel [OF lru_new_rel] by (auto simp: lru_inv_def)

lemma lru_contains_refines:
  assumes "lru_inv N c"
  shows "lru_contains c k \<longleftrightarrow> k \<in> fst ` set (entries c)"
proof -
  from assms obtain xs where "lru_rel N c xs" by (auto simp: lru_inv_def)
  from lookup_None_rel [OF this, of k] show ?thesis by (simp add: lru_contains_def)
qed

lemma lru_get_refines:
  assumes "lru_inv N c"
  shows "\<exists>c'. lru_get k c = Some (fst (spec_get k (entries c)), c') \<and>
    lru_inv N c' \<and> entries c' = snd (spec_get k (entries c))"
proof -
  from assms obtain xs where N: "0 < N" and rel: "lru_rel N c xs" by (auto simp: lru_inv_def)
  show ?thesis
  proof (cases "Mapping.lookup (key_map c) k")
    case None
    with lookup_None_rel [OF rel, of k] have "map_of (entries c) k = None"
      by (simp add: map_of_eq_None_iff)
    with None assms show ?thesis by (simp add: lru_get_def spec_get_def)
  next
    case (Some i)
    with rel obtain as bs v where xs: "xs = as @ i # bs" and d: "slot_data (nodes c) i = Some (k, v)"
      by (rule lookup_rel_split)
    from rel have rel': "lru_rel N c (as @ i # bs)" by (simp add: xs)
    then obtain c' where c': "move_to_front i c = Some c'" "lru_rel N c' (i # as @ bs)"
      "slot_data (nodes c') = slot_data (nodes c)"
      by (rule move_to_front_rel)
    have "lru_get k c = Some (Some v, c')"
      using Some c'(1,3) d by (simp add: lru_get_def slot_data_value)
    moreover have "entries c' = (k, v) # del_key k (entries c)"
      using entries_without [OF rel' d] by (simp add: entries_rel [OF c'(2)] c'(3) d)
    ultimately show ?thesis
      using c'(2) N map_of_entries [OF rel d] by (auto simp: spec_get_def lru_inv_def)
  qed
qed

lemma lru_pop_refines:
  assumes "lru_inv N c"
  shows "\<exists>c'. lru_pop k c = Some (fst (spec_pop k (entries c)), c') \<and>
    lru_inv N c' \<and> entries c' = snd (spec_pop k (entries c))"
proof -
  from assms obtain xs where N: "0 < N" and rel: "lru_rel N c xs" by (auto simp: lru_inv_def)
  show ?thesis
  proof (cases "Mapping.lookup (key_map c) k")
    case None
    with lookup_None_rel [OF rel, of k]
    have "map_of (entries c) k = None" "del_key k (entries c) = entries c"
      by (simp_all add: map_of_eq_None_iff del_key_notin)
    with None assms show ?thesis by (simp add: lru_pop_def spec_pop_def)
  next
    case (Some i)
    with rel obtain as bs v where xs: "xs = as @ i # bs" and d: "slot_data (nodes c) i = Some (k, v)"
      by (rule lookup_rel_split)
    from rel have rel': "lru_rel N c (as @ i # bs)" by (simp add: xs)
    from rel' d obtain c' where c': "lru_pop k c = Some (Some (k, v), c')" "lru_rel N c' (as @ bs)"
      "slot_data (nodes c') = (slot_data (nodes c))(i := None)"
      by (rule pop_rel)
    have "i \<notin> set (as @ bs)" using rel' by (auto simp: lru_rel_def)
    then have "entries c' = del_key k (entries c)"
      using entries_without [OF rel' d]
      by (simp add: entries_rel [OF c'(2)] c'(3) map_data_upd del: fun_upd_apply map_append)
    with c'(1,2) N map_of_entries [OF rel d] show ?thesis
      by (auto simp: spec_pop_def lru_inv_def)
  qed
qed

lemma update_value_rel:
  assumes rel: "lru_rel N c xs" and d: "slot_data (nodes c) i = Some (k, w)"
  obtains c' where "update_node (\<lambda>n. n\<lparr>node_value := v\<rparr>) i c = Some c'" "lru_rel N c' xs"
    "slot_data (nodes c') = (slot_data (nodes c))(i \<mapsto> (k, v))" "key_map c' = key_map c"
proof -
  from d obtain n where n: "i < length (nodes c)" "nodes c ! i = Some n" "node_key n = k"
    by (auto simp: slot_data_def split: if_splits)
  let ?c' = "c\<lparr>nodes := (nodes c)[i := Some (n\<lparr>node_value := v\<rparr>)]\<rparr>"
  have l: "slot_links (nodes ?c') = slot_links (nodes c)"
    using n by (auto simp: slot_links_def)
  have "keys_ok (key_map c) ((slot_data (nodes c))(i \<mapsto> (k, v)))"
    using rel d by (auto simp: lru_rel_def keys_ok_def)
  with rel n have "lru_rel N ?c' xs"
    using l by (simp add: lru_rel_def)
  moreover have "update_node (\<lambda>n. n\<lparr>node_value := v\<rparr>) i c = Some ?c'"
    using n by (simp add: update_node_def node_at_def get_unchecked_def)
  ultimately show ?thesis using that [of ?c'] n by simp
qed

lemma put_dup_refines:
  assumes N: "0 < N" and rel: "lru_rel N c xs" and lk: "Mapping.lookup (key_map c) k = Some i"
  shows "\<exists>c'. lru_put N k v c = Some ((None, True), c') \<and>
    lru_inv N c' \<and> entries c' = (k, v) # del_key k (entries c)"
proof -
  from rel lk obtain as bs w where xs: "xs = as @ i # bs"
    and d: "slot_data (nodes c) i = Some (k, w)"
    by (rule lookup_rel_split)
  from rel d obtain c1 where c1: "update_node (\<lambda>n. n\<lparr>node_value := v\<rparr>) i c = Some c1"
    "lru_rel N c1 xs" "slot_data (nodes c1) = (slot_data (nodes c))(i \<mapsto> (k, v))"
    by (rule update_value_rel [where v = v])
  from c1(2) obtain c' where c': "move_to_front i c1 = Some c'" "lru_rel N c' (i # as @ bs)"
    "slot_data (nodes c') = slot_data (nodes c1)"
    unfolding xs by (rule move_to_front_rel)
  have "i \<notin> set (as @ bs)" using rel by (auto simp: lru_rel_def xs)
  then have "entries c' = (k, v) # del_key k (entries c)"
    using entries_without [OF rel [unfolded xs] d]
    by (simp add: entries_rel [OF c'(2)] c'(3) c1(3) map_data_upd del: map_append fun_upd_apply)
       (simp)
  with lk c1(1) c'(1,2) N show ?thesis by (auto simp: lru_put_def lru_inv_def)
qed

lemma insert_front_refines:
  assumes N: "0 < N" and rel: "lru_rel N c xs" and fl: "free_list c \<noteq> []"
    and k: "Mapping.lookup (key_map c) k = None"
  shows "\<exists>c'. insert_front k v c = Some c' \<and> lru_inv N c' \<and> entries c' = (k, v) # entries c"
proof -
  from fl obtain fl' i where i: "free_list c = fl' @ [i]" by (cases "free_list c" rule: rev_cases) auto
  from rel i k obtain c' where c': "insert_front k v c = Some c'" "lru_rel N c' (i # xs)"
    "slot_data (nodes c') = (slot_data (nodes c))(i \<mapsto> (k, v))"
    by (rule insert_front_rel)
  from c'(2) have "i \<notin> set xs" by (auto simp: lru_rel_def)
  then have "entries c' = (k, v) # entries c"
    by (simp add: entries_rel [OF c'(2)] entries_rel [OF rel] c'(3) map_data_upd del: fun_upd_apply)
       (simp)
  with c' N show ?thesis by (auto simp: lru_inv_def)
qed

lemma evict_refines:
  assumes rel: "lru_rel N c xs" and "xs \<noteq> []"
  obtains c' xs' where "evict c = Some (Some (last (entries c)), c')" "lru_rel N c' xs'"
    "entries c' = butlast (entries c)" "free_list c' \<noteq> []"
proof -
  from assms(2) obtain as i where xs: "xs = as @ [i]" by (cases xs rule: rev_cases) auto
  with slot_data_in_rel [OF rel, of i] obtain k w where d: "slot_data (nodes c) i = Some (k, w)"
    by auto
  from rel xs have rel': "lru_rel N c (as @ i # [])" by simp
  from rel' d obtain c1 where c1: "lru_pop k c = Some (Some (k, w), c1)"
    "lru_rel N c1 (as @ [])" "slot_data (nodes c1) = (slot_data (nodes c))(i := None)"
    "free_list c1 = free_list c @ [i]"
    by (rule pop_rel)
  have e: "entries c = map (\<lambda>j. the (slot_data (nodes c) j)) as @ [(k, w)]"
    by (simp add: entries_rel [OF rel] xs d)
  have "i \<notin> set as" using rel by (auto simp: lru_rel_def xs)
  then have "entries c1 = butlast (entries c)"
    by (simp add: entries_rel [OF c1(2)] c1(3) e map_data_upd del: fun_upd_apply)
  with that [of c1 "as @ []"] c1 evict_eq_pop [OF rel [unfolded xs] d] e show ?thesis by simp
qed

lemma lru_put_refines:
  assumes "lru_inv N c"
  shows "\<exists>c'. lru_put N k v c = Some (fst (spec_put N k v (entries c)), c') \<and>
    lru_inv N c' \<and> entries c' = snd (spec_put N k v (entries c))"
proof -
  from assms obtain xs where N: "0 < N" and rel: "lru_rel N c xs" by (auto simp: lru_inv_def)
  have len: "length (entries c) = length xs" by (simp add: entries_rel [OF rel])
  show ?thesis
  proof (cases "Mapping.lookup (key_map c) k")
    case (Some i)
    with lookup_None_rel [OF rel, of k] have "k \<in> fst ` set (entries c)" by auto
    with put_dup_refines [OF N rel Some, of v] show ?thesis by (simp add: spec_put_def)
  next
    case None
    with lookup_None_rel [OF rel, of k] have k: "k \<notin> fst ` set (entries c)" by simp
    show ?thesis
    proof (cases "length xs = N")
      case False
      with lru_rel_length [OF rel] have "card (set xs) < N"
        using rel by (simp add: lru_rel_def distinct_card)
      then have "free_list c \<noteq> []"
        using rel card_mono [of "set xs" "{0..<N}"] by (fastforce simp: lru_rel_def)
      from insert_front_refines [OF N rel this None, of v] None k False show ?thesis
        by (auto simp: lru_put_def size_rel [OF rel] spec_put_def len)
    next
      case True
      with rel N obtain c1 xs1 where c1: "evict c = Some (Some (last (entries c)), c1)"
        "lru_rel N c1 xs1" "entries c1 = butlast (entries c)" "free_list c1 \<noteq> []"
        by (rule_tac evict_refines) auto
      from k have "k \<notin> fst ` set (entries c1)" by (auto simp: c1(3) dest: in_set_butlastD)
      with lookup_None_rel [OF c1(2)] have "Mapping.lookup (key_map c1) k = None" by simp
      from insert_front_refines [OF N c1(2,4) this, of v] None k True c1(1,3)
      show ?thesis by (auto simp: lru_put_def size_rel [OF rel] spec_put_def len)
    qed
  qed
qed

end
