(* ===== verification/LRU_Interface.thy ===== *)
theory LRU_Interface
  imports LRU_Cache
begin

text \<open>
  The contract of the cache as its clients use it (qos-core/src/lib.rs, qos-core/src/banking.rs,
  qos/src/main.rs), stated as a locale over the operations and interpreted on the node-array model.
  The clients rely on three things: a stored key is found until it is popped or evicted, the
  duplicate flag of \<open>put\<close> is membership before the call, and an entry is evicted only when \<open>cap\<close>
  other keys have been stored after it was last used (the working-set property).
\<close>

locale lru_api =
  fixes new :: 'c
    and get :: "'k \<Rightarrow> 'c \<Rightarrow> ('v option \<times> 'c) option"
    and contains :: "'c \<Rightarrow> 'k \<Rightarrow> bool"
    and pop :: "'k \<Rightarrow> 'c \<Rightarrow> (('k \<times> 'v) option \<times> 'c) option"
    and put :: "'k \<Rightarrow> 'v \<Rightarrow> 'c \<Rightarrow> ((('k \<times> 'v) option \<times> bool) \<times> 'c) option"
    and inv :: "'c \<Rightarrow> bool"
    and ents :: "'c \<Rightarrow> ('k \<times> 'v) list"
    and cap :: nat
  assumes new_ok: "0 < cap \<Longrightarrow> inv new \<and> ents new = []"
    and inv_bounds: "inv c \<Longrightarrow> distinct (map fst (ents c)) \<and> length (ents c) \<le> cap \<and> 0 < cap"
    and contains_ok: "inv c \<Longrightarrow> contains c k \<longleftrightarrow> k \<in> fst ` set (ents c)"
    and get_ok: "inv c \<Longrightarrow> \<exists>c'. get k c = Some (fst (spec_get k (ents c)), c') \<and>
        inv c' \<and> ents c' = snd (spec_get k (ents c))"
    and pop_ok: "inv c \<Longrightarrow> \<exists>c'. pop k c = Some (fst (spec_pop k (ents c)), c') \<and>
        inv c' \<and> ents c' = snd (spec_pop k (ents c))"
    and put_ok: "inv c \<Longrightarrow> \<exists>c'. put k v c = Some (fst (spec_put cap k v (ents c)), c') \<and>
        inv c' \<and> ents c' = snd (spec_put cap k v (ents c))"
begin

lemma put_cases:
  assumes "inv c"
  obtains (dup) c' where "put k v c = Some ((None, True), c')" "inv c'" "contains c k"
      "ents c' = (k, v) # del_key k (ents c)"
  | (evicted) c' where "put k v c = Some ((Some (last (ents c)), False), c')" "inv c'"
      "\<not> contains c k" "length (ents c) = cap" "ents c' = (k, v) # butlast (ents c)"
  | (fresh) c' where "put k v c = Some ((None, False), c')" "inv c'" "\<not> contains c k"
      "length (ents c) < cap" "ents c' = (k, v) # ents c"
proof -
  from put_ok [OF assms, of k v] obtain c' where
    "put k v c = Some (fst (spec_put cap k v (ents c)), c')" "inv c'"
    "ents c' = snd (spec_put cap k v (ents c))" by blast
  with inv_bounds [OF assms] contains_ok [OF assms, of k] dup evicted fresh show ?thesis
    by (auto simp: spec_put_def split: if_splits)
qed

lemma put_get_same:
  assumes "inv c" and "put k v c = Some (r, c')"
  shows "inv c' \<and> contains c' k \<and> (\<exists>c''. get k c' = Some (Some v, c'') \<and> ents c'' = ents c')"
proof -
  from assms(1) have "inv c' \<and> ents c' \<noteq> [] \<and> hd (ents c') = (k, v)"
    by (rule put_cases [of c k v]) (use assms(2) in auto)
  then obtain es where es: "ents c' = (k, v) # es" and inv: "inv c'" by (cases "ents c'") auto
  with inv_bounds [OF inv] have "del_key k es = es" by (intro del_key_notin) auto
  with get_ok [OF inv, of k] es have "\<exists>c''. get k c' = Some (Some v, c'') \<and> ents c'' = ents c'"
    by (auto simp: spec_get_def)
  with inv contains_ok [OF inv, of k] es show ?thesis by simp
qed

lemma put_flag:
  assumes "inv c" and "put k v c = Some ((ev, d), c')"
  shows "d \<longleftrightarrow> contains c k"
  by (rule put_cases [OF assms(1), of k v]) (use assms(2) in auto)

lemma put_keeps_others:
  assumes "inv c" and "put k v c = Some ((ev, d), c')" and "k' \<noteq> k"
    and "\<And>w. ev \<noteq> Some (k', w)"
  shows "contains c' k' \<longleftrightarrow> contains c k'"
proof (cases rule: put_cases [OF assms(1), of k v])
  case (1 c'')
  then show ?thesis using assms contains_ok [of c'] contains_ok [of c] by auto
next
  case (2 c'')
  then have c': "c' = c''" "ev = Some (last (ents c))" using assms(2) by auto
  from 2 inv_bounds [OF assms(1)] have "ents c \<noteq> []" by auto
  then have "set (ents c) = insert (last (ents c)) (set (butlast (ents c)))"
    by (metis append_butlast_last_id list.set(1,2) set_append sup_commute insert_is_Un)
  moreover have "fst (last (ents c)) \<noteq> k'" using assms(4) c' by (metis prod.collapse)
  ultimately show ?thesis using 2 c' assms contains_ok [of c'] contains_ok [of c] by auto
next
  case (3 c'')
  then show ?thesis using assms contains_ok [of c'] contains_ok [of c] by auto
qed

lemma pop_result:
  assumes "inv c" and "pop k c = Some (r, c')"
  shows "inv c'" and "\<not> contains c' k" and "k' \<noteq> k \<Longrightarrow> contains c' k' \<longleftrightarrow> contains c k'"
    and "r = map_option (Pair k) (map_of (ents c) k)"
  using pop_ok [OF assms(1), of k] assms(2) contains_ok [of c'] contains_ok [OF assms(1)]
  by (auto simp: spec_pop_def)

text \<open>
  Working set: \<open>k\<close> is present and the keys used more recently than \<open>k\<close> are all in \<open>T\<close>. Storing
  another key keeps this, with that key added to \<open>T\<close>, as long as \<open>T\<close> has fewer than \<open>cap\<close> keys.
\<close>

definition recent :: "'k \<Rightarrow> 'v \<Rightarrow> 'k set \<Rightarrow> 'c \<Rightarrow> bool" where
  "recent k v T c \<longleftrightarrow>
     inv c \<and> (\<exists>as bs. ents c = as @ (k, v) # bs \<and> fst ` set as \<subseteq> T) \<and> finite T \<and> k \<notin> T"

lemma recent_contains: "recent k v T c \<Longrightarrow> contains c k"
  using contains_ok by (auto simp: recent_def)

lemma recent_map_of: "recent k v T c \<Longrightarrow> map_of (ents c) k = Some v"
  using inv_bounds [of c] by (auto simp: recent_def)

lemma recent_start:
  assumes "inv c" and "put k v c = Some (r, c')"
  shows "recent k v {} c'"
proof -
  from assms(1) have "inv c' \<and> (\<exists>es. ents c' = (k, v) # es)"
    by (rule put_cases [of c k v]) (use assms(2) in auto)
  then show ?thesis
    by (auto simp: recent_def intro!: exI [where x = "[]"])
qed

lemma recent_prefix_small:
  assumes inv: "inv c" and es: "ents c = as @ (k, v) # bs" and T: "fst ` set as \<subseteq> T" "finite T"
    and k': "k' \<notin> fst ` set (ents c)" and small: "card (insert k' T) < cap"
    and full: "length (ents c) = cap"
  shows "bs \<noteq> []"
proof
  assume "bs = []"
  with es full have len: "Suc (length as) = cap" by simp
  have "distinct (map fst as)" using inv_bounds [OF inv] by (simp add: es)
  then have "card (fst ` set as) = length as" by (metis distinct_card length_map list.set_map)
  moreover have "fst ` set as \<subseteq> T - {k'}" using T(1) k' es by auto
  then have "card (fst ` set as) \<le> card (T - {k'})" using T(2) by (simp add: card_mono)
  moreover have "card (insert k' T) = Suc (card (T - {k'}))"
    using T(2) by (metis card.insert_remove)
  ultimately show False using len small by linarith
qed

lemma recent_put:
  assumes r: "recent k v T c" and "k' \<noteq> k" and small: "card (insert k' T) < cap"
    and put: "put k' w c = Some (res, c')"
  shows "recent k v (insert k' T) c'"
proof -
  from r obtain as bs where inv: "inv c" and es: "ents c = as @ (k, v) # bs"
    and T: "fst ` set as \<subseteq> T" "finite T" "k \<notin> T" by (auto simp: recent_def)
  have "inv c' \<and> (\<exists>as bs. ents c' = as @ (k, v) # bs \<and> fst ` set as \<subseteq> insert k' T)"
  proof (cases rule: put_cases [OF inv, of k' w])
    case (1 c'')
    with put \<open>k' \<noteq> k\<close> es have "ents c' = ((k', w) # del_key k' as) @ (k, v) # del_key k' bs" "inv c'"
      by auto
    moreover have "fst ` set ((k', w) # del_key k' as) \<subseteq> insert k' T"
      using T by (auto simp: set_del_key)
    ultimately show ?thesis by blast
  next
    case (2 c'')
    then have "k' \<notin> fst ` set (ents c)" using contains_ok [OF inv] by simp
    with recent_prefix_small [OF inv es T(1,2) _ small] 2 have "bs \<noteq> []" by blast
    then have "ents c' = ((k', w) # as) @ (k, v) # butlast bs" "inv c'"
      using 2 put by (auto simp: es butlast_append)
    moreover have "fst ` set ((k', w) # as) \<subseteq> insert k' T" using T by auto
    ultimately show ?thesis by blast
  next
    case (3 c'')
    with put have "ents c' = ((k', w) # as) @ (k, v) # bs" "inv c'" by (auto simp: es)
    moreover have "fst ` set ((k', w) # as) \<subseteq> insert k' T" using T by auto
    ultimately show ?thesis by blast
  qed
  with T \<open>k' \<noteq> k\<close> show ?thesis by (simp add: recent_def)
qed

end

text \<open>The node-array cache fulfils the contract, for every capacity.\<close>

interpretation lru: lru_api "lru_new N" lru_get lru_contains lru_pop "lru_put N" "lru_inv N" entries N
  for N
  by unfold_locales
    (simp_all add: lru_new_refines lru_inv_entries lru_contains_refines lru_get_refines
      lru_pop_refines lru_put_refines)

lemma lru_new_inv: "0 < N \<Longrightarrow> lru_inv N (lru_new N)"
  and lru_new_entries: "0 < N \<Longrightarrow> entries (lru_new N) = []"
  by (simp_all add: lru_new_refines)

section \<open>Sequences of operations\<close>

text \<open>A client's history of calls; \<open>lru_run\<close> threads the cache through it.\<close>

datatype ('k, 'v) lru_op = OpGet 'k | OpPut 'k 'v | OpPop 'k

fun lru_step :: "nat \<Rightarrow> ('k, 'v) lru_op \<Rightarrow> ('k, 'v) LRUCache \<Rightarrow> ('k, 'v) LRUCache option" where
  "lru_step N (OpGet k) c = map_option snd (lru_get k c)"
| "lru_step N (OpPut k v) c = map_option snd (lru_put N k v c)"
| "lru_step N (OpPop k) c = map_option snd (lru_pop k c)"

fun lru_run :: "nat \<Rightarrow> ('k, 'v) lru_op list \<Rightarrow> ('k, 'v) LRUCache \<Rightarrow> ('k, 'v) LRUCache option" where
  "lru_run N [] c = Some c"
| "lru_run N (x # xs) c = do { c \<leftarrow> lru_step N x c; lru_run N xs c }"

lemma lru_step_inv: "lru_inv N c \<Longrightarrow> \<exists>c'. lru_step N x c = Some c' \<and> lru_inv N c'"
proof (cases x)
  case (OpGet k)
  then show "lru_inv N c \<Longrightarrow> ?thesis" using lru.get_ok [of N c k] by auto
next
  case (OpPut k v)
  then show "lru_inv N c \<Longrightarrow> ?thesis" using lru.put_ok [of N c k v] by auto
next
  case (OpPop k)
  then show "lru_inv N c \<Longrightarrow> ?thesis" using lru.pop_ok [of N c k] by auto
qed

lemma lru_run_inv: "lru_inv N c \<Longrightarrow> \<exists>c'. lru_run N xs c = Some c' \<and> lru_inv N c'"
proof (induction xs arbitrary: c)
  case (Cons x xs)
  from lru_step_inv [OF Cons.prems, of x] obtain c1 where "lru_step N x c = Some c1" "lru_inv N c1"
    by blast
  with Cons.IH [of c1] show ?case by simp
qed simp

lemma lru_puts_recent:
  assumes "lru.recent N k v T c" and "k \<notin> fst ` set kvs"
    and "card (T \<union> fst ` set kvs) < N"
    and "lru_run N (map (\<lambda>(k, v). OpPut k v) kvs) c = Some c'"
  shows "lru.recent N k v (T \<union> fst ` set kvs) c'"
  using assms
proof (induction kvs arbitrary: T c)
  case (Cons kv kvs)
  obtain k' w where kv: "kv = (k', w)" by force
  from Cons.prems(4) kv obtain res c1 where
    c1: "lru_put N k' w c = Some (res, c1)" "lru_run N (map (\<lambda>(k, v). OpPut k v) kvs) c1 = Some c'"
    by (auto split: Option.bind_splits)
  have fin: "finite T" using Cons.prems(1) by (simp add: lru.recent_def)
  have "card (insert k' T) \<le> card (T \<union> fst ` set (kv # kvs))"
    using fin by (intro card_mono) (auto simp: kv)
  with Cons.prems(3) have "card (insert k' T) < N" by simp
  with Cons.prems(1,2) c1(1) kv have "lru.recent N k v (insert k' T) c1"
    by (intro lru.recent_put) auto
  from Cons.IH [OF this _ _ c1(2)] Cons.prems(2,3) kv show ?case by simp
qed simp

section \<open>Histories with results\<close>

text \<open>
  The results a client sees along a history, for the node array (\<open>lru_exec\<close>) and for the reference
  list of entries, most recently used first (\<open>spec_exec\<close>).
\<close>

datatype ('k, 'v) lru_res = ResGet "'v option" | ResPut "('k \<times> 'v) option" bool | ResPop "('k \<times> 'v) option"

fun lru_call :: "nat \<Rightarrow> ('k, 'v) lru_op \<Rightarrow> ('k, 'v) LRUCache \<Rightarrow> (('k, 'v) lru_res \<times> ('k, 'v) LRUCache) option" where
  "lru_call N (OpGet k) c = map_option (\<lambda>(r, c). (ResGet r, c)) (lru_get k c)"
| "lru_call N (OpPut k v) c = map_option (\<lambda>((ev, dup), c). (ResPut ev dup, c)) (lru_put N k v c)"
| "lru_call N (OpPop k) c = map_option (\<lambda>(r, c). (ResPop r, c)) (lru_pop k c)"

fun lru_exec :: "nat \<Rightarrow> ('k, 'v) lru_op list \<Rightarrow> ('k, 'v) LRUCache
    \<Rightarrow> (('k, 'v) lru_res list \<times> ('k, 'v) LRUCache) option" where
  "lru_exec N [] c = Some ([], c)"
| "lru_exec N (x # xs) c = do {
     (r, c) \<leftarrow> lru_call N x c;
     (rs, c) \<leftarrow> lru_exec N xs c;
     Some (r # rs, c)
   }"

fun spec_call :: "nat \<Rightarrow> ('k, 'v) lru_op \<Rightarrow> ('k \<times> 'v) list \<Rightarrow> ('k, 'v) lru_res \<times> ('k \<times> 'v) list" where
  "spec_call N (OpGet k) es = (let (r, es) = spec_get k es in (ResGet r, es))"
| "spec_call N (OpPut k v) es = (let ((ev, dup), es) = spec_put N k v es in (ResPut ev dup, es))"
| "spec_call N (OpPop k) es = (let (r, es) = spec_pop k es in (ResPop r, es))"

fun spec_exec :: "nat \<Rightarrow> ('k, 'v) lru_op list \<Rightarrow> ('k \<times> 'v) list \<Rightarrow> ('k, 'v) lru_res list \<times> ('k \<times> 'v) list" where
  "spec_exec N [] es = ([], es)"
| "spec_exec N (x # xs) es =
     (let (r, es) = spec_call N x es; (rs, es) = spec_exec N xs es in (r # rs, es))"

lemma lru_call_refines:
  assumes "lru_inv N c"
  shows "\<exists>c'. lru_call N x c = Some (fst (spec_call N x (entries c)), c') \<and>
    lru_inv N c' \<and> entries c' = snd (spec_call N x (entries c))"
proof (cases x)
  case (OpGet k)
  then show ?thesis using lru.get_ok [OF assms, of k] by (auto split: prod.splits)
next
  case (OpPut k v)
  then show ?thesis using lru.put_ok [OF assms, of k v] by (auto split: prod.splits)
next
  case (OpPop k)
  then show ?thesis using lru.pop_ok [OF assms, of k] by (auto split: prod.splits)
qed

lemma lru_exec_refines:
  "lru_inv N c \<Longrightarrow> \<exists>c'. lru_exec N xs c = Some (fst (spec_exec N xs (entries c)), c') \<and>
     lru_inv N c' \<and> entries c' = snd (spec_exec N xs (entries c))"
proof (induction xs arbitrary: c)
  case (Cons x xs)
  from lru_call_refines [OF Cons.prems, of x] obtain c1 where
    "lru_call N x c = Some (fst (spec_call N x (entries c)), c1)" "lru_inv N c1"
    "entries c1 = snd (spec_call N x (entries c))" by blast
  with Cons.IH [of c1] show ?case by (auto split: prod.splits)
qed simp

section \<open>Properties\<close>

text \<open>
  C10. A cache of positive capacity, freshly created and driven by any sequence of \<open>get\<close>, \<open>put\<close> and
  \<open>pop\<close> calls, never performs an out-of-bounds or empty-slot access, and every value it returns
  (hits, evicted pairs, duplicate flags, popped pairs) is the one of the reference list that keeps
  the most recently used entry first and drops the last one on overflow.
\<close>

theorem lru_history_refines:
  fixes ops :: "('k, 'v) lru_op list"
  assumes "0 < N"
  shows "\<exists>c. lru_exec N ops (lru_new N) = Some (fst (spec_exec N ops []), c) \<and>
    lru_inv N c \<and> entries c = snd (spec_exec N ops [])"
proof -
  have "lru_inv N (lru_new N :: ('k, 'v) LRUCache)" "entries (lru_new N :: ('k, 'v) LRUCache) = []"
    using lru.new_ok [OF assms] by blast+
  with lru_exec_refines [of N "lru_new N" ops] show ?thesis by simp
qed

theorem lru_history_refines_witness:
  "0 < (2::nat) \<and>
   (\<exists>c. lru_exec 2 [OpPut (1::nat) ''a'', OpPut 2 ''b'', OpGet 1, OpPut 3 ''c'', OpPut 1 ''d'', OpPop 3]
          (lru_new 2) =
        Some ([ResPut None False, ResPut None False, ResGet (Some ''a''),
               ResPut (Some (2, ''b'')) False, ResPut None True, ResPop (Some (3, ''c''))], c) \<and>
      entries c = [(1, ''d'')])"
  using lru_history_refines [of 2 "[OpPut (1::nat) ''a'', OpPut 2 ''b'', OpGet 1, OpPut 3 ''c'',
      OpPut 1 ''d'', OpPop 3]"]
  by (auto simp: spec_get_def spec_put_def spec_pop_def)

text \<open>
  C23. Working set: a stored key stays in the cache, with its value, while fewer than \<open>N\<close> other
  keys are stored after it. The duplicate filters of the packet pipeline rest on this.
\<close>

theorem lru_working_set:
  assumes "lru_inv N c" and "lru_put N k v c = Some (r, c1)"
    and "k \<notin> fst ` set kvs" and "card (fst ` set kvs) < N"
    and "lru_run N (map (\<lambda>(k, v). OpPut k v) kvs) c1 = Some c2"
  shows "lru_contains c2 k \<and> map_of (entries c2) k = Some v"
proof -
  have "lru.recent N k v ({} \<union> fst ` set kvs) c2"
    using lru_puts_recent [OF lru.recent_start [OF assms(1,2)] assms(3) _ assms(5)] assms(4) by simp
  from lru.recent_contains [OF this] lru.recent_map_of [OF this] show ?thesis by (rule conjI)
qed

theorem lru_working_set_witness:
  "\<exists>c1 c2. lru_put 2 (1::nat) ''a'' (lru_new 2) = Some ((None, False), c1) \<and>
     lru_run 2 (map (\<lambda>(k, v). OpPut k v) [(2, ''b''), (2, ''e'')]) c1 = Some c2 \<and>
     lru_contains c2 1 \<and> map_of (entries c2) 1 = Some ''a''"
proof -
  have inv: "lru_inv 2 (lru_new 2 :: (nat, string) LRUCache)" "entries (lru_new 2 :: (nat, string) LRUCache) = []"
    using lru.new_ok [of 2] by auto
  obtain c1 where c1: "lru_put 2 1 ''a'' (lru_new 2 :: (nat, string) LRUCache) = Some ((None, False), c1)"
    "lru_inv 2 c1"
    using lru.put_ok [OF inv(1), of 1 "''a''"] by (auto simp: spec_put_def inv(2))
  obtain c2 where c2: "lru_run 2 (map (\<lambda>(k, v). OpPut k v) [(2, ''b''), (2, ''e'')]) c1 = Some c2"
    using lru_run_inv [OF c1(2)] by blast
  from lru_working_set [OF inv(1) c1(1) _ _ c2] c1(1) c2 show ?thesis by auto
qed

text \<open>
  The two constructors agree: whatever the fresh allocation of \<open>new_boxed\<close> held, initialising it
  field by field gives the cache that \<open>new\<close> builds.
\<close>

lemma lru_new_boxed_correct:
  assumes "length (nodes raw) = N"
  shows "lru_new_boxed N raw = lru_new N"
  using assms by (rule new_boxed_eq_new)

lemma lru_new_boxed_correct_witness:
  "lru_new_boxed 2 \<lparr>nodes = [None, Some \<lparr>node_key = 7, node_value = 8, node_prev = Some 5, node_next = None\<rparr>],
      key_map = Mapping.empty, free_list = [9], head_ix = Some 3, tail_ix = Some 4\<rparr> =
   (lru_new 2 :: (nat, nat) LRUCache)"
  by (rule lru_new_boxed_correct) simp

text \<open>
  The guard that the code intends as \<open>_ASSERT_NONZERO\<close> is needed: with capacity zero the first
  \<open>put\<close> already reaches \<open>free_list.pop().unwrap_unchecked()\<close> on an empty stack.
\<close>

lemma lru_zero_capacity_put: "lru_put 0 k v (lru_new 0) = None"
  by (simp add: lru_put_def lru_new_def evict_def insert_front_def vec_pop_def lookup_empty)

end
