(* ===== verification/QoS_Model_Interface.thy ===== *)
theory QoS_Model_Interface
  imports Score_Range
begin

text \<open>
  The trait \<open>QoSModel\<close> (model/src/interface.rs) as a locale: the three operations a client of a
  model calls, and what the client relies on. \<open>ok\<close> is the invariant of the implementing model,
  \<open>batch_ok\<close> and \<open>meta_ok\<close> the batches and the update data it accepts without exhausting the fixed
  capacity of its tables. Both models of the repository are interpretations.

  Inside the locale: a model that is fed any sequence of acceptable batches and feedback never
  panics and always answers with a finite, non-negative, bounded score; repeated negative feedback
  never raises the score of a known address.
\<close>

datatype ('tx, 'u) model_event = Batch "'tx list" 'u | Feedback u32

fun apply_event :: "('tx list \<Rightarrow> 'u \<Rightarrow> 'm \<Rightarrow> 'm option) \<Rightarrow> (u32 \<Rightarrow> 'm \<Rightarrow> 'm)
    \<Rightarrow> ('tx, 'u) model_event \<Rightarrow> 'm \<Rightarrow> 'm option" where
  "apply_event update feedback (Batch txs u) m = update txs u m"
| "apply_event update feedback (Feedback ip) m = Some (feedback ip m)"

fun run_events :: "('tx list \<Rightarrow> 'u \<Rightarrow> 'm \<Rightarrow> 'm option) \<Rightarrow> (u32 \<Rightarrow> 'm \<Rightarrow> 'm)
    \<Rightarrow> ('tx, 'u) model_event list \<Rightarrow> 'm \<Rightarrow> 'm option" where
  "run_events update feedback [] m = Some m"
| "run_events update feedback (e # es) m =
     (case apply_event update feedback e m of
        Some m' \<Rightarrow> run_events update feedback es m' | None \<Rightarrow> None)"

fun event_ok :: "('tx list \<Rightarrow> bool) \<Rightarrow> ('u \<Rightarrow> bool) \<Rightarrow> ('tx, 'u) model_event \<Rightarrow> bool" where
  "event_ok batch_ok meta_ok (Batch txs u) \<longleftrightarrow> batch_ok txs \<and> meta_ok u"
| "event_ok batch_ok meta_ok (Feedback ip) \<longleftrightarrow> True"

locale qos_model =
  fixes forward :: "'m \<Rightarrow> u32 \<Rightarrow> pubkey \<Rightarrow> f64"
    and update :: "'tx list \<Rightarrow> 'u \<Rightarrow> 'm \<Rightarrow> 'm option"
    and feedback :: "u32 \<Rightarrow> 'm \<Rightarrow> 'm"
    and ok :: "'m \<Rightarrow> bool"
    and batch_ok :: "'tx list \<Rightarrow> bool"
    and meta_ok :: "'u \<Rightarrow> bool"
    and known :: "'m \<Rightarrow> u32 \<Rightarrow> bool"
    and bound :: rat
  assumes forward_range: "ok m \<Longrightarrow> in_range bound (forward m ip signer)"
    and feedback_ok: "ok m \<Longrightarrow> ok (feedback ip m)"
    and feedback_known: "ok m \<Longrightarrow> known (feedback ip m) ip' \<longleftrightarrow> known m ip'"
    and feedback_lowers_forward:
      "ok m \<Longrightarrow> known m ip \<Longrightarrow> forward (feedback ip m) ip signer \<le> forward m ip signer"
    and update_ok: "ok m \<Longrightarrow> batch_ok txs \<Longrightarrow> meta_ok u \<Longrightarrow> \<exists>m'. update txs u m = Some m' \<and> ok m'"
begin

lemma run_events_total:
  "ok m \<Longrightarrow> list_all (event_ok batch_ok meta_ok) es \<Longrightarrow>
   \<exists>m'. run_events update feedback es m = Some m' \<and> ok m' \<and> (\<forall>ip signer. in_range bound (forward m' ip signer))"
proof (induction es arbitrary: m)
  case Nil
  then show ?case by (simp add: forward_range)
next
  case (Cons e es)
  have "\<exists>m'. apply_event update feedback e m = Some m' \<and> ok m'"
    using Cons.prems update_ok feedback_ok by (cases e) auto
  with Cons show ?case by fastforce
qed

lemma repeated_feedback:
  "ok m \<Longrightarrow> known m ip \<Longrightarrow>
   ok ((feedback ip ^^ n) m) \<and> known ((feedback ip ^^ n) m) ip \<and>
   forward ((feedback ip ^^ n) m) ip signer \<le> forward m ip signer"
proof (induction n)
  case (Suc n)
  with feedback_lowers_forward [of "(feedback ip ^^ n) m" ip signer] show ?case
    by (auto simp: feedback_ok feedback_known intro: order_trans)
qed simp

end

end
