(* ===== verification/Ip_Signer_Model.thy ===== *)
theory Ip_Signer_Model
  imports QoS_Model_Interface
begin

text \<open>
  The product model of model/src/models/ip_signer.rs: one score table per source address and one
  per signer, each a forward and an inverse tree (\<open>Score_Table\<close>). The record \<open>model_trees\<close> holds the
  operations of the four trees, which belong to an external crate.

  Shown here: loading, feedback, direct additions, pruning and whole updates keep the inverse trees
  exact mirrors of the forward trees, never panic on \<open>remove_root().unwrap()\<close>, change the score
  maps as specified by \<open>updated_scores\<close>, and keep all scores finite, non-negative and bounded.
\<close>

section \<open>Model\<close>

record ('ms, 'mi, 'vs, 'vi) model_trees =
  signer_tree :: "('ms, pubkey) fwd_ops"
  ip_tree :: "('mi, u32) fwd_ops"
  signer_inverse_tree :: "('vs, pubkey) inv_ops"
  ip_inverse_tree :: "('vi, u32) inv_ops"

record ('ms, 'mi, 'vs, 'vi) IpSignerModel =
  signer_score :: 'ms
  ip_score :: 'mi
  signer_score_inverse :: 'vs
  ip_score_inverse :: 'vi

abbreviation signers :: "('ms, 'mi, 'vs, 'vi, 'z) IpSignerModel_scheme \<Rightarrow> 'ms \<times> 'vs" where
  "signers m \<equiv> (signer_score m, signer_score_inverse m)"

abbreviation ips :: "('ms, 'mi, 'vs, 'vi, 'z) IpSignerModel_scheme \<Rightarrow> 'mi \<times> 'vi" where
  "ips m \<equiv> (ip_score m, ip_score_inverse m)"

definition set_signers :: "'ms \<times> 'vs \<Rightarrow>
    ('ms, 'mi, 'vs, 'vi, 'z) IpSignerModel_scheme \<Rightarrow> ('ms, 'mi, 'vs, 'vi, 'z) IpSignerModel_scheme" where
  "set_signers t m = m\<lparr>signer_score := fst t, signer_score_inverse := snd t\<rparr>"

definition set_ips :: "'mi \<times> 'vi \<Rightarrow>
    ('ms, 'mi, 'vs, 'vi, 'z) IpSignerModel_scheme \<Rightarrow> ('ms, 'mi, 'vs, 'vi, 'z) IpSignerModel_scheme" where
  "set_ips t m = m\<lparr>ip_score := fst t, ip_score_inverse := snd t\<rparr>"

definition model_new :: "('ms, 'mi, 'vs, 'vi) model_trees \<Rightarrow> (u32 \<times> f64) list \<Rightarrow> (pubkey \<times> f64) list
    \<Rightarrow> ('ms, 'mi, 'vs, 'vi) IpSignerModel" where
  "model_new T ip_scores signer_scores =
     (let (signer_score, signer_score_inverse) =
            load_scores (signer_tree T) (signer_inverse_tree T) signer_scores;
          (ip_score, ip_score_inverse) = load_scores (ip_tree T) (ip_inverse_tree T) ip_scores
      in \<lparr>signer_score = signer_score, ip_score = ip_score,
          signer_score_inverse = signer_score_inverse, ip_score_inverse = ip_score_inverse\<rparr>)"

definition approximate_median_ip_score ::
  "('ms, 'mi, 'vs, 'vi) model_trees \<Rightarrow> ('ms, 'mi, 'vs, 'vi, 'z) IpSignerModel_scheme \<Rightarrow> f64" where
  "approximate_median_ip_score T m = approximate_median_score (ip_inverse_tree T) (ip_score_inverse m)"

definition approximate_median_signer_score ::
  "('ms, 'mi, 'vs, 'vi) model_trees \<Rightarrow> ('ms, 'mi, 'vs, 'vi, 'z) IpSignerModel_scheme \<Rightarrow> f64" where
  "approximate_median_signer_score T m =
     approximate_median_score (signer_inverse_tree T) (signer_score_inverse m)"

definition ip_score_or_median ::
  "('ms, 'mi, 'vs, 'vi) model_trees \<Rightarrow> ('ms, 'mi, 'vs, 'vi, 'z) IpSignerModel_scheme \<Rightarrow> u32 \<Rightarrow> f64" where
  "ip_score_or_median T m ip =
     (case t_get (ip_tree T) (ip_score m) ip of
        Some score \<Rightarrow> score | None \<Rightarrow> approximate_median_ip_score T m)"

definition signer_score_or_median ::
  "('ms, 'mi, 'vs, 'vi) model_trees \<Rightarrow> ('ms, 'mi, 'vs, 'vi, 'z) IpSignerModel_scheme \<Rightarrow> pubkey \<Rightarrow> f64" where
  "signer_score_or_median T m signer =
     (case t_get (signer_tree T) (signer_score m) signer of
        Some score \<Rightarrow> score | None \<Rightarrow> approximate_median_signer_score T m)"

definition model_forward ::
  "('ms, 'mi, 'vs, 'vi) model_trees \<Rightarrow> ('ms, 'mi, 'vs, 'vi) IpSignerModel \<Rightarrow> u32 \<Rightarrow> pubkey \<Rightarrow> f64" where
  "model_forward T m ip signer =
     f64_mul (ip_score_or_median T m ip) (signer_score_or_median T m signer)"

definition prune :: "('ms, 'mi, 'vs, 'vi) model_trees \<Rightarrow> nat \<Rightarrow> nat
    \<Rightarrow> ('ms, 'mi, 'vs, 'vi, 'z) IpSignerModel_scheme
    \<Rightarrow> ('ms, 'mi, 'vs, 'vi, 'z) IpSignerModel_scheme option" where
  "prune T num_ips num_signers m = do {
     ti \<leftarrow> prune_scores (ip_tree T) (ip_inverse_tree T) num_ips (ips m);
     ts \<leftarrow> prune_scores (signer_tree T) (signer_inverse_tree T) num_signers (signers m);
     Some (set_signers ts (set_ips ti m))
   }"

definition add_ip_score :: "('ms, 'mi, 'vs, 'vi) model_trees \<Rightarrow> u32 \<Rightarrow> f64
    \<Rightarrow> ('ms, 'mi, 'vs, 'vi, 'z) IpSignerModel_scheme
    \<Rightarrow> ('ms, 'mi, 'vs, 'vi, 'z) IpSignerModel_scheme" where
  "add_ip_score T ip score m = set_ips (add_score (ip_tree T) (ip_inverse_tree T) ip score (ips m)) m"

definition add_signer_score :: "('ms, 'mi, 'vs, 'vi) model_trees \<Rightarrow> pubkey \<Rightarrow> f64
    \<Rightarrow> ('ms, 'mi, 'vs, 'vi, 'z) IpSignerModel_scheme
    \<Rightarrow> ('ms, 'mi, 'vs, 'vi, 'z) IpSignerModel_scheme" where
  "add_signer_score T signer score m =
     set_signers (add_score (signer_tree T) (signer_inverse_tree T) signer score (signers m)) m"

text \<open>One pass over the batch fills both candidate maps.\<close>

definition collect_candidates :: "'a QoSTransactionMeta list
    \<Rightarrow> (pubkey \<times> ScoreUpdateCandidate) list \<times> (u32 \<times> ScoreUpdateCandidate) list" where
  "collect_candidates transactions =
     fold (\<lambda>tx (signer_cands, ip_cands).
         (note_candidate (tm_signer tx) (tm_value tx) signer_cands,
          note_candidate (tm_ip tx) (tm_value tx) ip_cands))
       transactions ([], [])"

definition update_tables :: "('ms, 'mi, 'vs, 'vi) model_trees \<Rightarrow> 'a QoSTransactionMeta list
    \<Rightarrow> ('ms, 'mi, 'vs, 'vi, 'z) IpSignerModel_scheme
    \<Rightarrow> ('ms, 'mi, 'vs, 'vi, 'z) IpSignerModel_scheme" where
  "update_tables T transactions m =
     (let (signer_cands, ip_cands) = collect_candidates transactions;
          m = set_ips (update_scores (ip_tree T) (ip_inverse_tree T) ip_cands (ips m)) m
      in set_signers (update_scores (signer_tree T) (signer_inverse_tree T) signer_cands (signers m)) m)"

definition update_model :: "('ms, 'mi, 'vs, 'vi) model_trees \<Rightarrow> 'a QoSTransactionMeta list \<Rightarrow> nat \<Rightarrow> nat
    \<Rightarrow> ('ms, 'mi, 'vs, 'vi) IpSignerModel \<Rightarrow> ('ms, 'mi, 'vs, 'vi) IpSignerModel option" where
  "update_model T transactions prune_signers prune_ips m =
     prune T prune_ips prune_signers (update_tables T transactions m)"

text \<open>The \<open>QoSModel\<close> implementation.\<close>

definition model_update_model :: "('ms, 'mi, 'vs, 'vi) model_trees \<Rightarrow> 'a QoSTransactionMeta list \<Rightarrow> unit
    \<Rightarrow> ('ms, 'mi, 'vs, 'vi) IpSignerModel \<Rightarrow> ('ms, 'mi, 'vs, 'vi) IpSignerModel option" where
  "model_update_model T transactions update_meta m = update_model T transactions 5 5 m"

definition ip_feedback :: "('ms, 'mi, 'vs, 'vi) model_trees \<Rightarrow> u32
    \<Rightarrow> ('ms, 'mi, 'vs, 'vi, 'z) IpSignerModel_scheme
    \<Rightarrow> ('ms, 'mi, 'vs, 'vi, 'z) IpSignerModel_scheme" where
  "ip_feedback T ip m = set_ips (feedback_score (ip_tree T) (ip_inverse_tree T) ip (ips m)) m"

section \<open>Invariant\<close>

record ('ms, 'mi, 'vs, 'vi) tree_oks =
  ok_signer :: "'ms \<Rightarrow> bool"
  ok_ip :: "'mi \<Rightarrow> bool"
  ok_signer_inverse :: "'vs \<Rightarrow> bool"
  ok_ip_inverse :: "'vi \<Rightarrow> bool"

definition model_laws ::
  "nat \<Rightarrow> nat \<Rightarrow> ('ms, 'mi, 'vs, 'vi) tree_oks \<Rightarrow> ('ms, 'mi, 'vs, 'vi) model_trees \<Rightarrow> bool" where
  "model_laws max_signers max_ips Ok T \<longleftrightarrow>
     tables_ok max_signers (ok_signer Ok) (ok_signer_inverse Ok) (signer_tree T) (signer_inverse_tree T) \<and>
     tables_ok max_ips (ok_ip Ok) (ok_ip_inverse Ok) (ip_tree T) (ip_inverse_tree T)"

definition model_inv :: "('ms, 'mi, 'vs, 'vi) tree_oks \<Rightarrow> ('ms, 'mi, 'vs, 'vi) model_trees
    \<Rightarrow> ('ms, 'mi, 'vs, 'vi, 'z) IpSignerModel_scheme \<Rightarrow> bool" where
  "model_inv Ok T m \<longleftrightarrow>
     table_inv (ok_signer Ok) (ok_signer_inverse Ok) (signer_tree T) (signer_inverse_tree T) (signers m) \<and>
     table_inv (ok_ip Ok) (ok_ip_inverse Ok) (ip_tree T) (ip_inverse_tree T) (ips m)"

abbreviation ip_score_map :: "('ms, 'mi, 'vs, 'vi) model_trees
    \<Rightarrow> ('ms, 'mi, 'vs, 'vi, 'z) IpSignerModel_scheme \<Rightarrow> u32 \<rightharpoonup> f64" where
  "ip_score_map T m \<equiv> t_get (ip_tree T) (ip_score m)"

abbreviation signer_score_map :: "('ms, 'mi, 'vs, 'vi) model_trees
    \<Rightarrow> ('ms, 'mi, 'vs, 'vi, 'z) IpSignerModel_scheme \<Rightarrow> pubkey \<rightharpoonup> f64" where
  "signer_score_map T m \<equiv> t_get (signer_tree T) (signer_score m)"

lemma set_table_simps [simp]:
  "ip_score (set_ips t m) = fst t" "ip_score_inverse (set_ips t m) = snd t"
  "signer_score (set_ips t m) = signer_score m"
  "signer_score_inverse (set_ips t m) = signer_score_inverse m"
  "signer_score (set_signers u m) = fst u" "signer_score_inverse (set_signers u m) = snd u"
  "ip_score (set_signers u m) = ip_score m" "ip_score_inverse (set_signers u m) = ip_score_inverse m"
  by (simp_all add: set_ips_def set_signers_def)

lemma model_lawsD:
  assumes "model_laws NS NI Ok T"
  shows "tables_ok NS (ok_signer Ok) (ok_signer_inverse Ok) (signer_tree T) (signer_inverse_tree T)"
    and "tables_ok NI (ok_ip Ok) (ok_ip_inverse Ok) (ip_tree T) (ip_inverse_tree T)"
  using assms by (simp_all add: model_laws_def)

lemma model_invD:
  assumes "model_inv Ok T m"
  shows "table_inv (ok_signer Ok) (ok_signer_inverse Ok) (signer_tree T) (signer_inverse_tree T) (signers m)"
    and "table_inv (ok_ip Ok) (ok_ip_inverse Ok) (ip_tree T) (ip_inverse_tree T) (ips m)"
  using assms by (simp_all add: model_inv_def)

lemma collect_candidates_eq:
  "collect_candidates txs = (candidates tm_signer tm_value txs, candidates tm_ip tm_value txs)"
proof -
  have "fold (\<lambda>tx (a, b). (f tx a, g tx b)) txs (a, b) = (fold f txs a, fold g txs b)"
    for f :: "'x \<Rightarrow> 'p \<Rightarrow> 'p" and g :: "'x \<Rightarrow> 'q \<Rightarrow> 'q" and txs a b
    by (induction txs arbitrary: a b) simp_all
  then show ?thesis by (simp add: collect_candidates_def candidates_def)
qed

section \<open>Operations on the invariant and the score maps\<close>

lemma model_new_ok:
  assumes laws: "model_laws NS NI Ok T"
    and "distinct (map fst ipl)" "length ipl \<le> NI" "distinct (map fst sgl)" "length sgl \<le> NS"
  shows "model_inv Ok T (model_new T ipl sgl)"
    and "ip_score_map T (model_new T ipl sgl) = map_of ipl"
    and "signer_score_map T (model_new T ipl sgl) = map_of sgl"
proof -
  note L = load_scores_ok [OF model_lawsD(2) [OF laws] assms(2,3)]
    load_scores_ok [OF model_lawsD(1) [OF laws] assms(4,5)]
  from L show "model_inv Ok T (model_new T ipl sgl)"
    by (auto simp: model_new_def model_inv_def split: prod.splits)
  have rev: "map_of (rev l) = map_of l" if "distinct (map fst l)" for l :: "('k \<times> f64) list"
    using that map_of_inject_set [of "rev l" l] by (simp add: rev_map [symmetric])
  from L show "ip_score_map T (model_new T ipl sgl) = map_of ipl"
    "signer_score_map T (model_new T ipl sgl) = map_of sgl"
    using rev [OF assms(2)] rev [OF assms(4)] by (auto simp: model_new_def split: prod.splits)
qed

lemma ip_feedback_ok:
  assumes laws: "model_laws NS NI Ok T" and "model_inv Ok T m"
  shows "model_inv Ok T (ip_feedback T ip m)"
    and "signer_score_map T (ip_feedback T ip m) = signer_score_map T m"
    and "ip_score_map T (ip_feedback T ip m) =
      (ip_score_map T m)(ip := map_option (\<lambda>s. f64_mul s feedback_factor) (ip_score_map T m ip))"
  using feedback_score_ok [OF model_lawsD(2) [OF laws] model_invD(2) [OF assms(2)], of ip]
    model_invD(1) [OF assms(2)]
  by (auto simp: ip_feedback_def model_inv_def fun_eq_iff split: option.splits)

lemma add_score_model_ok:
  assumes laws: "model_laws NS NI Ok T" and inv: "model_inv Ok T m"
  shows "ip \<in> dom (ip_score_map T m) \<or> card (dom (ip_score_map T m)) < NI \<Longrightarrow>
      model_inv Ok T (add_ip_score T ip s m) \<and>
      ip_score_map T (add_ip_score T ip s m) = (ip_score_map T m)(ip \<mapsto> s) \<and>
      signer_score_map T (add_ip_score T ip s m) = signer_score_map T m"
    and "sg \<in> dom (signer_score_map T m) \<or> card (dom (signer_score_map T m)) < NS \<Longrightarrow>
      model_inv Ok T (add_signer_score T sg s m) \<and>
      signer_score_map T (add_signer_score T sg s m) = (signer_score_map T m)(sg \<mapsto> s) \<and>
      ip_score_map T (add_signer_score T sg s m) = ip_score_map T m"
  using add_score_ok [OF model_lawsD(2) [OF laws] model_invD(2) [OF inv], of ip s]
    add_score_ok [OF model_lawsD(1) [OF laws] model_invD(1) [OF inv], of sg s] model_invD [OF inv]
  by (auto simp: add_ip_score_def add_signer_score_def model_inv_def)

text \<open>\<open>table_size\<close> is the number of scored addresses or signers.\<close>

abbreviation map_size :: "('k \<rightharpoonup> 'v) \<Rightarrow> nat" where
  "map_size g \<equiv> card (dom g)"

lemma prune_ok:
  assumes laws: "model_laws NS NI Ok T" and inv: "model_inv Ok T m"
  obtains m' where "prune T num_ips num_signers m = Some m'" "model_inv Ok T m'"
    "ip_score_map T m' \<subseteq>\<^sub>m ip_score_map T m" "map_size (ip_score_map T m') = min (map_size (ip_score_map T m)) num_ips"
    "signer_score_map T m' \<subseteq>\<^sub>m signer_score_map T m"
    "map_size (signer_score_map T m') = min (map_size (signer_score_map T m)) num_signers"
    "\<exists>ti ts. m' = set_signers ts (set_ips ti m)"
proof -
  obtain ti where ti: "prune_scores (ip_tree T) (ip_inverse_tree T) num_ips (ips m) = Some ti"
    "table_inv (ok_ip Ok) (ok_ip_inverse Ok) (ip_tree T) (ip_inverse_tree T) ti"
    "scores_of (ip_tree T) ti \<subseteq>\<^sub>m ip_score_map T m"
    "map_size (scores_of (ip_tree T) ti) = min (map_size (ip_score_map T m)) num_ips"
    using prune_scores_ok [OF model_lawsD(2) [OF laws] model_invD(2) [OF inv]] by (metis fst_conv)
  obtain ts where ts: "prune_scores (signer_tree T) (signer_inverse_tree T) num_signers (signers m) = Some ts"
    "table_inv (ok_signer Ok) (ok_signer_inverse Ok) (signer_tree T) (signer_inverse_tree T) ts"
    "scores_of (signer_tree T) ts \<subseteq>\<^sub>m signer_score_map T m"
    "map_size (scores_of (signer_tree T) ts) = min (map_size (signer_score_map T m)) num_signers"
    using prune_scores_ok [OF model_lawsD(1) [OF laws] model_invD(1) [OF inv]] by (metis fst_conv)
  show ?thesis
    by (rule that [of "set_signers ts (set_ips ti m)"])
      (use ti ts in \<open>auto simp: prune_def model_inv_def simp del: split_paired_Ex\<close>)
qed

text \<open>What a batch does to the two score maps before pruning.\<close>

definition batch_candidates :: "('t \<Rightarrow> 'k) \<Rightarrow> ('t \<Rightarrow> f64) \<Rightarrow> 't list \<Rightarrow> 'k \<rightharpoonup> ScoreUpdateCandidate" where
  "batch_candidates key val txs k = candidate_of (map val (filter (\<lambda>t. key t = k) txs))"

text \<open>
  The keys a batch can add to a table: those it does not have yet, and at most one for five transactions.
\<close>

definition new_keys :: "('t \<Rightarrow> 'k) \<Rightarrow> 't list \<Rightarrow> ('k \<rightharpoonup> f64) \<Rightarrow> nat" where
  "new_keys key txs g = min (length txs div 5) (card (key ` set txs - dom g))"

definition room_for :: "('ms, 'mi, 'vs, 'vi) model_trees \<Rightarrow> nat \<Rightarrow> nat \<Rightarrow> 'a QoSTransactionMeta list
    \<Rightarrow> ('ms, 'mi, 'vs, 'vi, 'z) IpSignerModel_scheme \<Rightarrow> bool" where
  "room_for T NS NI txs m \<longleftrightarrow>
     map_size (ip_score_map T m) + new_keys tm_ip txs (ip_score_map T m) \<le> NI \<and>
     map_size (signer_score_map T m) + new_keys tm_signer txs (signer_score_map T m) \<le> NS"

lemma candidates_room: "length (filter (\<lambda>e. fst e \<notin> dom g) (admitted (candidates key val txs))) \<le> new_keys key txs g"
proof -
  let ?new = "filter (\<lambda>e. fst e \<notin> dom g) (admitted (candidates key val txs))"
  have "length ?new \<le> length txs div 5"
    using candidates_admitted [of key val txs] length_filter_le [of "\<lambda>e. fst e \<notin> dom g" "admitted (candidates key val txs)"]
    by linarith
  moreover have "distinct (map fst ?new)"
    using candidates_distinct [of key val txs] by (simp add: admitted_def distinct_map_filter)
  then have "length ?new = card (fst ` set ?new)" by (metis distinct_card length_map set_map)
  moreover have "fst ` set ?new \<subseteq> key ` set txs - dom g"
  proof
    fix k assume "k \<in> fst ` set ?new"
    then obtain e where "e \<in> set (candidates key val txs)" "fst e \<notin> dom g" "k = fst e" unfolding admitted_def set_filter by blast
    then obtain sc where e: "(k, sc) \<in> set (candidates key val txs)" "k \<notin> dom g" by (metis prod.collapse)
    then have "map_of (candidates key val txs) k \<noteq> None" by (force simp: map_of_eq_None_iff)
    with candidates_map_of [of key val txs k] have "filter (\<lambda>t. key t = k) txs \<noteq> []" by auto
    with e(2) show "k \<in> key ` set txs - dom g" by (auto simp: filter_empty_conv)
  qed
  then have "card (fst ` set ?new) \<le> card (key ` set txs - dom g)" by (intro card_mono) auto
  ultimately show ?thesis by (simp add: new_keys_def)
qed

lemma update_tables_ok:
  assumes laws: "model_laws NS NI Ok T" and inv: "model_inv Ok T m"
    and room: "room_for T NS NI txs m"
  shows "model_inv Ok T (update_tables T txs m)"
    and "ip_score_map T (update_tables T txs m) =
      updated_scores (approximate_median_ip_score T m) (batch_candidates tm_ip tm_value txs) (ip_score_map T m)"
    and "signer_score_map T (update_tables T txs m) =
      updated_scores (approximate_median_signer_score T m) (batch_candidates tm_signer tm_value txs)
        (signer_score_map T m)"
proof -
  have cand: "map_of (candidates key val l) = batch_candidates key val l"
    for key :: "'t \<Rightarrow> 'k::linorder" and val l
    using candidates_map_of [of key val l] by (auto simp: batch_candidates_def)
  have R: "card (dom (scores_of (ip_tree T) (ips m))) +
      length (filter (\<lambda>e. fst e \<notin> dom (scores_of (ip_tree T) (ips m))) (admitted (candidates tm_ip tm_value txs))) \<le> NI"
    "card (dom (scores_of (signer_tree T) (signers m))) +
      length (filter (\<lambda>e. fst e \<notin> dom (scores_of (signer_tree T) (signers m))) (admitted (candidates tm_signer tm_value txs))) \<le> NS"
    using room candidates_room [of "scores_of (ip_tree T) (ips m)" tm_ip tm_value txs]
      candidates_room [of "scores_of (signer_tree T) (signers m)" tm_signer tm_value txs]
    by (simp_all add: room_for_def)
  note I = update_scores_ok [OF model_lawsD(2) [OF laws] model_invD(2) [OF inv] candidates_distinct R(1)]
  note S = update_scores_ok [OF model_lawsD(1) [OF laws] model_invD(1) [OF inv] candidates_distinct R(2)]
  note defs = update_tables_def collect_candidates_eq Let_def cand
    approximate_median_ip_score_def approximate_median_signer_score_def
  show "model_inv Ok T (update_tables T txs m)"
    using I(1) S(1) by (simp add: model_inv_def defs)
  show "ip_score_map T (update_tables T txs m) =
      updated_scores (approximate_median_ip_score T m) (batch_candidates tm_ip tm_value txs) (ip_score_map T m)"
    using I(2) by (simp add: defs)
  show "signer_score_map T (update_tables T txs m) =
      updated_scores (approximate_median_signer_score T m) (batch_candidates tm_signer tm_value txs)
        (signer_score_map T m)"
    using S(2) by (simp add: defs)
qed

section \<open>Bounded scores\<close>

definition scores_in :: "rat \<Rightarrow> ('k \<rightharpoonup> f64) \<Rightarrow> bool" where
  "scores_in B g \<longleftrightarrow> (\<forall>s \<in> ran g. in_range B s)"

lemma scores_in_mono: "scores_in B g \<Longrightarrow> g' \<subseteq>\<^sub>m g \<Longrightarrow> scores_in B g'"
  by (auto simp: scores_in_def ran_def map_le_def) (metis domI)

lemma scores_in_upd: "scores_in B g \<Longrightarrow> in_range B s \<Longrightarrow> scores_in B (g(k \<mapsto> s))"
  by (auto simp: scores_in_def ran_def)

lemma one_in_range: "0 \<le> K \<Longrightarrow> in_range (2 powi K) ONE"
  using representable_pow2 [of 0] two_powi_le_iff [of 0 K] by (simp add: ONE_def)

lemma median_in_range:
  assumes "tables_ok N okm oki M V" and "table_inv okm oki M V t" and "0 \<le> K"
    and "scores_in (2 powi K) (scores_of M t)"
  shows "in_range (2 powi K) (approximate_median_score V (snd t))"
  using median_cases [OF assms(1,2)] one_in_range [OF assms(3)] assms(4)
  by (metis ranI scores_in_def)

lemma updated_scores_in_range:
  assumes K: "0 \<le> K" "K \<le> 900" and g: "scores_in (2 powi K) g" and med: "in_range (2 powi K) med"
    and vals: "\<forall>t \<in> set txs. in_range (2 powi K) (val t)" and len: "length txs < 2 ^ 32"
  shows "scores_in (2 powi K) (updated_scores med (batch_candidates key val txs) g)"
proof -
  have fin: "in_range (2 powi K) (candidate_finalize sc)" if "batch_candidates key val txs k = Some sc" for k sc
  proof (rule finalize_in_range [OF K])
    let ?vs = "map val (filter (\<lambda>t. key t = k) txs)"
    show "candidate_of ?vs = Some sc" using that by (simp add: batch_candidates_def)
    show "length ?vs < 2 ^ 32" using len le_less_trans [OF length_filter_le] by (metis length_map)
    show "\<forall>v \<in> set ?vs. in_range (2 powi K) v" using vals by simp
  qed
  have tgt: "in_range (2 powi K) (target_score med (batch_candidates key val txs k))" for k
    using fin med by (auto simp: target_score_def split: option.splits)
  have old: "in_range (2 powi K) (ema s (target_score med (batch_candidates key val txs k)))"
    if "g k = Some s" for k s
    using K g that tgt [of k] by (intro ema_in_range) (auto simp: scores_in_def ran_def)
  have "in_range (2 powi K) s" if "updated_scores med (batch_candidates key val txs) g k = Some s" for k s
  proof (cases "g k")
    case None
    with that fin show ?thesis by (auto simp: updated_scores_def split: option.splits if_splits)
  next
    case (Some s0)
    with that old [OF this] show ?thesis by (simp add: updated_scores_def)
  qed
  then show ?thesis by (auto simp: scores_in_def ran_def)
qed

section \<open>The model implements the trait\<close>

text \<open>
  \<open>model_ok\<close>: the tree laws hold for capacities \<open>NS\<close> and \<open>NI\<close>, the trees mirror each other, all
  scores lie in \<open>[0, 2 ^ K]\<close>, and neither table holds more than \<open>S\<close> scores. The trait prunes to five
  scores, so \<open>S\<close> is only needed for the scores a model starts with.
\<close>

definition model_ok :: "nat \<Rightarrow> nat \<Rightarrow> nat \<Rightarrow> int \<Rightarrow> ('ms, 'mi, 'vs, 'vi) tree_oks
    \<Rightarrow> ('ms, 'mi, 'vs, 'vi) model_trees \<Rightarrow> ('ms, 'mi, 'vs, 'vi, 'z) IpSignerModel_scheme \<Rightarrow> bool" where
  "model_ok NS NI S K Ok T m \<longleftrightarrow>
     0 \<le> K \<and> K \<le> 450 \<and> 5 \<le> S \<and> model_laws NS NI Ok T \<and> model_inv Ok T m \<and>
     scores_in (2 powi K) (ip_score_map T m) \<and> scores_in (2 powi K) (signer_score_map T m) \<and>
     map_size (ip_score_map T m) \<le> S \<and> map_size (signer_score_map T m) \<le> S"

definition batch_fits :: "nat \<Rightarrow> nat \<Rightarrow> nat \<Rightarrow> int \<Rightarrow> 'a QoSTransactionMeta list \<Rightarrow> bool" where
  "batch_fits NS NI S K txs \<longleftrightarrow>
     S + length txs div 5 \<le> NI \<and> S + length txs div 5 \<le> NS \<and> length txs < 2 ^ 32 \<and>
     (\<forall>t \<in> set txs. in_range (2 powi K) (tm_value t))"

lemma model_okD:
  assumes "model_ok NS NI S K Ok T m"
  shows "0 \<le> K" "K \<le> 450" "K \<le> 900" "5 \<le> S" "model_laws NS NI Ok T" "model_inv Ok T m"
    "scores_in (2 powi K) (ip_score_map T m)" "scores_in (2 powi K) (signer_score_map T m)"
    "map_size (ip_score_map T m) \<le> S" "map_size (signer_score_map T m) \<le> S"
  using assms by (auto simp: model_ok_def)

lemma model_medians_in_range:
  assumes "model_ok NS NI S K Ok T m"
  shows "in_range (2 powi K) (approximate_median_ip_score T m)"
    and "in_range (2 powi K) (approximate_median_signer_score T m)"
  using median_in_range [OF model_lawsD(2) model_invD(2), of NS NI Ok T m K]
    median_in_range [OF model_lawsD(1) model_invD(1), of NS NI Ok T m K] model_okD [OF assms]
  by (simp_all add: approximate_median_ip_score_def approximate_median_signer_score_def)

lemma lookups_in_range:
  assumes "model_ok NS NI S K Ok T m"
  shows "in_range (2 powi K) (ip_score_or_median T m ip)"
    and "in_range (2 powi K) (signer_score_or_median T m signer)"
  using model_medians_in_range [OF assms] model_okD(7,8) [OF assms]
  by (auto simp: ip_score_or_median_def signer_score_or_median_def scores_in_def ran_def split: option.splits)

lemma update_tables_model_ok:
  assumes ok: "model_ok NS NI S K Ok T m" and fits: "batch_fits NS NI S K txs"
  shows "model_inv Ok T (update_tables T txs m)"
    and "scores_in (2 powi K) (ip_score_map T (update_tables T txs m))"
    and "scores_in (2 powi K) (signer_score_map T (update_tables T txs m))"
proof -
  note okD = model_okD [OF ok]
  have room: "room_for T NS NI txs m" 
    using okD fits min.cobounded1 [of "length txs div 5"] unfolding room_for_def new_keys_def batch_fits_def
    by (meson add_mono order_trans)
  note up = update_tables_ok [OF okD(5,6) room]
  show "model_inv Ok T (update_tables T txs m)" by (rule up(1))
  note rng = updated_scores_in_range [OF okD(1,3), where val = tm_value and txs = txs]
  show "scores_in (2 powi K) (ip_score_map T (update_tables T txs m))"
    unfolding up(2) using rng [OF okD(7) model_medians_in_range(1) [OF ok]] fits
    by (simp add: batch_fits_def)
  show "scores_in (2 powi K) (signer_score_map T (update_tables T txs m))"
    unfolding up(3) using rng [OF okD(8) model_medians_in_range(2) [OF ok]] fits
    by (simp add: batch_fits_def)
qed

lemma prune_update_model_ok:
  assumes ok: "model_ok NS NI S K Ok T m" and fits: "batch_fits NS NI S K txs"
    and num: "num_ips \<le> S" "num_signers \<le> S"
  obtains m' where "prune T num_ips num_signers (update_tables T txs m) = Some m'" "model_ok NS NI S K Ok T m'"
    "map_size (ip_score_map T m') \<le> num_ips" "map_size (signer_score_map T m') \<le> num_signers"
proof -
  note up = update_tables_model_ok [OF ok fits]
  obtain m' where m': "prune T num_ips num_signers (update_tables T txs m) = Some m'" "model_inv Ok T m'"
    "ip_score_map T m' \<subseteq>\<^sub>m ip_score_map T (update_tables T txs m)" "map_size (ip_score_map T m') \<le> num_ips"
    "signer_score_map T m' \<subseteq>\<^sub>m signer_score_map T (update_tables T txs m)"
    "map_size (signer_score_map T m') \<le> num_signers"
    using prune_ok [OF model_okD(5) [OF ok] up(1), of num_ips num_signers] by (metis min.cobounded2)
  moreover have "model_ok NS NI S K Ok T m'"
    using m' model_okD [OF ok] up(2,3) num by (auto simp: model_ok_def intro: scores_in_mono)
  ultimately show ?thesis using that by blast
qed

lemma ip_feedback_model_ok:
  assumes ok: "model_ok NS NI S K Ok T m"
  shows "model_ok NS NI S K Ok T (ip_feedback T ip m)"
proof -
  note okD = model_okD [OF ok] and fb = ip_feedback_ok [OF model_okD(5,6) [OF ok], of ip]
  have dom: "dom (ip_score_map T (ip_feedback T ip m)) = dom (ip_score_map T m)"
    unfolding fb(3) by (cases "ip_score_map T m ip") auto
  have "scores_in (2 powi K) (ip_score_map T (ip_feedback T ip m))"
    using okD(7) feedback_in_range unfolding fb(3) by (auto simp: scores_in_def ran_def)
  with okD fb(1,2) dom show ?thesis by (simp add: model_ok_def)
qed

lemma feedback_le:
  assumes "in_range B s"
  shows "f64_mul s feedback_factor \<le> s"
proof -
  from assms obtain q where q: "s = Fin q" "0 \<le> q" "representable q" by (auto simp: in_range_iff)
  show ?thesis
  proof (cases "q = 0")
    case True
    with q show ?thesis by (simp add: feedback_factor_value round_f64_def round_mag_def)
  next
    case False
    with q obtain r where "f64_mul (Fin q) feedback_factor = Fin r" "r < q"
      using feedback_lowers [of q] by auto
    with q(1) show ?thesis by simp
  qed
qed

lemma mul_mono_left:
  assumes "in_range A x" "in_range A y" "in_range B z" "x \<le> y" "representable (A * B)"
  shows "f64_mul x z \<le> f64_mul y z"
proof -
  from assms obtain a b c where abc: "x = Fin a" "y = Fin b" "z = Fin c" "0 \<le> a" "a \<le> b" "b \<le> A"
    "0 \<le> c" "c \<le> B" by (auto simp: in_range_iff)
  then have le: "0 \<le> a * c" "a * c \<le> b * c" "b * c \<le> A * B" by (auto intro: mult_mono)
  obtain r where r: "round_f64 (b * c) = Fin r" "r = round_mag (b * c)"
    using round_between [OF order_refl representable_0 order_trans [OF le(1,2)] le(3) assms(5)] by metis
  obtain s where s: "round_f64 (a * c) = Fin s" "s = round_mag (a * c)"
    using round_between [OF order_refl representable_0 le(1) order_trans [OF le(2,3)] assms(5)] by metis
  show ?thesis using abc r s round_mag_mono [OF le(1,2)] by simp
qed

lemma feedback_lookup:
  assumes ok: "model_ok NS NI S K Ok T m" and known: "ip \<in> dom (ip_score_map T m)"
  shows "ip_score_or_median T (ip_feedback T ip m) ip \<le> ip_score_or_median T m ip"
    and "signer_score_or_median T (ip_feedback T ip m) sg = signer_score_or_median T m sg"
proof -
  note okD = model_okD [OF ok] and fb = ip_feedback_ok [OF model_okD(5,6) [OF ok], of ip]
  from known obtain s where s: "ip_score_map T m ip = Some s" by auto
  with okD(7) have "in_range (2 powi K) s" by (auto simp: scores_in_def ran_def)
  from feedback_le [OF this] s
  show "ip_score_or_median T (ip_feedback T ip m) ip \<le> ip_score_or_median T m ip"
    by (simp add: ip_score_or_median_def fb(3))
  show "signer_score_or_median T (ip_feedback T ip m) sg = signer_score_or_median T m sg"
    by (simp add: signer_score_or_median_def ip_feedback_def approximate_median_signer_score_def
        split: option.split)
qed

lemma representable_product: "0 \<le> K \<Longrightarrow> K \<le> 450 \<Longrightarrow> representable (2 powi K * 2 powi K)"
  by (subst power_int_add [symmetric]) (auto intro: representable_pow2)

lemma model_forward_in_range:
  "model_ok NS NI S K Ok T m \<Longrightarrow> in_range (2 powi K * 2 powi K) (model_forward T m ip signer)"
  unfolding model_forward_def
  by (intro mul_in_range lookups_in_range representable_product) (auto dest: model_okD)

lemma feedback_dom:
  assumes "model_ok NS NI S K Ok T m"
  shows "dom (ip_score_map T (ip_feedback T ip m)) = dom (ip_score_map T m)"
  using ip_feedback_ok(3) [OF model_okD(5,6) [OF assms], of ip] by (cases "ip_score_map T m ip") auto

interpretation ip_signer: qos_model "model_forward T" "model_update_model T" "ip_feedback T"
  "model_ok NS NI S K Ok T" "batch_fits NS NI S K" "\<lambda>_. True" "\<lambda>m ip. ip \<in> dom (ip_score_map T m)"
  "2 powi K * 2 powi K"
  for T NS NI S K Ok
proof
  fix m :: "('a, 'b, 'c, 'd) IpSignerModel" and ip ip' signer
  assume ok: "model_ok NS NI S K Ok T m"
  show "in_range (2 powi K * 2 powi K) (model_forward T m ip signer)"
    using ok by (rule model_forward_in_range)
  show "model_ok NS NI S K Ok T (ip_feedback T ip m)"
    using ok by (rule ip_feedback_model_ok)
  show "ip' \<in> dom (ip_score_map T (ip_feedback T ip m)) \<longleftrightarrow> ip' \<in> dom (ip_score_map T m)"
    by (simp only: feedback_dom [OF ok])
  show "model_forward T (ip_feedback T ip m) ip signer \<le> model_forward T m ip signer"
    if "ip \<in> dom (ip_score_map T m)"
    unfolding model_forward_def feedback_lookup(2) [OF ok that]
    using feedback_lookup(1) [OF ok that] lookups_in_range [OF ok]
      lookups_in_range(1) [OF ip_feedback_model_ok [OF ok]] representable_product [of K] model_okD [OF ok]
    by (intro mul_mono_left) auto
next
  fix m :: "('a, 'b, 'c, 'd) IpSignerModel" and txs :: "'e QoSTransactionMeta list" and u :: unit
  assume ok: "model_ok NS NI S K Ok T m" and "batch_fits NS NI S K txs"
  from prune_update_model_ok [OF this model_okD(4) [OF ok] model_okD(4) [OF ok]]
  show "\<exists>m'. model_update_model T txs u m = Some m' \<and> model_ok NS NI S K Ok T m'"
    by (metis model_update_model_def update_model_def)
qed

section \<open>A concrete instance\<close>

text \<open>The four trees as association lists, used to evaluate the operations on concrete inputs.\<close>

type_synonym 'k alist_fwd = "('k \<times> f64) list"
type_synonym 'k alist_inv = "('k InverseScoreEntry \<times> unit) list"
type_synonym alist_trees_t = "(pubkey alist_fwd, u32 alist_fwd, pubkey alist_inv, u32 alist_inv) model_trees"
type_synonym alist_oks_t = "(pubkey alist_fwd, u32 alist_fwd, pubkey alist_inv, u32 alist_inv) tree_oks"

definition alist_trees :: "nat \<Rightarrow> alist_trees_t" where
  "alist_trees n = \<lparr>signer_tree = alist_ops n, ip_tree = alist_ops n,
     signer_inverse_tree = alist_ops n, ip_inverse_tree = alist_ops n\<rparr>"

definition alist_oks :: "nat \<Rightarrow> alist_oks_t" where
  "alist_oks n = \<lparr>ok_signer = alist_ok n, ok_ip = alist_ok n,
     ok_signer_inverse = alist_ok n, ok_ip_inverse = alist_ok n\<rparr>"

lemma alist_model_laws: "model_laws n n (alist_oks n) (alist_trees n)"
  by (simp add: model_laws_def tables_ok_def alist_oks_def alist_trees_def alist_laws)

lemma alist_model_new_ok:
  assumes "distinct (map fst ipl)" "length ipl \<le> S" "distinct (map fst sgl)" "length sgl \<le> S" "S \<le> n"
    and "0 \<le> K" "K \<le> 450" "5 \<le> S" "\<forall>e \<in> set ipl. in_range (2 powi K) (snd e)"
    "\<forall>e \<in> set sgl. in_range (2 powi K) (snd e)"
  shows "model_ok n n S K (alist_oks n) (alist_trees n) (model_new (alist_trees n) ipl sgl)"
proof -
  have "length ipl \<le> n" "length sgl \<le> n" using assms by auto
  note new = model_new_ok [OF alist_model_laws assms(1) this(1) assms(3) this(2)]
  have dom: "map_size (map_of l) \<le> S" if "length l \<le> S" for l :: "('k \<times> f64) list"
    using that card_length [of "map fst l"] by (simp add: dom_map_of_conv_image_fst)
  have rng: "scores_in B (map_of l)" if "\<forall>e \<in> set l. in_range B (snd e)" for B and l :: "('k \<times> f64) list"
    using that by (auto simp: scores_in_def ran_def dest!: map_of_SomeD)
  show ?thesis
    unfolding model_ok_def new(2,3) using assms(6-8) new(1) alist_model_laws dom [OF assms(2)]
      dom [OF assms(4)] rng [OF assms(9)] rng [OF assms(10)] by simp
qed

lemma demo_ok:
  "model_ok 20 20 5 64 (alist_oks 20) (alist_trees 20) (model_new (alist_trees 20) [(9, Fin 3)] [])"
proof -
  have "in_range (2 powi 64) (Fin 3)" using representable_scale [of 3 0] by simp
  then show ?thesis by (intro alist_model_new_ok) simp_all
qed

lemma value_in_range:
  assumes "0 < execution_nanos"
  shows "in_range (2 powi 64) (tm_value (new_for_tests ip signer fee execution_nanos a))"
  using f64_quotient_in_range [OF assms] by (simp only: new_for_tests_def QoSTransactionMeta.simps)

section \<open>Properties\<close>

text \<open>
  C12. One whole update of the product model, for any batch that fits: it does not panic, keeps the
  inverse trees exact mirrors of the score trees, and leaves exactly \<open>min\<close> of the updated and the
  requested number of scores; each remaining score is the old one moved by the exponential average
  towards the mean of its batch values (with at least five of them, else towards the median), or,
  for a new key with at least five values, that mean.
\<close>

theorem update_model_correct:
  assumes "model_laws NS NI Ok T" and "model_inv Ok T m" and "room_for T NS NI txs m"
  shows "\<exists>m'. update_model T txs prune_signers prune_ips m = Some m' \<and> model_inv Ok T m' \<and>
    ip_score_map T m' \<subseteq>\<^sub>m updated_scores (approximate_median_ip_score T m)
      (batch_candidates tm_ip tm_value txs) (ip_score_map T m) \<and>
    signer_score_map T m' \<subseteq>\<^sub>m updated_scores (approximate_median_signer_score T m)
      (batch_candidates tm_signer tm_value txs) (signer_score_map T m) \<and>
    map_size (ip_score_map T m') = min (map_size (updated_scores (approximate_median_ip_score T m)
      (batch_candidates tm_ip tm_value txs) (ip_score_map T m))) prune_ips \<and>
    map_size (signer_score_map T m') = min (map_size (updated_scores (approximate_median_signer_score T m)
      (batch_candidates tm_signer tm_value txs) (signer_score_map T m))) prune_signers"
proof -
  note up = update_tables_ok [OF assms]
  from prune_ok [OF assms(1) up(1), of prune_ips prune_signers] show ?thesis
    unfolding update_model_def up(2,3) by metis
qed

definition demo_batch :: "unit QoSTransactionMeta list" where
  "demo_batch = map (\<lambda>n. new_for_tests 7 [1] (of_nat n) 1 ()) [2, 2, 2, 2, 2]"

definition demo_model where
  "demo_model = model_new (alist_trees 6) [(9, Fin 3)] []"

theorem update_model_correct_witness:
  "\<exists>m'. update_model (alist_trees 6) demo_batch 5 1 demo_model = Some m' \<and>
     model_inv (alist_oks 6) (alist_trees 6) m' \<and> map_size (ip_score_map (alist_trees 6) m') \<le> 1"
proof -
  have ok: "model_inv (alist_oks 6) (alist_trees 6) demo_model"
    "ip_score_map (alist_trees 6) demo_model = [9 \<mapsto> Fin 3]"
    "signer_score_map (alist_trees 6) demo_model = Map.empty"
    unfolding demo_model_def
    using model_new_ok [OF alist_model_laws, of "[(9, Fin 3)]" 6 "[]"] by simp_all
  have "room_for (alist_trees 6) 6 6 demo_batch demo_model"
    unfolding room_for_def ok(2,3) by (simp add: new_keys_def demo_batch_def)
  from update_model_correct [OF alist_model_laws ok(1) this, of 5 1] show ?thesis
    by (metis min.cobounded2)
qed

text \<open>
  C20. Any sequence of batches and feedback leaves the product model free of panics, infinities and
  NaN: starting from scores in \<open>[0, 2 ^ K]\<close> and fed values in that range, every later
  \<open>forward\<close> answer is a finite binary64 number between zero and \<open>2 ^ (2 * K)\<close>.
\<close>

theorem model_events_bounded:
  assumes "model_ok NS NI S K Ok T m"
    and "list_all (event_ok (batch_fits NS NI S K) (\<lambda>_. True)) events"
  shows "\<exists>m'. run_events (model_update_model T) (ip_feedback T) events m = Some m' \<and>
    model_ok NS NI S K Ok T m' \<and>
    (\<forall>ip signer. in_range (2 powi K * 2 powi K) (model_forward T m' ip signer))"
  using assms by (rule ip_signer.run_events_total)

theorem model_events_bounded_witness:
  "\<exists>m'. run_events (model_update_model (alist_trees 20)) (ip_feedback (alist_trees 20))
       [Feedback 9, Batch demo_batch (), Feedback 7]
       (model_new (alist_trees 20) [(9, Fin 3)] []) = Some m' \<and>
     (\<forall>ip signer. in_range (2 powi 64 * 2 powi 64) (model_forward (alist_trees 20) m' ip signer))"
proof -
  have "batch_fits 20 20 5 64 demo_batch"
    using value_in_range [of 1 7 "[1]" 2 "()"] by (simp add: batch_fits_def demo_batch_def)
  with model_events_bounded [OF demo_ok, of "[Feedback 9, Batch demo_batch (), Feedback 7]"]
  show ?thesis by fastforce
qed

text \<open>
  C33. Negative feedback: any number of invalid-signature reports for a scored address never raises
  the score of that address with any signer, keeps it a known address, and one report multiplies
  its stored score by 0.01, strictly lowering it when it was positive.
\<close>

theorem ip_feedback_punishes:
  assumes "model_ok NS NI S K Ok T m" and "ip_score_map T m ip = Some (Fin q)"
  shows "model_forward T ((ip_feedback T ip ^^ n) m) ip signer \<le> model_forward T m ip signer \<and>
    ip \<in> dom (ip_score_map T ((ip_feedback T ip ^^ n) m)) \<and>
    ip_score_map T (ip_feedback T ip m) =
      (ip_score_map T m)(ip \<mapsto> f64_mul (Fin q) (f64_lit (1 / 100))) \<and>
    (0 < q \<longrightarrow> f64_mul (Fin q) (f64_lit (1 / 100)) < Fin q)"
proof (intro conjI impI)
  have known: "ip \<in> dom (ip_score_map T m)" using assms(2) by auto
  show "model_forward T ((ip_feedback T ip ^^ n) m) ip signer \<le> model_forward T m ip signer"
    "ip \<in> dom (ip_score_map T ((ip_feedback T ip ^^ n) m))"
    using ip_signer.repeated_feedback [OF assms(1) known] by blast+
  show "ip_score_map T (ip_feedback T ip m) =
      (ip_score_map T m)(ip \<mapsto> f64_mul (Fin q) (f64_lit (1 / 100)))"
    using ip_feedback_ok(3) [OF model_okD(5,6) [OF assms(1)]] assms(2) by (simp add: feedback_factor_def)
  have "representable q"
    using model_okD(7) [OF assms(1)] assms(2) by (auto simp: scores_in_def ran_def in_range_iff)
  then show "f64_mul (Fin q) (f64_lit (1 / 100)) < Fin q" if "0 < q"
    using that feedback_lowers [of q] by (metis feedback_factor_def f64_order_simps(2))
qed

theorem ip_feedback_punishes_witness:
  "f64_mul (Fin 3) (f64_lit (1 / 100)) < Fin 3 \<and>
   model_forward (alist_trees 20)
     ((ip_feedback (alist_trees 20) 9 ^^ 2) (model_new (alist_trees 20) [(9, Fin 3)] [])) 9 [1] \<le>
   model_forward (alist_trees 20) (model_new (alist_trees 20) [(9, Fin 3)] []) 9 [1]"
proof -
  have "ip_score_map (alist_trees 20) (model_new (alist_trees 20) [(9, Fin 3)] []) 9 = Some (Fin 3)"
    using model_new_ok(2) [OF alist_model_laws, of "[(9, Fin 3)]" 20 "[]"] by simp
  from ip_feedback_punishes [OF demo_ok this, of 2 "[1]"] show ?thesis by simp
qed

text \<open>
  Loading: from score lists without repeated keys (and within capacity) \<open>new\<close> builds a model
  that answers each listed key with its score and whose inverse trees mirror the score trees;
  \<open>forward\<close> multiplies the two stored scores.
\<close>

lemma model_new_correct:
  assumes "model_laws NS NI Ok T" "distinct (map fst ipl)" "length ipl \<le> NI"
    "distinct (map fst sgl)" "length sgl \<le> NS"
  shows "model_inv Ok T (model_new T ipl sgl) \<and>
    ip_score_map T (model_new T ipl sgl) = map_of ipl \<and>
    signer_score_map T (model_new T ipl sgl) = map_of sgl \<and>
    ((ip, a) \<in> set ipl \<and> (signer, b) \<in> set sgl \<longrightarrow>
      model_forward T (model_new T ipl sgl) ip signer = f64_mul a b)"
  using model_new_ok [OF assms] assms(2,4)
  by (auto simp: model_forward_def ip_score_or_median_def signer_score_or_median_def)

lemma model_new_correct_witness:
  "model_forward (alist_trees 4) (model_new (alist_trees 4) [(9, Fin 3), (8, Fin 1)] [([1], Fin 2)]) 9 [1] =
     f64_mul (Fin 3) (Fin 2)"
  using model_new_correct [OF alist_model_laws, of "[(9, Fin 3), (8, Fin 1)]" 4 "[([1], Fin 2)]" 9 "Fin 3" "[1]" "Fin 2"]
  by simp

text \<open>
  A model without scores answers every query with one: \<open>forward\<close> does not panic on empty
  tables, although its doc comment says so.
\<close>

lemma forward_of_empty_model:
  assumes "model_laws NS NI Ok T"
  shows "model_forward T (model_new T [] []) ip signer = Fin 1"
proof -
  note new = model_new_ok [OF assms, of "[]" "[]", simplified]
  have "approximate_median_ip_score T (model_new T [] []) = ONE"
    "approximate_median_signer_score T (model_new T [] []) = ONE"
    using median_cases [OF model_lawsD(2) [OF assms] model_invD(2) [OF new(1)]]
      median_cases [OF model_lawsD(1) [OF assms] model_invD(1) [OF new(1)]] new(2,3)
    by (auto simp: approximate_median_ip_score_def approximate_median_signer_score_def)
  moreover have "round_f64 1 = Fin 1"
    using representable_pow2 [of 0] round_mag_representable [of 1] by (simp add: round_f64_def)
  ultimately show ?thesis
    using new(2,3) by (simp add: model_forward_def ip_score_or_median_def signer_score_or_median_def ONE_def)
qed

lemma forward_of_empty_model_witness:
  "model_forward (alist_trees 4) (model_new (alist_trees 4) [] []) 9 [1] = Fin 1"
  by (rule forward_of_empty_model [OF alist_model_laws])

text \<open>
  \<open>new\<close> does not clear the old inverse entry of a key that the input lists twice (unlike
  \<open>add_ip_score\<close>): both entries stay in the inverse tree and the mirror invariant is lost.
\<close>

lemma new_with_repeated_key_not_mirrored:
  assumes laws: "model_laws NS NI Ok T" and cap: "2 \<le> NI" and "s \<noteq> s'"
  shows "ip_score_map T (model_new T [(ip, s), (ip, s')] []) ip = Some s' \<and>
    InverseScoreEntry s ip \<in>
      dom (t_get (ip_inverse_tree T) (ip_score_inverse (model_new T [(ip, s), (ip, s')] []))) \<and>
    \<not> model_inv Ok T (model_new T [(ip, s), (ip, s')] [])"
proof -
  let ?M = "ip_tree T" and ?V = "ip_inverse_tree T"
  let ?m1 = "t_insert ?M ip s (t_new ?M)" and ?v1 = "t_insert ?V (InverseScoreEntry s ip) () (t_new ?V)"
  let ?m = "model_new T [(ip, s), (ip, s')] []"
  from model_lawsD(2) [OF laws] have LM: "tree_laws NI (ok_ip Ok) ?M" and LV: "tree_laws NI (ok_ip_inverse Ok) ?V"
    by (simp_all add: tables_ok_def)
  have m1: "ok_ip Ok ?m1" "t_get ?M ?m1 = [ip \<mapsto> s]"
    using tree_insert [OF LM tree_new(1) [OF LM], of ip s] tree_new [OF LM] cap by auto
  have v1: "ok_ip_inverse Ok ?v1" "t_get ?V ?v1 = [InverseScoreEntry s ip \<mapsto> ()]"
    using tree_insert [OF LV tree_new(1) [OF LV], of "InverseScoreEntry s ip" "()"] tree_new [OF LV] cap by auto
  have "t_get ?M (t_insert ?M ip s' ?m1) = [ip \<mapsto> s']"
    using tree_insert(2) [OF LM m1(1), of ip s'] by (simp add: m1(2))
  moreover have "dom (t_get ?V (t_insert ?V (InverseScoreEntry s' ip) () ?v1)) =
      {InverseScoreEntry s ip, InverseScoreEntry s' ip}"
    using tree_insert(2) [OF LV v1(1), of "InverseScoreEntry s' ip" "()"] cap by (auto simp: v1(2))
  ultimately have "ip_score_map T ?m = [ip \<mapsto> s']"
    "dom (t_get ?V (ip_score_inverse ?m)) = {InverseScoreEntry s ip, InverseScoreEntry s' ip}"
    by (simp_all add: model_new_def load_scores_def)
  then show ?thesis using assms(3) by (auto simp: model_inv_def table_inv_def mirrored_def)
qed

lemma new_with_repeated_key_not_mirrored_witness:
  "\<not> model_inv (alist_oks 4) (alist_trees 4) (model_new (alist_trees 4) [(9, Fin 1), (9, Fin 2)] [])"
  using new_with_repeated_key_not_mirrored [OF alist_model_laws, of 4 "Fin 1" "Fin 2" 9] by simp

end
