(* ===== verification/Packet_Processor.thy ===== *)
theory Packet_Processor
  imports Wire_Data LRU_Interface Ip_Signer_Model
begin

text \<open>
  The packet processor of qos-core/src/lib.rs: validation, parsing, duplicate and recency filters,
  fee computation and scoring of one packet. Parsing is done by the external crate
  \<open>agave_transaction_view\<close>; the record \<open>view_ops\<close> holds the calls the processor makes to it (and to
  \<open>Packet::data\<close>), and \<open>view_laws\<close> states what the code relies on: a sanitized transaction has at
  least one signature, and signatures have 64 bytes.

  The outer \<open>option\<close> of \<open>try_process_packet\<close> is \<open>None\<close> for a panic or undefined behaviour; inside it
  every error of the source is a value of \<open>PacketProcessorError\<close>.
\<close>

section \<open>Parsed transactions\<close>

record Instruction =
  program_id_index :: u8
  ix_data :: "u8 list"

record ('v, 'tx) view_ops =
  packet_data :: "Packet \<Rightarrow> u8 list option"
  try_new_unsanitized :: "u8 list \<Rightarrow> 'v option"
  sanitize :: "'v \<Rightarrow> 'tx option"
  tx_signatures :: "'tx \<Rightarrow> u8 list list"
  static_account_keys :: "'tx \<Rightarrow> pubkey list"
  tx_instructions :: "'tx \<Rightarrow> Instruction list"
  compute_budget_id :: pubkey

definition view_laws :: "('v, 'tx) view_ops \<Rightarrow> bool" where
  "view_laws W \<longleftrightarrow>
     (\<forall>v tx. sanitize W v = Some tx \<longrightarrow>
        tx_signatures W tx \<noteq> [] \<and> (\<forall>s \<in> set (tx_signatures W tx). length s = 64))"

section \<open>Fees\<close>

record CaveyTransactionFee =
  fee_cu_price :: u64
  fee_total_fee :: u64
  fee_requested_cus :: u32

record fee_scan =
  scan_cus :: "u32 option"
  scan_price :: "u64 option"
  scan_duplicate :: bool

definition SET_CU_LIMIT :: u8 where "SET_CU_LIMIT = 2"

definition SET_CU_PRICE :: u8 where "SET_CU_PRICE = 3"

definition slice_get :: "'a list \<Rightarrow> nat \<Rightarrow> 'a option" where
  "slice_get xs i = (if i < length xs then Some (xs ! i) else None)"

definition fee_payer :: "('v, 'tx) view_ops \<Rightarrow> 'tx \<Rightarrow> pubkey option" where
  "fee_payer W tx = slice_get (static_account_keys W tx) 0"

definition scan_instruction :: "Instruction \<Rightarrow> fee_scan \<Rightarrow> fee_scan" where
  "scan_instruction cbi st =
     (if length (ix_data cbi) = 5 \<and> ix_data cbi ! 0 = SET_CU_LIMIT then
        if scan_cus st \<noteq> None then st\<lparr>scan_duplicate := True\<rparr>
        else st\<lparr>scan_cus := Some (from_le_bytes (take 4 (drop 1 (ix_data cbi))))\<rparr>
      else if length (ix_data cbi) = 9 \<and> ix_data cbi ! 0 = SET_CU_PRICE then
        if scan_price st \<noteq> None then st\<lparr>scan_duplicate := True\<rparr>
        else st\<lparr>scan_price := Some (from_le_bytes (take 8 (drop 1 (ix_data cbi))))\<rparr>
      else st)"

definition scan_instructions :: "('v, 'tx) view_ops \<Rightarrow> 'tx \<Rightarrow> fee_scan" where
  "scan_instructions W tx =
     fold scan_instruction
       (filter (\<lambda>ix. slice_get (static_account_keys W tx) (unat (program_id_index ix)) = Some (compute_budget_id W))
         (take 8 (tx_instructions W tx)))
       \<lparr>scan_cus = None, scan_price = None, scan_duplicate = False\<rparr>"

definition u64_max :: u64 where "u64_max = - 1"

definition fee_of :: "u32 \<Rightarrow> u64 \<Rightarrow> nat \<Rightarrow> u64" where
  "fee_of requested_cus cu_price num_signatures =
     (let signature_cost = 5000 * (of_nat num_signatures :: u64);
          priority_fee = min ((ucast requested_cus * ucast cu_price :: u128) div 1000000) (ucast u64_max)
      in signature_cost + ucast priority_fee)"

definition total_fee :: "('v, 'tx) view_ops \<Rightarrow> 'tx \<Rightarrow> CaveyTransactionFee" where
  "total_fee W tx =
     (let scan = scan_instructions W tx;
          requested_cus = (case scan_cus scan of Some c \<Rightarrow> c | None \<Rightarrow> 200000);
          cu_price = (case scan_price scan of Some p \<Rightarrow> p | None \<Rightarrow> 0)
      in \<lparr>fee_cu_price = cu_price,
          fee_total_fee = fee_of requested_cus cu_price (length (tx_signatures W tx)),
          fee_requested_cus = requested_cus\<rparr>)"

section \<open>Processing one packet\<close>

datatype PacketProcessorError =
  AddrNotIpv4 | NonTransactionPacket | FailedTransactionView | FailedSanitize | InvalidMetadata
  | DuplicatePacket | RecentlyProcessed

type_synonym sig_cache = "(u64, unit) LRUCache"
type_synonym meta_cache = "(u64, QoSPartialMeta) LRUCache"

definition packet_score :: "f64 \<Rightarrow> QoSPartialMeta \<Rightarrow> f64" where
  "packet_score model_score pm =
     f64_mul model_score (f64_div (f64_of_u64 (pm_total_fee pm)) (f64_of_u32 (max (pm_cus pm) 1)))"

definition try_process_packet ::
  "('v, 'tx) view_ops \<Rightarrow> ('ms, 'mi, 'vs, 'vi) model_trees \<Rightarrow> (u8 list \<Rightarrow> u64) \<Rightarrow> nat
     \<Rightarrow> Packet \<Rightarrow> sig_cache option
     \<Rightarrow> ('ms, 'mi, 'vs, 'vi) IpSignerModel \<Rightarrow> meta_cache \<Rightarrow> Stats
     \<Rightarrow> ((PacketProcessorError + ScoredTransaction)
          \<times> ('ms, 'mi, 'vs, 'vi) IpSignerModel \<times> meta_cache \<times> Stats) option" where
  "try_process_packet W T hash CACHE_SIZE packet recent_signatures model metas stats =
     (let stats = stats\<lparr>total_packets := total_packets stats + 1\<rparr>;
          m = packet_meta packet
      in case meta_addr m of
        V6 _ \<Rightarrow> Some (Inl AddrNotIpv4, model, metas, stats\<lparr>non_ipv4 := non_ipv4 stats + 1\<rparr>)
      | V4 ipv4 \<Rightarrow>
          if of_nat PACKET_DATA_SIZE < meta_size m then
            Some (Inl InvalidMetadata, model, metas, stats\<lparr>invalid_meta_size := invalid_meta_size stats + 1\<rparr>)
          else
            (case map_option (try_new_unsanitized W) (packet_data W packet) of
               None \<Rightarrow>
                 Some (Inl NonTransactionPacket, model, metas,
                   stats\<lparr>invalid_packet_data := invalid_packet_data stats + 1\<rparr>)
             | Some None \<Rightarrow>
                 Some (Inl FailedTransactionView, ip_feedback T (ip_to_bits ipv4) model, metas,
                   stats\<lparr>failed_view := failed_view stats + 1\<rparr>)
             | Some (Some unsanitized) \<Rightarrow>
                 (case sanitize W unsanitized of
                    None \<Rightarrow>
                      Some (Inl FailedSanitize, model, metas,
                        stats\<lparr>failed_sanitize := failed_sanitize stats + 1\<rparr>)
                  | Some transaction \<Rightarrow> do {
                      signature \<leftarrow> slice_get (tx_signatures W transaction) 0;
                      let sig_key = u64_key signature;
                      if (case recent_signatures of None \<Rightarrow> False | Some rs \<Rightarrow> lru_contains rs sig_key) then
                        Some (Inl RecentlyProcessed, model, metas,
                          stats\<lparr>recently_processed := recently_processed stats + 1\<rparr>)
                      else
                        (case fee_payer W transaction of
                           None \<Rightarrow>
                             Some (Inl InvalidMetadata, model, metas,
                               stats\<lparr>invalid_packet_data := invalid_packet_data stats + 1\<rparr>)
                         | Some payer \<Rightarrow> do {
                             let tx_fee = total_fee W transaction;
                             let partial_meta =
                               partial_meta_new ipv4 payer (fee_total_fee tx_fee) (fee_requested_cus tx_fee);
                             let score = packet_score
                               (model_forward T model (pm_ip partial_meta) (pm_signer partial_meta)) partial_meta;
                             packet_key \<leftarrow> packet_hash hash packet;
                             ((evicted, duplicate), metas) \<leftarrow> lru_put CACHE_SIZE packet_key partial_meta metas;
                             if evicted = None \<and> duplicate then
                               Some (Inl DuplicatePacket, model, metas,
                                 stats\<lparr>duplicate_packets := duplicate_packets stats + 1\<rparr>)
                             else
                               Some (Inr \<lparr>st_score = score, st_sig_key = sig_key, st_packet = packet,
                                          st_ipv4 = ip_key ipv4\<rparr>, model, metas, stats)
                           })
                    })))"

datatype PageSize = Huge | Standard

definition get_page_size :: "bool \<Rightarrow> PageSize" where
  "get_page_size use_huge_pages = (if use_huge_pages then Huge else Standard)"

section \<open>Fee arithmetic\<close>

lemma unat_ucast_u128:
  "unat (ucast (x :: u64) :: u128) = unat x" "unat (ucast (c :: u32) :: u128) = unat c"
  using unsigned_less [where w = x and 'a = nat] unsigned_less [where w = c and 'a = nat]
  by (simp_all add: unsigned_ucast_eq take_bit_nat_eq_self)

lemma unat_u64_max: "unat u64_max = 2 ^ 64 - 1"
  by (simp add: u64_max_def unsigned_minus_1_eq_mask mask_eq_exp_minus_1)

lemma product_fits: "unat (c :: u32) * unat (p :: u64) < 2 ^ 128"
proof -
  have "unat c * unat p \<le> 2 ^ 32 * 2 ^ 64"
    using unsigned_less [where w = c and 'a = nat] unsigned_less [where w = p and 'a = nat]
    by (intro mult_le_mono) simp_all
  then show ?thesis by simp
qed

definition priority_fee :: "nat \<Rightarrow> nat \<Rightarrow> nat" where
  "priority_fee cus price = min (cus * price div 1000000) (2 ^ 64 - 1)"

lemma fee_of_nat:
  "unat (fee_of c p n) = (5000 * n + priority_fee (unat c) (unat p)) mod 2 ^ 64"
proof -
  let ?prod = "ucast c * ucast p :: u128"
  have "unat ?prod = unat c * unat p"
    using product_fits [of c p] by (simp add: unat_word_ariths unat_ucast_u128)
  then have "unat (?prod div 1000000) = unat c * unat p div 1000000"
    by (simp add: unat_div)
  then have min: "unat (min (?prod div 1000000) (ucast u64_max)) = priority_fee (unat c) (unat p)"
    by (auto simp: min_def word_le_nat_alt unat_ucast_u128 unat_u64_max priority_fee_def)
  have "unat (ucast (min (?prod div 1000000) (ucast u64_max)) :: u64) = priority_fee (unat c) (unat p)"
    unfolding unsigned_ucast_eq min by (simp add: take_bit_nat_eq_self priority_fee_def min_def)
  then show ?thesis
    by (simp add: fee_of_def Let_def unat_word_ariths unat_of_nat mod_simps)
qed

section \<open>Outcomes of processing\<close>

lemma packet_score_in_range:
  assumes "in_range B x" and "representable (B * 2 powi 64)"
  shows "in_range (B * 2 powi 64) (packet_score x pm)"
proof -
  have "in_range (2 powi 64) (f64_div (f64_of_u64 (pm_total_fee pm)) (f64_of_u32 (max (pm_cus pm) 1)))"
    unfolding f64_of_u64_def f64_of_u32_def
  proof (rule f64_nat_quotient_in_range)
    show "unat (pm_total_fee pm) < 2 ^ 64"
      using unsigned_less [where w = "pm_total_fee pm" and 'a = nat] by simp
    have "1 \<le> max (pm_cus pm) 1" by simp
    then show "1 \<le> unat (max (pm_cus pm) 1)" by (simp only: word_le_nat_alt unsigned_1)
    show "unat (max (pm_cus pm) 1) < 2 ^ 64"
      using unsigned_less [where w = "max (pm_cus pm) 1" and 'a = nat] by simp
  qed
  from mul_in_range [OF assms(1) this assms(2)] show ?thesis by (simp only: packet_score_def)
qed

definition not_recent :: "sig_cache option \<Rightarrow> u64 \<Rightarrow> bool" where
  "not_recent recent k \<longleftrightarrow> (case recent of None \<Rightarrow> True | Some rs \<Rightarrow> \<not> lru_contains rs k)"

definition accepted_ok :: "(u8 list \<Rightarrow> u64) \<Rightarrow> rat \<Rightarrow> Packet \<Rightarrow> sig_cache option
    \<Rightarrow> 'm \<Rightarrow> meta_cache \<Rightarrow> 'm \<Rightarrow> meta_cache \<Rightarrow> ScoredTransaction \<Rightarrow> bool" where
  "accepted_ok hash B packet recent m metas m' metas' st \<longleftrightarrow>
     m' = m \<and> st_packet st = packet \<and> in_range B (st_score st) \<and> not_recent recent (st_sig_key st) \<and>
     (\<exists>ip. meta_addr (packet_meta packet) = V4 ip \<and> st_ipv4 st = ip_key ip \<and>
        \<not> lru_contains metas (hash (preimage_of packet ip)) \<and>
        lru_contains metas' (hash (preimage_of packet ip)))"

definition meta_for :: "('v, 'tx) view_ops \<Rightarrow> Ipv4Addr \<Rightarrow> pubkey \<Rightarrow> 'tx \<Rightarrow> QoSPartialMeta" where
  "meta_for W ip payer tx =
     partial_meta_new ip payer (fee_total_fee (total_fee W tx)) (fee_requested_cus (total_fee W tx))"

abbreviation counted :: "Stats \<Rightarrow> Stats" where
  "counted stats \<equiv> stats\<lparr>total_packets := total_packets stats + 1\<rparr>"

lemma process_cases:
  assumes W: "view_laws W" and lru: "lru_inv N metas"
    and len: "length (packet_buffer packet) = PACKET_DATA_SIZE"
  obtains
    (v6) x where "meta_addr (packet_meta packet) = V6 x"
      "try_process_packet W T hash N packet recent m metas stats =
        Some (Inl AddrNotIpv4, m, metas, (counted stats)\<lparr>non_ipv4 := non_ipv4 stats + 1\<rparr>)"
  | (oversize) ip where "meta_addr (packet_meta packet) = V4 ip"
      "\<not> packet_ok packet"
      "try_process_packet W T hash N packet recent m metas stats =
        Some (Inl InvalidMetadata, m, metas, (counted stats)\<lparr>invalid_meta_size := invalid_meta_size stats + 1\<rparr>)"
  | (no_data) ip where "meta_addr (packet_meta packet) = V4 ip" "packet_ok packet" "packet_data W packet = None"
      "try_process_packet W T hash N packet recent m metas stats =
        Some (Inl NonTransactionPacket, m, metas,
          (counted stats)\<lparr>invalid_packet_data := invalid_packet_data stats + 1\<rparr>)"
  | (bad_view) ip d where "meta_addr (packet_meta packet) = V4 ip" "packet_ok packet"
      "packet_data W packet = Some d" "try_new_unsanitized W d = None"
      "try_process_packet W T hash N packet recent m metas stats =
        Some (Inl FailedTransactionView, ip_feedback T (ip_to_bits ip) m, metas,
          (counted stats)\<lparr>failed_view := failed_view stats + 1\<rparr>)"
  | (unsane) ip d u where "meta_addr (packet_meta packet) = V4 ip" "packet_ok packet"
      "packet_data W packet = Some d" "try_new_unsanitized W d = Some u" "sanitize W u = None"
      "try_process_packet W T hash N packet recent m metas stats =
        Some (Inl FailedSanitize, m, metas, (counted stats)\<lparr>failed_sanitize := failed_sanitize stats + 1\<rparr>)"
  | (recent) ip d u tx sig where "meta_addr (packet_meta packet) = V4 ip" "packet_ok packet"
      "packet_data W packet = Some d" "try_new_unsanitized W d = Some u" "sanitize W u = Some tx"
      "slice_get (tx_signatures W tx) 0 = Some sig" "\<not> not_recent recent (u64_key sig)"
      "try_process_packet W T hash N packet recent m metas stats =
        Some (Inl RecentlyProcessed, m, metas,
          (counted stats)\<lparr>recently_processed := recently_processed stats + 1\<rparr>)"
  | (no_payer) ip d u tx sig where "meta_addr (packet_meta packet) = V4 ip" "packet_ok packet"
      "packet_data W packet = Some d" "try_new_unsanitized W d = Some u" "sanitize W u = Some tx"
      "slice_get (tx_signatures W tx) 0 = Some sig" "not_recent recent (u64_key sig)"
      "fee_payer W tx = None"
      "try_process_packet W T hash N packet recent m metas stats =
        Some (Inl InvalidMetadata, m, metas,
          (counted stats)\<lparr>invalid_packet_data := invalid_packet_data stats + 1\<rparr>)"
  | (scored) ip d u tx sig payer ev dup metas' where "meta_addr (packet_meta packet) = V4 ip" "packet_ok packet"
      "packet_data W packet = Some d" "try_new_unsanitized W d = Some u" "sanitize W u = Some tx"
      "slice_get (tx_signatures W tx) 0 = Some sig" "not_recent recent (u64_key sig)"
      "fee_payer W tx = Some payer"
      "lru_put N (hash (preimage_of packet ip)) (meta_for W ip payer tx) metas = Some ((ev, dup), metas')"
      "lru_inv N metas'" "dup \<longleftrightarrow> lru_contains metas (hash (preimage_of packet ip))"
      "lru_contains metas' (hash (preimage_of packet ip))"
      "try_process_packet W T hash N packet recent m metas stats =
        Some (if dup
          then (Inl DuplicatePacket, m, metas',
                (counted stats)\<lparr>duplicate_packets := duplicate_packets stats + 1\<rparr>)
          else (Inr \<lparr>st_score = packet_score (model_forward T m (ip_key ip) payer) (meta_for W ip payer tx),
                     st_sig_key = u64_key sig, st_packet = packet, st_ipv4 = ip_key ip\<rparr>,
                m, metas', counted stats))"
proof (cases "meta_addr (packet_meta packet)")
  case (V6 x)
  then show ?thesis by (intro v6) (simp_all add: try_process_packet_def Let_def)
next
  case ip: (V4 ip)
  show ?thesis
  proof (cases "of_nat PACKET_DATA_SIZE < meta_size (packet_meta packet)")
    case True
    then have "\<not> packet_ok packet" by (simp add: packet_ok_def word_less_nat_alt PACKET_DATA_SIZE_def)
    with True ip show ?thesis by (intro oversize) (simp_all add: try_process_packet_def Let_def)
  next
    case size: False
    then have pok: "packet_ok packet"
      using len by (simp add: packet_ok_def not_less word_le_nat_alt PACKET_DATA_SIZE_def)
    note start = ip size and hash_eq = packet_hash_eq [OF pok ip, of hash]
    show ?thesis
    proof (cases "packet_data W packet")
      case None
      with start pok show ?thesis by (intro no_data) (simp_all add: try_process_packet_def Let_def)
    next
      case d: (Some d)
      show ?thesis
      proof (cases "try_new_unsanitized W d")
        case None
        with start pok d show ?thesis by (intro bad_view) (simp_all add: try_process_packet_def Let_def)
      next
        case u: (Some u)
        show ?thesis
        proof (cases "sanitize W u")
          case None
          with start pok d u show ?thesis by (intro unsane) (simp_all add: try_process_packet_def Let_def)
        next
          case tx: (Some tx)
          with W obtain sig where sig: "slice_get (tx_signatures W tx) 0 = Some sig"
            by (auto simp: view_laws_def slice_get_def)
          note parsed = start pok d u tx sig
          show ?thesis
          proof (cases "not_recent recent (u64_key sig)")
            case False
            with parsed show ?thesis
              by (intro recent [OF ip pok d u tx sig])
                (auto simp: try_process_packet_def Let_def not_recent_def split: option.splits)
          next
            case fresh: True
            show ?thesis
            proof (cases "fee_payer W tx")
              case None
              with parsed fresh show ?thesis
                by (intro no_payer [OF ip pok d u tx sig])
                  (auto simp: try_process_packet_def Let_def not_recent_def split: option.splits)
            next
              case payer: (Some payer)
              let ?pm = "meta_for W ip payer tx" and ?h = "hash (preimage_of packet ip)"
              obtain ev dup metas' where put: "lru_put N ?h ?pm metas = Some ((ev, dup), metas')" "lru_inv N metas'"
                using lru.put_ok [OF lru, of ?h ?pm] by (auto simp: prod_eq_iff)
              have "ev = None" if dup
                using that put(1) by (cases rule: lru.put_cases [OF lru, of ?h ?pm]) auto
              then show ?thesis
                using parsed fresh payer put hash_eq lru.put_flag [OF lru put(1)] lru.put_get_same [OF lru put(1)]
                by (intro scored [OF ip pok d u tx sig fresh payer put])
                  (auto simp: try_process_packet_def Let_def not_recent_def meta_for_def partial_meta_new_def
                    split: option.splits)
            qed
          qed
        qed
      qed
    qed
  qed
qed

lemma process_ok:
  assumes W: "view_laws W" and ok: "model_ok NS NI S K Ok T m" and lru: "lru_inv N metas"
    and len: "length (packet_buffer packet) = PACKET_DATA_SIZE"
  shows "\<exists>r m' metas' stats'.
    try_process_packet W T hash N packet recent m metas stats = Some (r, m', metas', stats') \<and>
    model_ok NS NI S K Ok T m' \<and> lru_inv N metas' \<and>
    (case r of Inl e \<Rightarrow> True
     | Inr st \<Rightarrow> accepted_ok hash (2 powi K * 2 powi K * 2 powi 64) packet recent m metas m' metas' st)"
  using W lru len
proof (cases rule: process_cases [where T = T and hash = hash and recent = recent and m = m and stats = stats])
  case (bad_view ip d)
  then show ?thesis using ok lru ip_feedback_model_ok [OF ok] by auto
next
  case (scored ip d u tx sig payer ev dup metas')
  have "(2::rat) powi (K + K + 64) = 2 powi K * 2 powi K * 2 powi 64"
    by (simp only: power_int_add zero_neq_numeral [symmetric] not_False_eq_True simp_thms)
  moreover have "representable (2 powi (K + K + 64))"
    using model_okD(1,2) [OF ok] by (intro representable_pow2) simp_all
  ultimately have "representable (2 powi K * 2 powi K * 2 powi 64)" by (simp only:)
  from packet_score_in_range [OF model_forward_in_range [OF ok] this]
  show ?thesis using scored ok by (cases dup) (auto simp: accepted_ok_def)
qed (use ok lru in auto)

section \<open>A concrete parser\<close>

text \<open>
  A parser for concrete runs: the first byte of the payload is that of the signature, empty payloads do
  not parse, and the fee payer is fixed.
\<close>

definition demo_view :: "(u8 list, u8 list) view_ops" where
  "demo_view =
     \<lparr>packet_data = (\<lambda>p. Some (take (unat (meta_size (packet_meta p))) (packet_buffer p))),
      try_new_unsanitized = (\<lambda>bytes. if bytes = [] then None else Some bytes),
      sanitize = (\<lambda>v. if v = [] then None else Some v),
      tx_signatures = (\<lambda>tx. [hd tx # replicate 63 0]),
      static_account_keys = (\<lambda>tx. [[1], [9]]),
      tx_instructions = (\<lambda>tx. [\<lparr>program_id_index = 1, ix_data = tl tx\<rparr>]),
      compute_budget_id = [9]\<rparr>"

lemma demo_view_laws: "view_laws demo_view"
  by (auto simp: view_laws_def demo_view_def)

lemma demo_packet_buffer:
  "length payload \<le> PACKET_DATA_SIZE \<Longrightarrow> length (packet_buffer (demo_packet payload ip port)) = PACKET_DATA_SIZE"
  by (simp add: demo_packet_def)

lemma demo_process:
  assumes "0 < N" and fresh: "not_recent recent (u64_key (7 # replicate 63 0))"
  obtains st m' metas' stats' where
    "try_process_packet demo_view T from_le_bytes N (demo_packet [7] (Ipv4Addr 10 0 0 1) 80) recent m (lru_new N) stats =
       Some (Inr st, m', metas', stats')"
proof -
  let ?p = "demo_packet [7] (Ipv4Addr 10 0 0 1) 80"
  have lru: "lru_inv N (lru_new N :: meta_cache)" "entries (lru_new N :: meta_cache) = []"
    using assms(1) by (simp_all add: lru_new_inv lru_new_entries)
  have len: "length (packet_buffer ?p) = PACKET_DATA_SIZE"
    by (rule demo_packet_buffer) (simp add: PACKET_DATA_SIZE_def)
  have none: "\<not> lru_contains (lru_new N :: meta_cache) k" for k
    using lru.contains_ok [OF lru(1), of k] lru(2) by simp
  have d: "packet_data demo_view ?p = Some [7]"
    by (simp add: demo_view_def demo_packet_def)
  show thesis
    by (cases rule: process_cases [OF demo_view_laws lru(1) len, where T = T
          and hash = from_le_bytes and recent = recent and m = m and stats = stats])
      (use d none that fresh in \<open>auto simp: demo_packet_def demo_view_def fee_payer_def slice_get_def
        PACKET_DATA_SIZE_def packet_ok_def\<close>)
qed

lemma demo_accepted:
  obtains st m' metas' stats' where
    "try_process_packet demo_view (alist_trees 20) from_le_bytes 4 (demo_packet [7] (Ipv4Addr 10 0 0 1) 80) None
       (model_new (alist_trees 20) [] []) (lru_new 4) Stats_new = Some (Inr st, m', metas', stats')"
  by (rule demo_process [where N = 4 and T = "alist_trees 20" and recent = None]) (simp_all add: not_recent_def)

section \<open>Properties\<close>

text \<open>
  C11. Processing any packet is free of panics and unchecked accesses, keeps the model and the
  metadata cache well-formed, and accepts a packet only if its sender is IPv4, its signature was
  not recently processed and its hash was not cached; the accepted transaction carries a finite,
  non-negative score, and its metadata is cached under the packet hash.
\<close>

theorem process_packet_sound:
  assumes W: "view_laws W" and ok: "model_ok NS NI S K Ok T m" and lru: "lru_inv N metas"
    and len: "length (packet_buffer packet) = PACKET_DATA_SIZE"
  shows "\<exists>r m' metas' stats'.
    try_process_packet W T hash N packet recent m metas stats = Some (r, m', metas', stats') \<and>
    model_ok NS NI S K Ok T m' \<and> lru_inv N metas' \<and>
    (case r of Inl e \<Rightarrow> True
     | Inr st \<Rightarrow> accepted_ok hash (2 powi K * 2 powi K * 2 powi 64) packet recent m metas m' metas' st)"
  using assms by (rule process_ok)

theorem process_packet_sound_witness:
  "\<exists>r m' metas' stats'.
     try_process_packet demo_view (alist_trees 20) from_le_bytes 4 (demo_packet [7] (Ipv4Addr 10 0 0 1) 80) None
       (model_new (alist_trees 20) [(9, Fin 3)] []) (lru_new 4) Stats_new = Some (r, m', metas', stats') \<and>
     lru_inv 4 metas'"
proof -
  have lru: "lru_inv 4 (lru_new 4 :: meta_cache)" by (rule lru_new_inv) simp
  have len: "length (packet_buffer (demo_packet [7] (Ipv4Addr 10 0 0 1) 80)) = PACKET_DATA_SIZE"
    by (rule demo_packet_buffer) (simp add: PACKET_DATA_SIZE_def)
  from process_packet_sound [OF demo_view_laws demo_ok lru len, of from_le_bytes None Stats_new]
  show ?thesis by blast
qed

text \<open>The sum of the seven rejection counters.\<close>

definition rejected :: "Stats \<Rightarrow> usize" where
  "rejected stats = non_ipv4 stats + invalid_meta_size stats + invalid_packet_data stats + failed_view stats +
     failed_sanitize stats + recently_processed stats + duplicate_packets stats"

text \<open>
  The counters account for every packet: each call counts one packet in total and, exactly when
  it returns an error, one packet in one of the seven rejection counters.
\<close>

lemma process_packet_counts:
  assumes "view_laws W" "lru_inv N metas" "length (packet_buffer packet) = PACKET_DATA_SIZE"
    and "try_process_packet W T hash N packet recent m metas stats = Some (r, m', metas', stats')"
  shows "total_packets stats' = total_packets stats + 1 \<and>
    rejected stats' = rejected stats + (case r of Inl _ \<Rightarrow> 1 | Inr _ \<Rightarrow> 0)"
  using assms(4)
  by (cases rule: process_cases [OF assms(1-3), where T = T and hash = hash and recent = recent and m = m
      and stats = stats]) (auto simp: rejected_def split: if_splits)

lemma process_packet_counts_witness:
  "\<exists>r m' metas' stats'.
     try_process_packet demo_view (alist_trees 20) from_le_bytes 4 (demo_packet [] (Ipv4Addr 10 0 0 1) 80) None
       (model_new (alist_trees 20) [] []) (lru_new 4) Stats_new = Some (r, m', metas', stats') \<and>
     total_packets stats' = 1"
proof -
  let ?p = "demo_packet [] (Ipv4Addr 10 0 0 1) 80" and ?m = "model_new (alist_trees 20) [] []"
  have lru: "lru_inv 4 (lru_new 4 :: meta_cache)" by (rule lru_new_inv) simp
  have len: "length (packet_buffer ?p) = PACKET_DATA_SIZE" by (rule demo_packet_buffer) simp
  obtain r m' metas' stats' where run: "try_process_packet demo_view (alist_trees 20) from_le_bytes 4 ?p None ?m
      (lru_new 4) Stats_new = Some (r, m', metas', stats')"
    by (cases rule: process_cases [OF demo_view_laws lru len, where T = "alist_trees 20"
          and hash = from_le_bytes and recent = None and m = ?m and stats = Stats_new])
      (auto split: if_splits)
  with process_packet_counts [OF demo_view_laws lru len run] show ?thesis by (auto simp: Stats_new_def)
qed

text \<open>
  A packet with the contents of an accepted one is a duplicate while its hash is in the cache and the recent signatures
  are the same.
\<close>

lemma same_packet_hash:
  assumes "packet_buffer p = packet_buffer q" "meta_size (packet_meta p) = meta_size (packet_meta q)"
    "meta_addr (packet_meta p) = meta_addr (packet_meta q)"
  shows "packet_hash hash p = packet_hash hash q"
  by (simp only: packet_hash_def write_packet_meta_bytes_def assms)

lemma known_packet_is_duplicate:
  assumes W: "view_laws W" and lru: "lru_inv N metas" "lru_inv N metas2"
    and len: "length (packet_buffer packet) = PACKET_DATA_SIZE"
    and first: "try_process_packet W T hash N packet recent m metas stats = Some (Inr st, m', metas', stats')"
    and same: "packet_buffer resent = packet_buffer packet" "meta_size (packet_meta resent) = meta_size (packet_meta packet)"
      "meta_addr (packet_meta resent) = meta_addr (packet_meta packet)" "packet_data W resent = packet_data W packet"
    and h: "packet_hash hash packet = Some h" and known: "lru_contains metas2 h"
  shows "\<exists>metas''. try_process_packet W T hash N resent recent m2 metas2 stats2 =
      Some (Inl DuplicatePacket, m2, metas'', (counted stats2)\<lparr>duplicate_packets := duplicate_packets stats2 + 1\<rparr>) \<and>
    lru_inv N metas'' \<and> lru_contains metas'' h"
  using W lru(1) len
proof (cases rule: process_cases [where T = T and hash = hash and recent = recent and m = m and stats = stats])
  case (scored ip d u tx sig payer ev dup metas1)
  note facts = scored
  have len2: "length (packet_buffer resent) = PACKET_DATA_SIZE" using len same(1) by simp
  have pre: "preimage_of resent ip = preimage_of packet ip" using same by (simp add: preimage_of_def)
  have key: "h = hash (preimage_of packet ip)" using h packet_hash_eq [OF facts(2,1), of hash] by simp
  show ?thesis
    using W lru(2) len2
  proof (cases rule: process_cases [where T = T and hash = hash and recent = recent and m = m2 and stats = stats2])
    case (scored ip' d' u' tx' sig' payer' ev' dup' metas2)
    with facts(1) same(3) have "ip' = ip" by simp
    with scored pre key known show ?thesis by auto
  qed (use facts same in \<open>auto simp: packet_ok_def\<close>)
qed (use first in auto)

text \<open>
  C37. A packet that does not parse lowers the score of the octet-reversed address: unless the
  sender's octets are symmetric, the sender's own score is untouched, although the branch means to
  punish the sender.
\<close>

theorem bad_packet_punishes_reversed_address:
  assumes "meta_addr (packet_meta packet) = V4 (Ipv4Addr a b c d)"
    and "\<not> of_nat PACKET_DATA_SIZE < meta_size (packet_meta packet)"
    and "packet_data W packet = Some bytes" and "try_new_unsanitized W bytes = None"
    and laws: "model_laws NS NI Ok T" "model_inv Ok T m"
  shows "\<exists>m' stats'. try_process_packet W T hash N packet recent m metas stats =
      Some (Inl FailedTransactionView, m', metas, stats') \<and>
    ip_score_map T m' = (ip_score_map T m)(ip_key (Ipv4Addr d c b a) :=
      map_option (\<lambda>s. f64_mul s (f64_lit (1 / 100))) (ip_score_map T m (ip_key (Ipv4Addr d c b a)))) \<and>
    (\<not> (a = d \<and> b = c) \<longrightarrow>
      ip_score_map T m' (ip_key (Ipv4Addr a b c d)) = ip_score_map T m (ip_key (Ipv4Addr a b c d)))"
proof -
  let ?m' = "ip_feedback T (ip_to_bits (Ipv4Addr a b c d)) m"
  have "ip_key (Ipv4Addr a b c d) \<noteq> ip_key (Ipv4Addr d c b a)" if "\<not> (a = d \<and> b = c)"
    using that ip_key_inject by blast
  with ip_feedback_ok(3) [OF laws, of "ip_to_bits (Ipv4Addr a b c d)"] assms(1-4)
  show ?thesis
    by (simp add: try_process_packet_def Let_def ip_to_bits_eq_key feedback_factor_def)
qed

theorem bad_packet_punishes_reversed_address_witness:
  "\<exists>m' stats'. try_process_packet demo_view (alist_trees 20) from_le_bytes 4
       (demo_packet [] (Ipv4Addr 10 0 0 1) 80) None
       (model_new (alist_trees 20) [(ip_key (Ipv4Addr 10 0 0 1), Fin 3)] []) (lru_new 4) Stats_new =
       Some (Inl FailedTransactionView, m', lru_new 4, stats') \<and>
     ip_score_map (alist_trees 20) m' (ip_key (Ipv4Addr 10 0 0 1)) = Some (Fin 3)"
proof -
  let ?p = "demo_packet [] (Ipv4Addr 10 0 0 1) 80"
    and ?m = "model_new (alist_trees 20) [(ip_key (Ipv4Addr 10 0 0 1), Fin 3)] []"
  note new = model_new_ok [OF alist_model_laws, of "[(ip_key (Ipv4Addr 10 0 0 1), Fin 3)]" 20 "[]"]
  have m: "model_inv (alist_oks 20) (alist_trees 20) ?m"
    "ip_score_map (alist_trees 20) ?m (ip_key (Ipv4Addr 10 0 0 1)) = Some (Fin 3)"
    using new by simp_all
  have p: "meta_addr (packet_meta ?p) = V4 (Ipv4Addr 10 0 0 1)"
    "\<not> of_nat PACKET_DATA_SIZE < meta_size (packet_meta ?p)"
    "packet_data demo_view ?p = Some []" "try_new_unsanitized demo_view [] = None"
    by (simp_all add: demo_packet_def demo_view_def)
  have "\<not> ((10::u8) = 1 \<and> (0::u8) = 0)" by simp
  with bad_packet_punishes_reversed_address [OF p alist_model_laws m(1), of from_le_bytes 4 None "lru_new 4" Stats_new] m(2)
  show ?thesis by metis
qed

text \<open>
  C32. The fee of a transaction is 5000 lamports per signature plus the requested compute units
  times their price in millionths of a lamport, with the priority part capped at the maximum of 64
  bits, whenever the sum itself fits into 64 bits.
\<close>

theorem total_fee_exact:
  assumes "5000 * length (tx_signatures W tx) +
      priority_fee (unat (fee_requested_cus (total_fee W tx))) (unat (fee_cu_price (total_fee W tx))) < 2 ^ 64"
  shows "unat (fee_total_fee (total_fee W tx)) = 5000 * length (tx_signatures W tx) +
      priority_fee (unat (fee_requested_cus (total_fee W tx))) (unat (fee_cu_price (total_fee W tx)))"
  using assms by (simp add: total_fee_def Let_def fee_of_nat)

theorem total_fee_exact_witness:
  "unat (fee_total_fee (total_fee demo_view [7, 3, 64, 66, 15, 0, 0, 0, 0, 0])) = 5000 + 200000"
proof -
  have "fee_requested_cus (total_fee demo_view [7, 3, 64, 66, 15, 0, 0, 0, 0, 0]) = 200000"
    "fee_cu_price (total_fee demo_view [7, 3, 64, 66, 15, 0, 0, 0, 0, 0]) = 1000000"
    by (simp_all add: total_fee_def scan_instructions_def scan_instruction_def demo_view_def slice_get_def
        SET_CU_LIMIT_def SET_CU_PRICE_def Let_def)
  with total_fee_exact [of demo_view "[7, 3, 64, 66, 15, 0, 0, 0, 0, 0]"] show ?thesis
    by (simp add: priority_fee_def) (simp add: demo_view_def)
qed

text \<open>
  The cap protects only the priority part: with a capped priority fee the addition of the
  signature cost wraps around, and a transaction that offers the maximal fee is charged less than
  its signature cost.
\<close>

lemma total_fee_wraps:
  assumes "priority_fee (unat c) (unat p) = 2 ^ 64 - 1" and "0 < n" and "5000 * n < 2 ^ 64"
  shows "unat (fee_of c p n) = 5000 * n - 1"
proof -
  have "5000 * n + (2 ^ 64 - 1) = (5000 * n - 1) + 2 ^ 64" using assms(2) by simp
  then have "unat (fee_of c p n) = (5000 * n - 1 + 2 ^ 64) mod 2 ^ 64" by (simp only: fee_of_nat assms(1))
  also have "\<dots> = (5000 * n - 1) mod 2 ^ 64" by (rule mod_add_self2)
  also have "\<dots> = 5000 * n - 1" using assms(3) by simp
  finally show ?thesis .
qed

lemma total_fee_wraps_witness: "unat (fee_of 1000000 u64_max 1) = 4999"
  using total_fee_wraps [of 1000000 u64_max 1] by (simp add: priority_fee_def unat_u64_max)

end
