(* ===== verification/MinMax_Heap.thy ===== *)
theory MinMax_Heap
  imports QoS_Prelude "HOL-Library.Multiset"
begin

text \<open>
  The crate \<open>minmax\<close> (minmax/src/lib.rs): a bounded priority queue around the external crate
  \<open>min_max_heap\<close>. The external heap is a parameter, a record of the operations the wrapper calls;
  \<open>heap_laws\<close> states its documented behaviour on the multiset of its elements. Elements are compared
  through a \<open>key\<close> (their \<open>Ord\<close> instance may identify different elements, as that of
  \<open>ScoredTransaction\<close> does).

  The locale \<open>bounded_queue\<close> is the contract of the wrapper for its client, the transaction
  container: the queue keeps the best elements it was given, and draining it yields elements in
  descending order.
\<close>

section \<open>The external heap\<close>

record ('h, 'a) heap_ops =
  h_with_capacity :: "nat \<Rightarrow> 'h"
  h_push :: "'a \<Rightarrow> 'h \<Rightarrow> 'h"
  h_len :: "'h \<Rightarrow> nat"
  h_pop_min :: "'h \<Rightarrow> ('a \<times> 'h) option"   \<comment> \<open>\<open>None\<close>: the heap was empty and is unchanged\<close>
  h_pop_max :: "'h \<Rightarrow> ('a \<times> 'h) option"

definition pops_extremal ::
  "('a \<Rightarrow> 'a \<Rightarrow> bool) \<Rightarrow> ('h \<Rightarrow> bool) \<Rightarrow> ('h \<Rightarrow> 'a multiset) \<Rightarrow> ('h \<Rightarrow> ('a \<times> 'h) option) \<Rightarrow> 'h \<Rightarrow> bool" where
  "pops_extremal le ok content pop h \<longleftrightarrow>
     (case pop h of
        None \<Rightarrow> content h = {#}
      | Some (x, h') \<Rightarrow> ok h' \<and> content h = add_mset x (content h') \<and> (\<forall>y \<in># content h'. le x y))"

definition heap_laws ::
  "('a \<Rightarrow> 'o::linorder) \<Rightarrow> ('h \<Rightarrow> bool) \<Rightarrow> ('h \<Rightarrow> 'a multiset) \<Rightarrow> ('h, 'a) heap_ops \<Rightarrow> bool" where
  "heap_laws key ok content H \<longleftrightarrow>
     (\<forall>n. ok (h_with_capacity H n) \<and> content (h_with_capacity H n) = {#}) \<and>
     (\<forall>h. ok h \<longrightarrow>
        h_len H h = size (content h) \<and>
        (\<forall>x. ok (h_push H x h) \<and> content (h_push H x h) = add_mset x (content h)) \<and>
        pops_extremal (\<lambda>x y. key x \<le> key y) ok content (h_pop_min H) h \<and>
        pops_extremal (\<lambda>x y. key y \<le> key x) ok content (h_pop_max H) h)"

section \<open>The wrapper\<close>

text \<open>\<open>push\<close> returns the minimum when the heap reaches \<open>N\<close> elements; \<open>None\<close> is a failed \<open>unwrap\<close>.\<close>

definition mm_new :: "('h, 'a) heap_ops \<Rightarrow> nat \<Rightarrow> 'h" where
  "mm_new H N = h_with_capacity H N"

definition mm_push :: "('h, 'a) heap_ops \<Rightarrow> nat \<Rightarrow> 'a \<Rightarrow> 'h \<Rightarrow> ('a option \<times> 'h) option" where
  "mm_push H N value h =
     (let h = h_push H value h
      in if h_len H h = N then map_option (\<lambda>(x, h). (Some x, h)) (h_pop_min H h) else Some (None, h))"

definition mm_len :: "('h, 'a) heap_ops \<Rightarrow> 'h \<Rightarrow> nat" where
  "mm_len H h = h_len H h"

text \<open>\<open>get_max_values\<close> is an iterator whose \<open>next\<close> pops the maximum.\<close>

definition pop_desc_next :: "('h, 'a) heap_ops \<Rightarrow> 'h \<Rightarrow> ('a \<times> 'h) option" where
  "pop_desc_next H h = h_pop_max H h"

text \<open>
  \<open>iter.filter(p).take(n)\<close> run to its end: the accepted elements, the number of rejected ones, and
  the queue afterwards. \<open>take\<close> stops without another call of \<open>next\<close> once \<open>n\<close> elements were accepted.
\<close>

partial_function (option) pull ::
  "('h \<Rightarrow> ('a \<times> 'h) option) \<Rightarrow> ('a \<Rightarrow> bool) \<Rightarrow> nat \<Rightarrow> 'h \<Rightarrow> ('a list \<times> nat \<times> 'h) option" where
  [code]: "pull nxt p n h =
     (if n = 0 then Some ([], 0, h)
      else case nxt h of
        None \<Rightarrow> Some ([], 0, h)
      | Some (x, h) \<Rightarrow>
          if p x then do { (xs, r, h) \<leftarrow> pull nxt p (n - 1) h; Some (x # xs, r, h) }
          else do { (xs, r, h) \<leftarrow> pull nxt p n h; Some (xs, Suc r, h) })"

section \<open>Contract\<close>

text \<open>A sequence of pushes, collecting what leaves the queue.\<close>

fun push_all :: "('a \<Rightarrow> 'h \<Rightarrow> ('a option \<times> 'h) option) \<Rightarrow> 'a list \<Rightarrow> 'h \<Rightarrow> ('a list \<times> 'h) option" where
  "push_all push [] h = Some ([], h)"
| "push_all push (x # xs) h = do {
     (ev, h) \<leftarrow> push x h;
     (evs, h) \<leftarrow> push_all push xs h;
     Some (case ev of None \<Rightarrow> evs | Some y \<Rightarrow> y # evs, h)
   }"

locale bounded_queue =
  fixes push :: "'a \<Rightarrow> 'h \<Rightarrow> ('a option \<times> 'h) option"
    and pop_max :: "'h \<Rightarrow> ('a \<times> 'h) option"
    and inv :: "'h \<Rightarrow> bool"
    and content :: "'h \<Rightarrow> 'a multiset"
    and key :: "'a \<Rightarrow> 'o::linorder"
    and cap :: nat
  assumes push_ok: "inv h \<Longrightarrow> \<exists>ev h'. push x h = Some (ev, h') \<and> inv h' \<and>
      (case ev of
         None \<Rightarrow> size (content h) < cap \<and> content h' = add_mset x (content h)
       | Some y \<Rightarrow> size (content h) = cap \<and> add_mset x (content h) = add_mset y (content h') \<and>
           (\<forall>z \<in># content h'. key y \<le> key z))"
    and pop_max_ok: "inv h \<Longrightarrow> pops_extremal (\<lambda>x y. key y \<le> key x) inv content pop_max h"
begin

text \<open>
  Pushing a sequence keeps the best \<open>cap\<close> elements: nothing is lost, an element leaves only when
  the queue is full, and whatever left is no better than whatever stayed.
\<close>

lemma push_all_ok:
  assumes "inv h" and "\<forall>y \<in># E. \<forall>z \<in># content h. key y \<le> key z" and "E = {#} \<or> size (content h) = cap"
  shows "\<exists>evs h'. push_all push xs h = Some (evs, h') \<and> inv h' \<and>
    mset evs + content h' = mset xs + content h \<and>
    (\<forall>y \<in># E + mset evs. \<forall>z \<in># content h'. key y \<le> key z) \<and>
    (E + mset evs = {#} \<or> size (content h') = cap)"
  using assms
proof (induction xs arbitrary: h E)
  case (Cons x xs)
  from push_ok [OF Cons.prems(1), of x] obtain ev h1 where
    p: "push x h = Some (ev, h1)" "inv h1"
    "case ev of None \<Rightarrow> size (content h) < cap \<and> content h1 = add_mset x (content h)
     | Some y \<Rightarrow> size (content h) = cap \<and> add_mset x (content h) = add_mset y (content h1) \<and>
         (\<forall>z \<in># content h1. key y \<le> key z)" by blast
  show ?case
  proof (cases ev)
    case None
    with p(3) Cons.prems(3) have E: "E = {#}" by auto
    from Cons.IH [OF p(2), of "{#}"] obtain evs h' where "push_all push xs h1 = Some (evs, h')" "inv h'"
      "mset evs + content h' = mset xs + content h1" "\<forall>y \<in># mset evs. \<forall>z \<in># content h'. key y \<le> key z"
      "mset evs = {#} \<or> size (content h') = cap" by auto
    with p None E show ?thesis by auto
  next
    case (Some y)
    with p(3) have eq: "add_mset x (content h) = add_mset y (content h1)" and full: "size (content h) = cap"
      and y: "\<forall>z \<in># content h1. key y \<le> key z" by auto
    from arg_cong [OF eq, of size] have size1: "size (content h1) = cap" using full by simp
    have "key e \<le> key y" if e: "e \<in># E" and "\<exists>z. z \<in># content h1 \<and> z \<notin># content h" for e
    proof -
      from that eq have "y \<in># content h"
        by (metis add_eq_conv_ex insert_iff multi_member_last set_mset_add_mset_insert union_single_eq_member)
      with Cons.prems(2) e show ?thesis by blast
    qed
    then have E1: "\<forall>e \<in># add_mset y E. \<forall>z \<in># content h1. key e \<le> key z"
      using Cons.prems(2) y by (metis insert_iff order_trans set_mset_add_mset_insert)
    from Cons.IH [OF p(2) E1] size1 obtain evs h' where r: "push_all push xs h1 = Some (evs, h')" "inv h'"
      "mset evs + content h' = mset xs + content h1"
      "\<forall>e \<in># add_mset y E + mset evs. \<forall>z \<in># content h'. key e \<le> key z" "size (content h') = cap" by auto
    have "push_all push (x # xs) h = Some (y # evs, h')" using p(1) Some r(1) by simp
    moreover have "mset (y # evs) + content h' = mset (x # xs) + content h"
      using r(3) eq by (simp add: add.commute union_assoc)
    ultimately show ?thesis using r by auto
  qed
qed simp

text \<open>
  Draining with a filter: the accepted elements come in descending order, are at least as good as
  everything that stays, and stay within the limit; every element is accounted for, and if fewer
  than \<open>n\<close> were accepted the queue is empty.
\<close>

lemma pull_ok:
  "inv h \<Longrightarrow> \<exists>xs r h' R. pull pop_max p n h = Some (xs, r, h') \<and> inv h' \<and>
     content h = mset xs + R + content h' \<and> size R = r \<and>
     (\<forall>x \<in> set xs. p x) \<and> (\<forall>x \<in># R. \<not> p x) \<and> length xs \<le> n \<and>
     (length xs < n \<longrightarrow> content h' = {#}) \<and> sorted_wrt (\<lambda>x y. key y \<le> key x) xs \<and>
     (\<forall>x \<in> set xs. \<forall>z \<in># content h'. key z \<le> key x)"
proof (induction "size (content h)" arbitrary: n h rule: less_induct)
  case less
  show ?case
  proof (cases "n = 0")
    case True
    then show ?thesis using less.prems by (subst pull.simps) (auto intro!: exI [where x = "{#}"])
  next
    case n: False
    note pop = pop_max_ok [OF less.prems, unfolded pops_extremal_def]
    show ?thesis
    proof (cases "pop_max h")
      case None
      then show ?thesis
        using n less.prems pop by (subst pull.simps) (auto intro!: exI [where x = "{#}"])
    next
      case (Some xh)
      obtain x h1 where xh: "xh = (x, h1)" by force
      with pop Some have h1: "inv h1" "content h = add_mset x (content h1)"
        "\<forall>y \<in># content h1. key y \<le> key x" by auto
      have lt: "size (content h1) < size (content h)" by (simp add: h1(2))
      show ?thesis
      proof (cases "p x")
        case True
        from less.hyps [OF lt h1(1), of "n - 1"] obtain xs r h' R where
          IH: "pull pop_max p (n - 1) h1 = Some (xs, r, h')" "inv h'"
          "content h1 = mset xs + R + content h'" "size R = r" "\<forall>x \<in> set xs. p x" "\<forall>x \<in># R. \<not> p x"
          "length xs \<le> n - 1" "length xs < n - 1 \<longrightarrow> content h' = {#}"
          "sorted_wrt (\<lambda>x y. key y \<le> key x) xs" "\<forall>x \<in> set xs. \<forall>z \<in># content h'. key z \<le> key x" by auto
        have "pull pop_max p n h = Some (x # xs, r, h')"
          using n Some xh True IH(1) by (subst pull.simps) simp
        moreover have "\<forall>y \<in> set xs. key y \<le> key x" "\<forall>z \<in># content h'. key z \<le> key x"
          using h1(3) by (simp_all add: IH(3))
        ultimately show ?thesis using IH n True h1(2)
          by (intro exI [where x = "x # xs"] exI [where x = r] exI [where x = h'] exI [where x = R]) auto
      next
        case False
        from less.hyps [OF lt h1(1), of n] obtain xs r h' R where
          IH: "pull pop_max p n h1 = Some (xs, r, h')" "inv h'"
          "content h1 = mset xs + R + content h'" "size R = r" "\<forall>x \<in> set xs. p x" "\<forall>x \<in># R. \<not> p x"
          "length xs \<le> n" "length xs < n \<longrightarrow> content h' = {#}"
          "sorted_wrt (\<lambda>x y. key y \<le> key x) xs" "\<forall>x \<in> set xs. \<forall>z \<in># content h'. key z \<le> key x" by auto
        have "pull pop_max p n h = Some (xs, Suc r, h')"
          using n Some xh False IH(1) by (subst pull.simps) simp
        with IH False h1(2) show ?thesis
          by (intro exI [where x = xs] exI [where x = "Suc r"] exI [where x = h'] exI [where x = "add_mset x R"])
            auto
      qed
    qed
  qed
qed

end

section \<open>The wrapper fulfils the contract\<close>

definition mm_inv :: "('a \<Rightarrow> 'o::linorder) \<Rightarrow> ('h \<Rightarrow> bool) \<Rightarrow> ('h \<Rightarrow> 'a multiset) \<Rightarrow> ('h, 'a) heap_ops
    \<Rightarrow> nat \<Rightarrow> 'h \<Rightarrow> bool" where
  "mm_inv key ok content H N h \<longleftrightarrow> heap_laws key ok content H \<and> ok h \<and> size (content h) < N"

lemma heap_lawsD:
  assumes "heap_laws key ok content H" and "ok h"
  shows "h_len H h = size (content h)" "ok (h_push H x h)" "content (h_push H x h) = add_mset x (content h)"
    "pops_extremal (\<lambda>x y. key x \<le> key y) ok content (h_pop_min H) h"
    "pops_extremal (\<lambda>x y. key y \<le> key x) ok content (h_pop_max H) h"
  using assms by (auto simp: heap_laws_def)

lemma mm_new_ok:
  "heap_laws key ok content H \<Longrightarrow> 0 < N \<Longrightarrow>
   mm_inv key ok content H N (mm_new H N) \<and> content (mm_new H N) = {#}"
  by (simp add: mm_inv_def mm_new_def heap_laws_def)

lemma mm_push_ok:
  assumes "mm_inv key ok content H N h"
  shows "\<exists>ev h'. mm_push H N x h = Some (ev, h') \<and> mm_inv key ok content H N h' \<and>
    (case ev of
       None \<Rightarrow> size (content h) < N - 1 \<and> content h' = add_mset x (content h)
     | Some y \<Rightarrow> size (content h) = N - 1 \<and> add_mset x (content h) = add_mset y (content h') \<and>
         (\<forall>z \<in># content h'. key y \<le> key z))"
proof -
  from assms have L: "heap_laws key ok content H" and ok: "ok h" and N: "size (content h) < N"
    by (simp_all add: mm_inv_def)
  note p = heap_lawsD(2,3) [OF L ok, of x]
  note q = heap_lawsD(1,4) [OF L p(1)]
  show ?thesis
  proof (cases "h_len H (h_push H x h) = N")
    case True
    with q p obtain y h' where "h_pop_min H (h_push H x h) = Some (y, h')" "ok h'"
      "add_mset x (content h) = add_mset y (content h')" "\<forall>z \<in># content h'. key y \<le> key z"
      by (auto simp: pops_extremal_def split: option.splits)
    moreover from this True q(1) p(2) have "size (content h) = N - 1" "size (content h') < N"
      by (auto dest: arg_cong [where f = size])
    ultimately show ?thesis using True L by (auto simp: mm_push_def mm_inv_def)
  next
    case False
    with q(1) p N L show ?thesis by (auto simp: mm_push_def mm_inv_def)
  qed
qed

interpretation mm: bounded_queue "mm_push H N" "pop_desc_next H" "mm_inv key ok content H N" content key "N - 1"
  for H N key ok content
proof
  fix h :: 'a and x :: 'b
  assume inv: "mm_inv key ok content H N h"
  then show "\<exists>ev h'. mm_push H N x h = Some (ev, h') \<and> mm_inv key ok content H N h' \<and>
      (case ev of
         None \<Rightarrow> size (content h) < N - 1 \<and> content h' = add_mset x (content h)
       | Some y \<Rightarrow> size (content h) = N - 1 \<and> add_mset x (content h) = add_mset y (content h') \<and>
           (\<forall>z \<in># content h'. key y \<le> key z))" by (rule mm_push_ok)
  from inv have "pops_extremal (\<lambda>x y. key y \<le> key x) ok content (h_pop_max H) h"
    by (auto simp: mm_inv_def dest: heap_lawsD)
  with inv show "pops_extremal (\<lambda>x y. key y \<le> key x) (mm_inv key ok content H N) content (pop_desc_next H) h"
    by (auto simp: mm_inv_def pops_extremal_def pop_desc_next_def split: option.splits)
qed

section \<open>A concrete heap\<close>

text \<open>A list sorted by key satisfies the laws of the external heap.\<close>

definition list_heap :: "('a \<Rightarrow> 'o::linorder) \<Rightarrow> ('a list, 'a) heap_ops" where
  "list_heap key =
     \<lparr>h_with_capacity = (\<lambda>_. []),
      h_push = insort_key key,
      h_len = length,
      h_pop_min = (\<lambda>xs. case xs of [] \<Rightarrow> None | x # xs \<Rightarrow> Some (x, xs)),
      h_pop_max = (\<lambda>xs. if xs = [] then None else Some (last xs, butlast xs))\<rparr>"

abbreviation list_heap_ok :: "('a \<Rightarrow> 'o::linorder) \<Rightarrow> 'a list \<Rightarrow> bool" where
  "list_heap_ok key xs \<equiv> sorted (map key xs)"

lemma list_heap_laws: "heap_laws key (list_heap_ok key) mset (list_heap key)"
proof -
  have "pops_extremal (\<lambda>x y. key x \<le> key y) (list_heap_ok key) mset (h_pop_min (list_heap key)) xs"
    if "list_heap_ok key xs" for xs
    using that by (cases xs) (auto simp: pops_extremal_def list_heap_def)
  moreover have "pops_extremal (\<lambda>x y. key y \<le> key x) (list_heap_ok key) mset (h_pop_max (list_heap key)) xs"
    if "list_heap_ok key xs" for xs
    using that by (cases xs rule: rev_cases) (auto simp: pops_extremal_def list_heap_def sorted_append)
  ultimately show ?thesis
    by (auto simp: heap_laws_def list_heap_def sorted_insort_key mset_insort)
qed

section \<open>Properties\<close>

text \<open>
  C16. Pushing any sequence of elements into a fresh bounded queue never panics, loses nothing, and
  retains the best \<open>N - 1\<close> elements: at most \<open>N - 1\<close> stay, something leaves only when that many
  stay, and every element that left has a key no greater than that of every element that stayed.
\<close>

theorem queue_retains_best:
  assumes "heap_laws key ok content H" and "0 < N"
  shows "\<exists>evs h. push_all (mm_push H N) xs (mm_new H N) = Some (evs, h) \<and>
    mset evs + content h = mset xs \<and> size (content h) = min (length xs) (N - 1) \<and>
    (\<forall>y \<in> set evs. \<forall>z \<in># content h. key y \<le> key z)"
proof -
  note new = mm_new_ok [OF assms]
  from mm.push_all_ok [of key ok content H N "mm_new H N" "{#}" xs] new obtain evs h where
    r: "push_all (mm_push H N) xs (mm_new H N) = Some (evs, h)" "mm_inv key ok content H N h"
    "mset evs + content h = mset xs" "\<forall>y \<in> set evs. \<forall>z \<in># content h. key y \<le> key z"
    "evs = [] \<or> size (content h) = N - 1" by auto
  from r(2) have "size (content h) \<le> N - 1" by (auto simp: mm_inv_def)
  moreover from arg_cong [OF r(3), of size] have "length evs + size (content h) = length xs" by simp
  ultimately have "size (content h) = min (length xs) (N - 1)" using r(5) by auto
  with r show ?thesis by blast
qed

theorem queue_retains_best_witness:
  "push_all (mm_push (list_heap id) 3) [3, 1, 2, 5 :: nat] (mm_new (list_heap id) 3) = Some ([1, 2], [3, 5]) \<and>
   size (mset [3, 5 :: nat]) = min 4 2"
proof -
  have "push_all (mm_push (list_heap id) 3) [3, 1, 2, 5 :: nat] (mm_new (list_heap id) 3) = Some ([1, 2], [3, 5])"
    by (simp add: mm_push_def mm_new_def list_heap_def)
  moreover from queue_retains_best [OF list_heap_laws, of 3 id "[3, 1, 2, 5 :: nat]", unfolded this]
  have "size (mset [3, 5 :: nat]) = min 4 2" by simp
  ultimately show ?thesis by blast
qed

text \<open>
  C31. Taking at most \<open>n\<close> acceptable elements from the queue terminates and yields them in
  descending order; each is at least as good as everything left in the queue, the rejected ones are
  counted and dropped, and fewer than \<open>n\<close> results mean that the queue was exhausted.
\<close>

theorem queue_drains_descending:
  assumes "mm_inv key ok content H N h"
  shows "\<exists>xs r h' R. pull (pop_desc_next H) p n h = Some (xs, r, h') \<and> mm_inv key ok content H N h' \<and>
    content h = mset xs + R + content h' \<and> size R = r \<and>
    (\<forall>x \<in> set xs. p x) \<and> (\<forall>x \<in># R. \<not> p x) \<and> length xs \<le> n \<and>
    (length xs < n \<longrightarrow> content h' = {#}) \<and> sorted_wrt (\<lambda>x y. key y \<le> key x) xs \<and>
    (\<forall>x \<in> set xs. \<forall>z \<in># content h'. key z \<le> key x)"
  using assms by (rule mm.pull_ok)

theorem queue_drains_descending_witness:
  "\<exists>xs r h'. pull (pop_desc_next (list_heap id)) even 2 [1, 2, 3, 4, 6 :: nat] = Some (xs, r, h') \<and>
     length xs \<le> 2 \<and> sorted_wrt (\<lambda>x y. y \<le> x) xs \<and> list_all (\<lambda>x. even x \<and> list_all (\<lambda>z. z \<le> x) h') xs"
proof -
  have "mm_inv id (list_heap_ok id) mset (list_heap id) 9 [1, 2, 3, 4, 6 :: nat]"
    unfolding mm_inv_def using list_heap_laws [of id] by simp
  from queue_drains_descending [OF this, of even 2] show ?thesis by (fastforce simp: list_all_iff)
qed

end
