(* ===== verification/Text_Format.thy ===== *)
theory Text_Format
  imports Wire_Data
begin

text \<open>
  The text formats the repository writes and reads, as the standard library produces them: decimal
  numbers, dotted addresses, lines, words separated by white space, and \<open>str::parse::<u64>\<close>.

  Text is a list of characters; white space is that of the ASCII range, which is all that occurs in the
  files concerned. Every printer has a lemma that the matching reader gives back what was printed.
\<close>

section \<open>Searching\<close>

text \<open>\<open>str_contains s t\<close>: \<open>t.contains(s)\<close>.\<close>

fun str_contains :: "string \<Rightarrow> string \<Rightarrow> bool" where
  "str_contains s [] \<longleftrightarrow> s = []"
| "str_contains s (c # cs) \<longleftrightarrow> take (length s) (c # cs) = s \<or> str_contains s cs"

section \<open>Decimal numbers\<close>

definition digit_char :: "nat \<Rightarrow> char" where
  "digit_char d = char_of (48 + d)"

fun decimal :: "nat \<Rightarrow> string" where
  "decimal n = (if n < 10 then [digit_char n] else decimal (n div 10) @ [digit_char (n mod 10)])"

declare decimal.simps [simp del]

definition is_digit :: "char \<Rightarrow> bool" where
  "is_digit c \<longleftrightarrow> 48 \<le> (of_char c :: nat) \<and> (of_char c :: nat) \<le> 57"

definition digit_value :: "char \<Rightarrow> nat" where
  "digit_value c = of_char c - 48"

definition decimal_value :: "string \<Rightarrow> nat" where
  "decimal_value s = foldl (\<lambda>a c. 10 * a + digit_value c) 0 s"

text \<open>\<open>parse::<u64>\<close>: an optional plus sign, at least one digit, nothing else, and no overflow.\<close>

definition parse_u64 :: "string \<Rightarrow> u64 option" where
  "parse_u64 s =
     (let digits = (if s \<noteq> [] \<and> hd s = CHR ''+'' then tl s else s)
      in if digits = [] \<or> \<not> list_all is_digit digits then None
         else if decimal_value digits < 2 ^ 64 then Some (of_nat (decimal_value digits)) else None)"

section \<open>Addresses\<close>

fun show_ipv4 :: "Ipv4Addr \<Rightarrow> string" where
  "show_ipv4 (Ipv4Addr a b c d) =
     decimal (unat a) @ ''.'' @ decimal (unat b) @ ''.'' @ decimal (unat c) @ ''.'' @ decimal (unat d)"

text \<open>\<open>Ipv4Addr::from_bits\<close>: the most significant byte is the first octet.\<close>

definition ipv4_from_bits :: "u32 \<Rightarrow> Ipv4Addr" where
  "ipv4_from_bits w =
     (case rev (to_le_bytes 4 w) of
        [a, b, c, d] \<Rightarrow> Ipv4Addr a b c d | _ \<Rightarrow> Ipv4Addr 0 0 0 0)"

section \<open>Lines and words\<close>

definition newline :: char where "newline = CHR 0x0A"

definition is_space :: "char \<Rightarrow> bool" where
  "is_space c \<longleftrightarrow> c = CHR '' '' \<or> (9 \<le> (of_char c :: nat) \<and> (of_char c :: nat) \<le> 13)"

text \<open>\<open>BufRead::lines\<close>: a line ends at a newline, before which one carriage return is dropped.\<close>

definition strip_cr :: "string \<Rightarrow> string" where
  "strip_cr s = (if s \<noteq> [] \<and> last s = CHR 0x0D then butlast s else s)"

fun read_lines :: "string \<Rightarrow> string \<Rightarrow> string list" where
  "read_lines acc [] = (if acc = [] then [] else [rev acc])"
| "read_lines acc (c # cs) = (if c = newline then strip_cr (rev acc) # read_lines [] cs else read_lines (c # acc) cs)"

definition lines_of :: "string \<Rightarrow> string list" where
  "lines_of s = read_lines [] s"

text \<open>\<open>str::split_whitespace\<close>\<close>

fun read_words :: "string \<Rightarrow> string \<Rightarrow> string list" where
  "read_words acc [] = (if acc = [] then [] else [rev acc])"
| "read_words acc (c # cs) =
     (if is_space c then (if acc = [] then [] else [rev acc]) @ read_words [] cs else read_words (c # acc) cs)"

definition split_whitespace :: "string \<Rightarrow> string list" where
  "split_whitespace s = read_words [] s"

section \<open>Round trips\<close>

lemma of_char_digit: "d < 10 \<Longrightarrow> (of_char (digit_char d) :: nat) = 48 + d"
  by (simp add: digit_char_def)

lemma digit_value_char: "d < 10 \<Longrightarrow> digit_value (digit_char d) = d"
  by (simp add: digit_value_def of_char_digit)

lemma is_digit_char: "d < 10 \<Longrightarrow> is_digit (digit_char d)"
  by (simp add: is_digit_def of_char_digit)

lemma decimal_digits: "list_all is_digit (decimal n) \<and> decimal n \<noteq> []"
proof (induction n rule: decimal.induct)
  case (1 n)
  then show ?case by (cases "n < 10") (simp_all add: decimal.simps [of n] is_digit_char)
qed

lemma decimal_value_decimal [simp]: "decimal_value (decimal n) = n"
proof (induction n rule: decimal.induct)
  case (1 n)
  then show ?case
    by (cases "n < 10") (simp_all add: decimal.simps [of n] decimal_value_def digit_value_char)
qed

lemma decimal_inject [simp]: "decimal m = decimal n \<longleftrightarrow> m = n"
  by (metis decimal_value_decimal)

lemma not_digit [simp]: "\<not> is_digit (CHR ''+'')" "\<not> is_digit (CHR ''.'')" "\<not> is_digit (CHR '' '')"
  by (simp_all add: is_digit_def)

lemma digit_not_space: "is_digit c \<Longrightarrow> \<not> is_space c"
  by (auto simp: is_digit_def is_space_def)

lemma parse_u64_decimal: "n < 2 ^ 64 \<Longrightarrow> parse_u64 (decimal n) = Some (of_nat n)"
proof -
  assume "n < 2 ^ 64"
  moreover have "hd (decimal n) \<noteq> CHR ''+''"
    using decimal_digits [of n] not_digit(1) by (cases "decimal n") auto
  ultimately show ?thesis using decimal_digits [of n] by (simp add: parse_u64_def Let_def)
qed

text \<open>A maximal run of digits is determined by what follows it.\<close>

lemma parse_u64_shown: "parse_u64 (decimal (unat (w :: u64))) = Some w"
  using parse_u64_decimal [of "unat w"] unsigned_less [of w, where 'a = nat] by simp

lemma digits_split:
  assumes "list_all is_digit s" "list_all is_digit t" "\<not> is_digit c" "\<not> is_digit d"
    and "s @ c # u = t @ d # v"
  shows "s = t \<and> c # u = d # v"
  using assms by (induction s arbitrary: t) (auto simp: Cons_eq_append_conv)

lemma show_ipv4_inject: "show_ipv4 p = show_ipv4 q \<Longrightarrow> p = q"
proof (cases p; cases q)
  fix a b c d a' b' c' d'
  assume p: "p = Ipv4Addr a b c d" and q: "q = Ipv4Addr a' b' c' d'" and eq: "show_ipv4 p = show_ipv4 q"
  note dig = decimal_digits [THEN conjunct1]
  note split = digits_split [OF dig dig not_digit(2) not_digit(2)]
  from eq have 1: "decimal (unat a) @ CHR ''.'' # (decimal (unat b) @ CHR ''.'' # (decimal (unat c) @ CHR ''.'' # decimal (unat d))) =
      decimal (unat a') @ CHR ''.'' # (decimal (unat b') @ CHR ''.'' # (decimal (unat c') @ CHR ''.'' # decimal (unat d')))"
    by (simp add: p q)
  from split [OF 1] have 2: "unat a = unat a'" and 3: "decimal (unat b) @ CHR ''.'' # (decimal (unat c) @ CHR ''.'' # decimal (unat d)) =
      decimal (unat b') @ CHR ''.'' # (decimal (unat c') @ CHR ''.'' # decimal (unat d'))" by simp_all
  from split [OF 3] have 4: "unat b = unat b'" and 5: "decimal (unat c) @ CHR ''.'' # decimal (unat d) =
      decimal (unat c') @ CHR ''.'' # decimal (unat d')" by simp_all
  from split [OF 5] 2 4 show "p = q" by (simp add: p q word_unat_eq_iff)
qed

lemma show_ipv4_no_space: "list_all (\<lambda>c. \<not> is_space c) (show_ipv4 ip) \<and> show_ipv4 ip \<noteq> []"
proof (cases ip)
  case (Ipv4Addr a b c d)
  have "list_all (\<lambda>c. \<not> is_space c) (decimal n)" for n
    using decimal_digits [of n] digit_not_space by (auto simp: list_all_iff)
  then show ?thesis using Ipv4Addr by (simp add: is_space_def)
qed

lemma ipv4_from_bits_key: "ipv4_from_bits (ip_key (Ipv4Addr a b c d)) = Ipv4Addr d c b a"
proof -
  have len: "length (to_le_bytes 4 (ip_key (Ipv4Addr a b c d))) = length [a, b, c, d]" by simp
  have "(from_le_bytes (to_le_bytes 4 (ip_key (Ipv4Addr a b c d))) :: u32) = from_le_bytes [a, b, c, d]"
    by (simp add: ip_key_def)
  from from_le_bytes_inject [OF len _ this] have "to_le_bytes 4 (ip_key (Ipv4Addr a b c d)) = [a, b, c, d]" by simp
  then show ?thesis by (simp add: ipv4_from_bits_def)
qed

lemma read_words_word:
  assumes "list_all (\<lambda>c. \<not> is_space c) w"
  shows "read_words acc (w @ s) = read_words (rev w @ acc) s"
  using assms by (induction w arbitrary: acc) auto

lemma split_two_words:
  assumes "list_all (\<lambda>c. \<not> is_space c) v" "v \<noteq> []" "list_all (\<lambda>c. \<not> is_space c) w" "w \<noteq> []"
  shows "split_whitespace (v @ '' '' @ w) = [v, w]"
  using assms read_words_word [OF assms(1), of "[]" "'' '' @ w"] read_words_word [OF assms(3), of "[]" "[]"]
  by (simp add: split_whitespace_def is_space_def)

lemma read_lines_line:
  assumes "newline \<notin> set l"
  shows "read_lines acc (l @ newline # s) = strip_cr (rev acc @ l) # read_lines [] s"
  using assms by (induction l arbitrary: acc) auto

lemma lines_of_concat:
  assumes "\<forall>l \<in> set ls. newline \<notin> set l \<and> CHR 0x0D \<notin> set l"
  shows "lines_of (concat (map (\<lambda>l. l @ [newline]) ls)) = ls"
  using assms
proof (induction ls)
  case (Cons l ls)
  have "last l \<noteq> CHR 0x0D" if "l \<noteq> []" using Cons.prems last_in_set [OF that] by fastforce
  then have "strip_cr l = l" by (auto simp: strip_cr_def)
  with Cons read_lines_line [of l "[]"] show ?case by (simp add: lines_of_def)
qed (simp add: lines_of_def)

end
