(* ===== verification/Timer_Clock.thy ===== *)
theory Timer_Clock
  imports Float64 Text_Format
begin

text \<open>
  The timer of timer/src/lib.rs: the choice of the clock, the calibration of the time-stamp counter against
  the system clock, and the two cells of type \<open>OnceLock\<close> that keep the results for the life of the process.
  Readings of the counter, of the system clock (in nanoseconds) and of \<open>/proc/cpuinfo\<close> are arguments. A panic
  is \<open>None\<close>.
\<close>

section \<open>Timers\<close>

datatype Timer = RDTSC u64 | Instant

text \<open>The argument is \<open>/proc/cpuinfo\<close> if it could be read.\<close>

definition check_cpu_supports_invariant_tsc :: "string option \<Rightarrow> bool" where
  "check_cpu_supports_invariant_tsc cpuinfo_file =
     (case cpuinfo_file of
        None \<Rightarrow> False
      | Some cpuinfo \<Rightarrow>
          let has_constant_tsc = str_contains ''constant_tsc'' cpuinfo;
              has_nonstop_tsc = str_contains ''nonstop_tsc'' cpuinfo
          in has_constant_tsc \<and> has_nonstop_tsc)"

definition timer_new :: "string option \<Rightarrow> u64 \<Rightarrow> Timer" where
  "timer_new cpuinfo_file rdtsc =
     (if check_cpu_supports_invariant_tsc cpuinfo_file then RDTSC rdtsc else Instant)"

definition elapsed_ms :: "u64 \<Rightarrow> u64 \<Rightarrow> Timer \<Rightarrow> u64 option" where
  "elapsed_ms ticks_per_ms now t =
     (case t of
        RDTSC rdtsc \<Rightarrow> if ticks_per_ms = 0 then None else Some ((now - rdtsc) div ticks_per_ms)
      | Instant \<Rightarrow> None)"

text \<open>The counter frequency from the readings around one second.\<close>

definition ticks_per_ms :: "u64 \<Rightarrow> u64 \<Rightarrow> u64" where
  "ticks_per_ms start_tsc end_tsc =
     (let elapsed_tsc = end_tsc - start_tsc;
          duration_ms = f64_mul (Fin 1) (f64_lit 1000);
          tsc_per_ms = f64_div (f64_of_u64 elapsed_tsc) duration_ms
      in f64_to_u64 tsc_per_ms)"

section \<open>Calibration\<close>

text \<open>
  A loop that spins until \<open>d\<close> nanoseconds have passed since \<open>start\<close>, on the readings of the clock to come; \<open>None\<close> if
  they run out before. Differences of instants saturate at zero.
\<close>

fun spin :: "nat \<Rightarrow> nat \<Rightarrow> nat list \<Rightarrow> nat list option" where
  "spin d start [] = None"
| "spin d start (now # clock) = (if now - start < d then spin d start clock else Some clock)"

text \<open>The readings that the closure of \<open>ticks_per_ms\<close> makes.\<close>

record calibration =
  cal_clock :: "nat list"
  cal_start_tsc :: u64
  cal_end_tsc :: u64

fun next_instant :: "nat list \<Rightarrow> (nat \<times> nat list) option" where
  "next_instant [] = None"
| "next_instant (now # clock) = Some (now, clock)"

definition MILLIS_1000 :: nat where "MILLIS_1000 = 1000000000"

definition calibrate :: "calibration \<Rightarrow> u64 option" where
  "calibrate c = do {
     (warm_up_start, clock) \<leftarrow> next_instant (cal_clock c);
     clock \<leftarrow> spin MILLIS_1000 warm_up_start clock;
     (start, clock) \<leftarrow> next_instant clock;
     _ \<leftarrow> spin MILLIS_1000 start clock;
     Some (ticks_per_ms (cal_start_tsc c) (cal_end_tsc c))
   }"

section \<open>The cells\<close>

text \<open>
  \<open>get_or_init\<close>: the first caller runs the closure, all later ones read its result. \<open>OnceLock\<close> makes this one
  step for all threads.
\<close>

definition get_or_init :: "'a option \<Rightarrow> 'a option \<Rightarrow> ('a \<times> 'a option) option" where
  "get_or_init cell init =
     (case cell of Some v \<Rightarrow> Some (v, cell) | None \<Rightarrow> map_option (\<lambda>v. (v, Some v)) init)"

record timer_statics =
  SUPPORTS_INVARIANT_TSC :: "bool option"
  TICKS_PER_MS :: "u64 option"

definition statics_new :: timer_statics where
  "statics_new = \<lparr>SUPPORTS_INVARIANT_TSC = None, TICKS_PER_MS = None\<rparr>"

text \<open>What a call would observe if it had to run the closures.\<close>

record surroundings =
  sur_cpuinfo :: "string option"
  sur_calibration :: calibration

definition cell_supports :: "surroundings \<Rightarrow> timer_statics \<Rightarrow> (bool \<times> timer_statics) option" where
  "cell_supports v st = do {
     (b, cell) \<leftarrow> get_or_init (SUPPORTS_INVARIANT_TSC st) (Some (check_cpu_supports_invariant_tsc (sur_cpuinfo v)));
     Some (b, st\<lparr>SUPPORTS_INVARIANT_TSC := cell\<rparr>)
   }"

definition cell_ticks :: "surroundings \<Rightarrow> timer_statics \<Rightarrow> (u64 \<times> timer_statics) option" where
  "cell_ticks v st = do {
     (ticks, cell) \<leftarrow> get_or_init (TICKS_PER_MS st) (calibrate (sur_calibration v));
     Some (ticks, st\<lparr>TICKS_PER_MS := cell\<rparr>)
   }"

definition memoize_ticks_per_ms_and_invariant_tsc_check :: "surroundings \<Rightarrow> timer_statics \<Rightarrow> timer_statics option" where
  "memoize_ticks_per_ms_and_invariant_tsc_check v st = do {
     (_, st) \<leftarrow> cell_supports v st;
     (_, st) \<leftarrow> cell_ticks v st;
     Some st
   }"

text \<open>The calls of a process, from whatever thread.\<close>

datatype timer_call = NewTimer u64 | ElapsedMs u64 Timer

datatype timer_result = MadeTimer Timer | Millis u64

fun run_call :: "surroundings \<Rightarrow> timer_call \<Rightarrow> timer_statics \<Rightarrow> (timer_result \<times> timer_statics) option" where
  "run_call v (NewTimer rdtsc) st = do {
     (b, st) \<leftarrow> cell_supports v st;
     Some (MadeTimer (if b then RDTSC rdtsc else Instant), st)
   }"
| "run_call v (ElapsedMs now t) st =
     (case t of
        RDTSC _ \<Rightarrow> do {
          (ticks, st) \<leftarrow> cell_ticks v st;
          ms \<leftarrow> elapsed_ms ticks now t;
          Some (Millis ms, st)
        }
      | Instant \<Rightarrow> None)"

fun run_calls :: "(surroundings \<times> timer_call) list \<Rightarrow> timer_statics \<Rightarrow> (timer_result list \<times> timer_statics) option" where
  "run_calls [] st = Some ([], st)"
| "run_calls ((v, c) # cs) st = do {
     (r, st) \<leftarrow> run_call v c st;
     (rs, st) \<leftarrow> run_calls cs st;
     Some (r # rs, st)
   }"

section \<open>Calls after the values are fixed\<close>

text \<open>The timer as the other components use it: one description of the processor, one frequency.\<close>

fun plain_call :: "string option \<Rightarrow> u64 \<Rightarrow> timer_call \<Rightarrow> timer_result option" where
  "plain_call cpuinfo ticks (NewTimer rdtsc) = Some (MadeTimer (timer_new cpuinfo rdtsc))"
| "plain_call cpuinfo ticks (ElapsedMs now t) = map_option Millis (elapsed_ms ticks now t)"

fun plain_calls :: "string option \<Rightarrow> u64 \<Rightarrow> timer_call list \<Rightarrow> timer_result list option" where
  "plain_calls cpuinfo ticks [] = Some []"
| "plain_calls cpuinfo ticks (c # cs) = do {
     r \<leftarrow> plain_call cpuinfo ticks c;
     rs \<leftarrow> plain_calls cpuinfo ticks cs;
     Some (r # rs)
   }"

abbreviation fixed_statics :: "string option \<Rightarrow> u64 \<Rightarrow> timer_statics" where
  "fixed_statics cpuinfo ticks \<equiv>
     \<lparr>SUPPORTS_INVARIANT_TSC = Some (check_cpu_supports_invariant_tsc cpuinfo), TICKS_PER_MS = Some ticks\<rparr>"

lemma memoized:
  assumes "memoize_ticks_per_ms_and_invariant_tsc_check v statics_new = Some st"
  obtains ticks where "calibrate (sur_calibration v) = Some ticks" "st = fixed_statics (sur_cpuinfo v) ticks"
  using assms
  by (auto simp: memoize_ticks_per_ms_and_invariant_tsc_check_def cell_supports_def cell_ticks_def get_or_init_def
      statics_new_def bind_eq_Some_conv)

lemma run_call_fixed:
  "run_call v c (fixed_statics cpuinfo ticks) =
     map_option (\<lambda>r. (r, fixed_statics cpuinfo ticks)) (plain_call cpuinfo ticks c)"
  by (cases c)
    (auto simp: cell_supports_def cell_ticks_def get_or_init_def timer_new_def elapsed_ms_def split: Timer.splits)

lemma run_calls_fixed:
  "run_calls cs (fixed_statics cpuinfo ticks) =
     map_option (\<lambda>rs. (rs, fixed_statics cpuinfo ticks)) (plain_calls cpuinfo ticks (map snd cs))"
proof (induction cs)
  case (Cons vc cs)
  show ?case
    by (cases vc; cases "plain_call cpuinfo ticks (snd vc)"; cases "plain_calls cpuinfo ticks (map snd cs)")
      (use Cons.IH in \<open>simp_all add: run_call_fixed del: run_call.simps\<close>)
qed simp

section \<open>The frequency\<close>

text \<open>The division in \<open>f64\<close> is exact after truncation for every realistic number of ticks per second.\<close>

lemma ticks_per_ms_exact:
  assumes "unat (end_tsc - start_tsc) < 2 ^ 50"
  shows "unat (ticks_per_ms start_tsc end_tsc) = unat (end_tsc - start_tsc) div 1000"
proof -
  define n where "n = unat (end_tsc - start_tsc)"
  define q where "q = n div 1000"
  have n: "n < 2 ^ 50" using assms by (simp add: n_def)
  have "q < 2 ^ 41" using n by (simp add: q_def)
  have lit: "f64_mul (Fin 1) (f64_lit 1000) = Fin 1000" using round_f64_nat [of 1000] by (simp add: f64_lit_def)
  have num: "f64_of_u64 (end_tsc - start_tsc) = Fin (of_nat n)" using f64_of_u64_exact n by (simp add: n_def)
  have "(of_nat n :: rat) = of_nat (1000 * q + n mod 1000)" by (simp add: q_def)
  then have split: "(of_nat n :: rat) = 1000 * of_nat q + of_nat (n mod 1000)" by simp
  have "n mod 1000 \<le> 999" using mod_less_divisor [of 1000 n] by linarith
  then have "(of_nat (n mod 1000) :: rat) \<le> of_nat 999" by (rule of_nat_mono)
  with split have bounds: "of_nat q \<le> (of_nat n / 1000 :: rat)" "(of_nat n / 1000 :: rat) \<le> of_nat q + 1023 / 1024"
    by simp_all
  have top: "(of_nat q + 1023 / 1024 :: rat) = of_nat (1024 * q + 1023) * 2 powi (- 10)"
    by (simp add: power_int_def power_one_over field_simps)
  have "1024 * q + 1023 < 2 ^ 53" using \<open>q < 2 ^ 41\<close> by simp
  moreover have "(of_nat q + 1023 / 1024 :: rat) < 2 ^ 1024"
  proof -
    have "(of_nat q :: rat) < of_nat (2 ^ 41)" using \<open>q < 2 ^ 41\<close> by (simp only: of_nat_less_iff)
    then have "(of_nat q + 1023 / 1024 :: rat) < 2 ^ 42" by simp
    also have "(2 :: rat) ^ 42 \<le> 2 ^ 1024" by (rule power_increasing) simp_all
    finally show ?thesis .
  qed
  ultimately have "representable (of_nat q + 1023 / 1024)" unfolding representable_def
    by (intro conjI exI [of _ "1024 * q + 1023"] exI [of _ "- 10"] top) simp_all
  with bounds obtain r where r: "round_f64 (of_nat n / 1000) = Fin r" "of_nat q \<le> r" "r \<le> of_nat q + 1023 / 1024"
    using round_between [of "of_nat q" "of_nat n / 1000" "of_nat q + 1023 / 1024"] representable_nat [of q] \<open>q < 2 ^ 41\<close> by force
  then have floor: "\<lfloor>r\<rfloor> = int q" by (intro floor_unique) simp_all
  have "(of_nat q :: rat) \<le> of_nat (2 ^ 41)" using \<open>q < 2 ^ 41\<close> by (intro of_nat_mono) simp
  with r(3) have "r \<le> 2 ^ 64 - 1" by simp
  moreover have "0 \<le> r" using r(2) by (rule order_trans [OF of_nat_0_le_iff])
  ultimately have "ticks_per_ms start_tsc end_tsc = of_nat q"
    using r(1) floor by (simp add: ticks_per_ms_def lit num f64_to_u64_def)
  then show ?thesis using \<open>q < 2 ^ 41\<close> by (simp add: unat_of_nat q_def n_def)
qed

text \<open>The calibration returns if the system clock advances.\<close>

lemma spin_returns: "now \<in> set clock \<Longrightarrow> start + d \<le> now \<Longrightarrow> \<exists>rest. spin d start clock = Some rest"
  by (induction clock) auto

lemma spin_prefix:
  "\<forall>now \<in> set early. now - start < d \<Longrightarrow> start + d \<le> now \<Longrightarrow> spin d start (early @ now # clock) = Some clock"
  by (induction early) auto

lemma calibrate_returns:
  assumes "cal_clock c = [t0] @ early @ [t1, t2] @ clock" "\<forall>now \<in> set early. now - t0 < MILLIS_1000" "t0 + MILLIS_1000 \<le> t1"
    and "now \<in> set clock" "t2 + MILLIS_1000 \<le> now"
  shows "calibrate c = Some (ticks_per_ms (cal_start_tsc c) (cal_end_tsc c))"
  using spin_prefix [OF assms(2,3), of "t2 # clock"] spin_returns [OF assms(4,5)] by (auto simp: calibrate_def assms(1))

section \<open>Properties\<close>

text \<open>
  C15. The frequency and the choice of the clock are fixed at start-up: after
  \<open>memoize_ticks_per_ms_and_invariant_tsc_check\<close>, every sequence of calls of \<open>new\<close> and \<open>elapsed_ms\<close>, from whatever threads and
  whatever \<open>/proc/cpuinfo\<close> and the clocks would show at the time, behaves as with the one description of the
  processor and the one frequency measured first, as the models of all other components assume.\<close>

theorem memoized_timer_constant:
  assumes "memoize_ticks_per_ms_and_invariant_tsc_check v statics_new = Some st"
  shows "\<exists>ticks. calibrate (sur_calibration v) = Some ticks \<and>
    (\<forall>cs. run_calls cs st = map_option (\<lambda>rs. (rs, st)) (plain_calls (sur_cpuinfo v) ticks (map snd cs)))"
proof -
  obtain ticks where "calibrate (sur_calibration v) = Some ticks" "st = fixed_statics (sur_cpuinfo v) ticks"
    by (rule memoized [OF assms])
  then show ?thesis by (simp add: run_calls_fixed)
qed

text \<open>
  C14. Accuracy of the calibrated timer: let the counter advance \<open>rate\<close> ticks per millisecond, and let between 1000
  and \<open>hi\<close> milliseconds pass between the two readings of the counter in the calibration. When \<open>T\<close> full
  milliseconds have passed since a timer was made, \<open>elapsed_ms\<close> returns at most \<open>T\<close>, and more than
  \<open>T * 1000 / hi - 1\<close>.\<close>

theorem calibrated_timer_accuracy:
  assumes "calibrate c = Some ticks"
    and "0 < rate" "rate * 1000 \<le> unat (cal_end_tsc c - cal_start_tsc c)" "unat (cal_end_tsc c - cal_start_tsc c) \<le> rate * hi"
    and "unat (cal_end_tsc c - cal_start_tsc c) < 2 ^ 50"
    and "rate * T \<le> unat (now - start)" "unat (now - start) < rate * (T + 1)"
  shows "\<exists>ms. elapsed_ms ticks now (RDTSC start) = Some ms \<and> unat ms \<le> T \<and> T * 1000 < (unat ms + 1) * hi"
proof -
  have "ticks = ticks_per_ms (cal_start_tsc c) (cal_end_tsc c)" using assms(1) by (auto simp: calibrate_def bind_eq_Some_conv)
  then have t: "unat ticks = unat (cal_end_tsc c - cal_start_tsc c) div 1000" using ticks_per_ms_exact [OF assms(5)] by simp
  with assms(3) have ge: "rate \<le> unat ticks" by (simp add: less_eq_div_iff_mult_less_eq)
  have "1000 * unat ticks \<le> unat (cal_end_tsc c - cal_start_tsc c)" by (simp add: t)
  with assms(4) have le: "1000 * unat ticks \<le> rate * hi" by linarith
  let ?k = "unat (now - start)" let ?ms = "?k div unat ticks"
  have pos: "0 < unat ticks" using ge assms(2) by linarith
  then have "ticks \<noteq> 0" by auto
  then have ms: "elapsed_ms ticks now (RDTSC start) = Some ((now - start) div ticks)" by (simp add: elapsed_ms_def)
  have "?ms \<le> ?k div rate" using div_le_mono2 [OF assms(2) ge] .
  moreover have "?k div rate < T + 1" using assms(7) by (simp add: less_mult_imp_div_less mult.commute)
  ultimately have upper: "?ms \<le> T" by linarith
  have "?k < (?ms + 1) * unat ticks" using dividend_less_div_times [OF pos, of ?k] by (simp add: algebra_simps)
  with assms(6) have "rate * T < (?ms + 1) * unat ticks" by linarith
  then have "1000 * (rate * T) < (?ms + 1) * (1000 * unat ticks)" by simp
  also have "\<dots> \<le> (?ms + 1) * (rate * hi)" using le by (rule mult_le_mono2)
  also have "\<dots> = rate * ((?ms + 1) * hi)" by (rule mult.left_commute)
  finally have "rate * (T * 1000) < rate * ((?ms + 1) * hi)" by (simp only: mult.left_commute mult.commute [of 1000])
  then have "T * 1000 < (?ms + 1) * hi" using assms(2) by simp
  with ms upper show ?thesis by (simp add: unat_div)
qed

definition demo_calibration :: calibration where
  "demo_calibration =
     \<lparr>cal_clock = [5, 1000000100, 1000000200, 1500000000, 2000000300], cal_start_tsc = 7000, cal_end_tsc = 3000010000\<rparr>"

lemma demo_calibrates: "\<exists>ticks. calibrate demo_calibration = Some ticks"
  by (simp add: calibrate_def demo_calibration_def MILLIS_1000_def)

theorem memoized_timer_constant_witness:
  "\<exists>st. memoize_ticks_per_ms_and_invariant_tsc_check
       \<lparr>sur_cpuinfo = Some ''constant_tsc nonstop_tsc'', sur_calibration = demo_calibration\<rparr> statics_new = Some st \<and>
     run_calls [(\<lparr>sur_cpuinfo = None, sur_calibration = demo_calibration\<lparr>cal_clock := []\<rparr>\<rparr>, NewTimer 9)] st =
       Some ([MadeTimer (RDTSC 9)], st)"
proof -
  let ?v = "\<lparr>sur_cpuinfo = Some ''constant_tsc nonstop_tsc'', sur_calibration = demo_calibration\<rparr>"
  obtain st where st: "memoize_ticks_per_ms_and_invariant_tsc_check ?v statics_new = Some st"
    using demo_calibrates
    by (auto simp: memoize_ticks_per_ms_and_invariant_tsc_check_def cell_supports_def cell_ticks_def get_or_init_def statics_new_def)
  have "check_cpu_supports_invariant_tsc (Some ''constant_tsc nonstop_tsc'')" by code_simp
  with memoized_timer_constant [OF st] st show ?thesis by (auto simp: timer_new_def simp del: run_calls.simps)
qed

theorem calibrated_timer_accuracy_witness:
  "\<exists>ticks ms. calibrate demo_calibration = Some ticks \<and> elapsed_ms ticks 300000123 (RDTSC 100) = Some ms \<and>
     unat ms \<le> 100 \<and> 100 * 1000 < (unat ms + 1) * 1001"
proof -
  obtain ticks where t: "calibrate demo_calibration = Some ticks" using demo_calibrates by blast
  from calibrated_timer_accuracy [OF t, of 3000000 1001 100 300000123 100] t show ?thesis
    by (simp add: demo_calibration_def)
qed

end
