(* ===== verification/Banking.thy ===== *)
theory Banking
  imports MinMax_Heap Timer_Clock LRU_Interface
begin

text \<open>
  The transaction container of qos-core/src/banking.rs, which queues scored transactions and sends
  the best of them to signature verification every 100 milliseconds. Readings of the time-stamp counter
  are arguments; the producer end of the shared-memory queue belongs to the external crate \<open>que\<close> and is given by the calls made to it.
  A panic is \<open>None\<close>.
\<close>

section \<open>The container\<close>

record 'p producer_ops =
  p_push :: "Packet \<Rightarrow> 'p \<Rightarrow> 'p"
  p_sync :: "'p \<Rightarrow> 'p"
  p_beat :: "'p \<Rightarrow> 'p"

record ('h, 'p) TransactionContainer =
  priority_queue_heap :: 'h
  transmitter :: "'p option"
  last_send :: Timer
  max_send :: usize

definition SEND_INTERVAL_MS :: usize where "SEND_INTERVAL_MS = 100"

definition QUEUE_CAPACITY :: nat where "QUEUE_CAPACITY = 16384"

definition container_new ::
  "('h, ScoredTransaction) heap_ops \<Rightarrow> 'p option \<Rightarrow> usize \<Rightarrow> Timer \<Rightarrow> ('h, 'p) TransactionContainer" where
  "container_new H tx target_pps timer =
     \<lparr>priority_queue_heap = mm_new H QUEUE_CAPACITY, transmitter = tx, last_send = timer,
      max_send = target_pps * SEND_INTERVAL_MS div 1000\<rparr>"

definition container_beat ::
  "'p producer_ops \<Rightarrow> ('h, 'p) TransactionContainer \<Rightarrow> ('h, 'p) TransactionContainer" where
  "container_beat P c =
     (case transmitter c of None \<Rightarrow> c | Some tx \<Rightarrow> c\<lparr>transmitter := Some (p_beat P tx)\<rparr>)"

definition container_queue ::
  "('h, ScoredTransaction) heap_ops \<Rightarrow> ScoredTransaction \<Rightarrow> ('h, 'p) TransactionContainer \<Rightarrow> Stats
     \<Rightarrow> (('h, 'p) TransactionContainer \<times> Stats) option" where
  "container_queue H scored_transaction c stats = do {
     (evicted, h) \<leftarrow> mm_push H QUEUE_CAPACITY scored_transaction (priority_queue_heap c);
     let is_full = evicted \<noteq> None;
     Some (c\<lparr>priority_queue_heap := h\<rparr>,
           if is_full then stats\<lparr>leaked_priority := leaked_priority stats + 1\<rparr> else stats)
   }"

definition send_tick :: "u64 \<Rightarrow> u64 \<Rightarrow> ('h, 'p) TransactionContainer \<Rightarrow> bool option" where
  "send_tick ticks now c = map_option (\<lambda>ms. SEND_INTERVAL_MS \<le> ms) (elapsed_ms ticks now (last_send c))"

definition is_recent :: "(u64, unit) LRUCache option \<Rightarrow> u64 \<Rightarrow> bool" where
  "is_recent recent_signatures k = (case recent_signatures of None \<Rightarrow> False | Some rs \<Rightarrow> lru_contains rs k)"

text \<open>
  \<open>maybe_retrieve\<close> returns a lazy iterator; here the client runs it to its end. \<open>timer\<close> is the
  timer created when the batch is handed out.
\<close>

definition maybe_retrieve ::
  "('h, ScoredTransaction) heap_ops \<Rightarrow> u64 \<Rightarrow> u64 \<Rightarrow> Timer \<Rightarrow> (u64, unit) LRUCache option
     \<Rightarrow> ('h, 'p) TransactionContainer \<Rightarrow> Stats
     \<Rightarrow> (ScoredTransaction list option \<times> ('h, 'p) TransactionContainer \<times> Stats) option" where
  "maybe_retrieve H ticks now timer recent_signatures c stats = do {
     tick \<leftarrow> send_tick ticks now c;
     if tick then do {
       (batch, skipped, h) \<leftarrow> pull (pop_desc_next H) (\<lambda>tx. \<not> is_recent recent_signatures (st_sig_key tx))
         (unat (max_send c)) (priority_queue_heap c);
       Some (Some batch, c\<lparr>priority_queue_heap := h, last_send := timer\<rparr>,
             stats\<lparr>recently_processed_queued := recently_processed_queued stats + of_nat skipped\<rparr>)
     }
     else Some (None, c, stats)
   }"

definition maybe_transmit ::
  "('h, ScoredTransaction) heap_ops \<Rightarrow> 'p producer_ops \<Rightarrow> u64 \<Rightarrow> u64 \<Rightarrow> Timer \<Rightarrow> (u64, unit) LRUCache
     \<Rightarrow> ('h, 'p) TransactionContainer \<Rightarrow> Stats \<Rightarrow> (('h, 'p) TransactionContainer \<times> Stats) option" where
  "maybe_transmit H P ticks now timer recent_signatures c stats =
     (case transmitter c of
        None \<Rightarrow> None
      | Some tx \<Rightarrow> do {
          tick \<leftarrow> send_tick ticks now c;
          if tick then do {
            (batch, skipped, h) \<leftarrow> pull (pop_desc_next H) (\<lambda>tx. \<not> lru_contains recent_signatures (st_sig_key tx))
              (unat (max_send c)) (priority_queue_heap c);
            let stats = stats\<lparr>recently_processed_queued := recently_processed_queued stats + of_nat skipped\<rparr>;
            let tx = fold (\<lambda>t tx. p_push P (st_packet t) tx) batch tx;
            let sent = (of_nat (length batch) :: usize);
            let tx = p_sync P tx;
            let c = c\<lparr>priority_queue_heap := h, transmitter := Some tx\<rparr>;
            Some (if 0 < sent
                  then (c\<lparr>last_send := timer\<rparr>, stats\<lparr>banking_transmissions := banking_transmissions stats + sent\<rparr>)
                  else (c, stats))
          }
          else Some (c, stats)
        })"

section \<open>Queueing and sending\<close>

abbreviation queue_inv :: "('h \<Rightarrow> bool) \<Rightarrow> ('h \<Rightarrow> ScoredTransaction multiset)
    \<Rightarrow> ('h, ScoredTransaction) heap_ops \<Rightarrow> ('h, 'p) TransactionContainer \<Rightarrow> bool" where
  "queue_inv ok content H c \<equiv> mm_inv st_score ok content H QUEUE_CAPACITY (priority_queue_heap c)"

text \<open>What a batch taken from a queue with content \<open>Q\<close> is, when \<open>Q'\<close> stays behind.\<close>

definition best_batch :: "(u64 \<Rightarrow> bool) \<Rightarrow> nat \<Rightarrow> ScoredTransaction multiset \<Rightarrow> ScoredTransaction list
    \<Rightarrow> nat \<Rightarrow> ScoredTransaction multiset \<Rightarrow> bool" where
  "best_batch recent limit Q batch skipped Q' \<longleftrightarrow>
     (\<exists>R. Q = mset batch + R + Q' \<and> size R = skipped \<and> (\<forall>t \<in># R. recent (st_sig_key t))) \<and>
     (\<forall>t \<in> set batch. \<not> recent (st_sig_key t)) \<and> length batch \<le> limit \<and>
     (length batch < limit \<longrightarrow> Q' = {#}) \<and>
     sorted_wrt (\<lambda>s t. st_score t \<le> st_score s) batch \<and>
     (\<forall>s \<in> set batch. \<forall>t \<in># Q'. st_score t \<le> st_score s)"

lemma pull_best_batch:
  assumes "mm_inv st_score ok content H N h"
  obtains batch skipped h' where
    "pull (pop_desc_next H) (\<lambda>t. \<not> recent (st_sig_key t)) limit h = Some (batch, skipped, h')"
    "mm_inv st_score ok content H N h'" "best_batch recent limit (content h) batch skipped (content h')"
proof -
  from mm.pull_ok [OF assms, of "\<lambda>t. \<not> recent (st_sig_key t)" limit] show ?thesis
    by (elim exE conjE) (rule that, auto simp: best_batch_def)
qed

lemma container_queue_ok:
  assumes "queue_inv ok content H c"
  shows "\<exists>ev h'. mm_push H QUEUE_CAPACITY tx (priority_queue_heap c) = Some (ev, h') \<and>
    container_queue H tx c stats = Some (c\<lparr>priority_queue_heap := h'\<rparr>,
      if ev = None then stats else stats\<lparr>leaked_priority := leaked_priority stats + 1\<rparr>) \<and>
    queue_inv ok content H (c\<lparr>priority_queue_heap := h'\<rparr>)"
  using mm.push_ok [OF assms, of tx] by (auto simp: container_queue_def)

lemma maybe_transmit_ok:
  assumes "queue_inv ok content H c" and "transmitter c = Some tx" and "last_send c = RDTSC t" and "ticks \<noteq> 0"
  obtains (tick) batch skipped h' where "SEND_INTERVAL_MS \<le> (now - t) div ticks"
      "best_batch (lru_contains recent) (unat (max_send c)) (content (priority_queue_heap c)) batch skipped (content h')"
      "mm_inv st_score ok content H QUEUE_CAPACITY h'"
      "maybe_transmit H P ticks now timer recent c stats =
        Some (let sent = (of_nat (length batch) :: usize);
                  c' = c\<lparr>priority_queue_heap := h',
                    transmitter := Some (p_sync P (fold (\<lambda>t tx. p_push P (st_packet t) tx) batch tx))\<rparr>;
                  stats' = stats\<lparr>recently_processed_queued := recently_processed_queued stats + of_nat skipped\<rparr>
              in if 0 < sent
                 then (c'\<lparr>last_send := timer\<rparr>,
                       stats'\<lparr>banking_transmissions := banking_transmissions stats + sent\<rparr>)
                 else (c', stats'))"
  | (wait) "\<not> SEND_INTERVAL_MS \<le> (now - t) div ticks"
      "maybe_transmit H P ticks now timer recent c stats = Some (c, stats)"
proof (cases "SEND_INTERVAL_MS \<le> (now - t) div ticks")
  case True
  obtain batch skipped h' where
    "pull (pop_desc_next H) (\<lambda>t. \<not> lru_contains recent (st_sig_key t)) (unat (max_send c)) (priority_queue_heap c) =
      Some (batch, skipped, h')"
    "mm_inv st_score ok content H QUEUE_CAPACITY h'"
    "best_batch (lru_contains recent) (unat (max_send c)) (content (priority_queue_heap c)) batch skipped (content h')"
    using pull_best_batch [OF assms(1)] by blast
  with True assms show ?thesis
    by (intro tick [of batch skipped h']) (simp_all add: maybe_transmit_def send_tick_def elapsed_ms_def Let_def)
next
  case False
  with assms show ?thesis
    by (intro wait) (simp_all add: maybe_transmit_def send_tick_def elapsed_ms_def)
qed

section \<open>Properties\<close>

text \<open>
  C13. A due transmission sends the best queued transactions: at most \<open>max_send\<close> of them, in
  descending order of score, none of them recently processed, each at least as good as everything
  that stays queued; fewer are sent only if the queue runs empty. All of them are handed to the
  producer in that order before the batch is published, and the counters record sent and skipped
  transactions.
\<close>

theorem transmit_sends_best:
  assumes "queue_inv ok content H c" "transmitter c = Some tx" "last_send c = RDTSC t" "ticks \<noteq> 0"
    and due: "SEND_INTERVAL_MS \<le> (now - t) div ticks"
  shows "\<exists>batch skipped c' stats'.
    maybe_transmit H P ticks now timer recent c stats = Some (c', stats') \<and> queue_inv ok content H c' \<and>
    best_batch (lru_contains recent) (unat (max_send c))
      (content (priority_queue_heap c)) batch skipped (content (priority_queue_heap c')) \<and>
    transmitter c' = Some (p_sync P (fold (p_push P) (map st_packet batch) tx)) \<and>
    banking_transmissions stats' = banking_transmissions stats + of_nat (length batch) \<and>
    recently_processed_queued stats' = recently_processed_queued stats + of_nat skipped"
  using assms(1-4)
proof (cases rule: maybe_transmit_ok [where now = now and recent = recent and P = P and timer = timer
      and stats = stats])
  case (tick batch skipped h')
  have "fold (\<lambda>t tx. p_push P (st_packet t) tx) batch tx = fold (p_push P) (map st_packet batch) tx"
    by (simp add: fold_map comp_def)
  with tick show ?thesis
    by (intro exI [where x = batch] exI [where x = skipped]) (auto simp: Let_def word_neq_0_conv [symmetric])
qed (use due in simp)

definition demo_producer :: "Packet list producer_ops" where
  "demo_producer = \<lparr>p_push = (\<lambda>p ps. ps @ [p]), p_sync = id, p_beat = id\<rparr>"

definition demo_scored :: "rat \<Rightarrow> u8 \<Rightarrow> ScoredTransaction" where
  "demo_scored q b = \<lparr>st_score = Fin q, st_sig_key = ucast b,
     st_packet = demo_packet [b] (Ipv4Addr 10 0 0 b) 80, st_ipv4 = 0\<rparr>"

definition demo_container :: "(ScoredTransaction list, Packet list) TransactionContainer" where
  "demo_container = (container_new (list_heap st_score) (Some []) 20 (RDTSC 0))\<lparr>priority_queue_heap :=
     [demo_scored 1 7, demo_scored 2 8, demo_scored 3 9]\<rparr>"

lemma demo_container_ok:
  "queue_inv (list_heap_ok st_score) mset (list_heap st_score) demo_container"
  "transmitter demo_container = Some []" "last_send demo_container = RDTSC 0" "max_send demo_container = 2"
  using list_heap_laws [of st_score]
  by (simp_all add: mm_inv_def demo_container_def container_new_def demo_scored_def QUEUE_CAPACITY_def
      SEND_INTERVAL_MS_def)

theorem transmit_sends_best_witness:
  "\<exists>(batch :: ScoredTransaction list) c' stats'.
     maybe_transmit (list_heap st_score) demo_producer 1000 200000 (RDTSC 200000) (lru_new 4)
       demo_container Stats_new = Some (c', stats') \<and>
     length batch \<le> 2 \<and> transmitter c' = Some (map st_packet batch) \<and>
     list_all (\<lambda>s. list_all (\<lambda>t. st_score t \<le> st_score s) (priority_queue_heap c')) batch"
proof -
  have due: "SEND_INTERVAL_MS \<le> (200000 - 0) div 1000" by (simp add: SEND_INTERVAL_MS_def)
  have ticks: "(1000::u64) \<noteq> 0" by simp
  have "fold (p_push demo_producer) ps qs = qs @ ps" for ps qs
    by (induction ps arbitrary: qs) (simp_all add: demo_producer_def)
  moreover have "p_sync demo_producer ps = ps" for ps by (simp add: demo_producer_def)
  moreover obtain batch skipped c' stats' where
    "maybe_transmit (list_heap st_score) demo_producer 1000 200000 (RDTSC 200000) (lru_new 4)
       demo_container Stats_new = Some (c', stats')"
    "best_batch (lru_contains (lru_new 4 :: (u64, unit) LRUCache)) (unat (max_send demo_container))
       (mset (priority_queue_heap demo_container)) batch skipped (mset (priority_queue_heap c'))"
    "transmitter c' = Some (p_sync demo_producer (fold (p_push demo_producer) (map st_packet batch) []))"
    using transmit_sends_best [OF demo_container_ok(1-3) ticks due, of demo_producer "RDTSC 200000" "lru_new 4" Stats_new]
    by blast
  ultimately show ?thesis
    using demo_container_ok(4)
    by (intro exI [where x = batch] exI [where x = c'] exI [where x = stats']) (simp add: best_batch_def list_all_iff)
qed

text \<open>
  The sending rate is limited: after a transmission that sent something, nothing is sent (and
  nothing changes) until 100 milliseconds of counter time have passed since its timer was taken.
\<close>

lemma transmit_waits_for_interval:
  assumes "queue_inv ok content H c" "transmitter c = Some tx" "last_send c = RDTSC t" "ticks \<noteq> 0"
    and "maybe_transmit H P ticks now (RDTSC t1) recent c stats = Some (c', stats')"
    and "banking_transmissions stats' \<noteq> banking_transmissions stats"
    and early: "\<not> SEND_INTERVAL_MS \<le> (now' - t1) div ticks"
  shows "maybe_transmit H P ticks now' timer recent' c' stats2 = Some (c', stats2)"
proof -
  from assms(1-4) have "last_send c' = RDTSC t1 \<and> transmitter c' \<noteq> None"
    by (cases rule: maybe_transmit_ok [where now = now and recent = recent and P = P and timer = "RDTSC t1"
          and stats = stats]) (use assms(5,6) in \<open>auto simp: Let_def split: if_splits\<close>)
  with early assms(4) show ?thesis by (auto simp: maybe_transmit_def send_tick_def elapsed_ms_def)
qed

lemma transmit_waits_for_interval_witness:
  "\<exists>c' stats'. maybe_transmit (list_heap st_score) demo_producer 1000 200000 (RDTSC 200000) (lru_new 4)
       demo_container Stats_new = Some (c', stats') \<and>
     maybe_transmit (list_heap st_score) demo_producer 1000 250000 (RDTSC 250000) (lru_new 4) c' stats' =
       Some (c', stats')"
proof -
  have due: "SEND_INTERVAL_MS \<le> (200000 - 0) div 1000" and early: "\<not> SEND_INTERVAL_MS \<le> (250000 - 200000) div 1000"
    by (simp_all add: SEND_INTERVAL_MS_def)
  have none: "\<not> lru_contains (lru_new 4 :: (u64, unit) LRUCache) k" for k
    using lru.contains_ok [OF lru_new_inv [of 4], of k] by (simp add: lru_new_entries)
  have ticks: "(1000::u64) \<noteq> 0" by simp
  from demo_container_ok(1-3) ticks show ?thesis
  proof (cases rule: maybe_transmit_ok [where now = 200000 and recent = "lru_new 4" and P = demo_producer
        and timer = "RDTSC 200000" and stats = Stats_new])
    case (tick batch skipped h')
    then have batch: "mset (priority_queue_heap demo_container) = mset batch + mset h'" "length batch \<le> 2"
      "length batch < 2 \<Longrightarrow> h' = []"
      using none demo_container_ok(4) by (auto simp: best_batch_def)
    from arg_cong [OF batch(1), of size] have "length batch + length h' = 3" by (simp add: demo_container_def)
    with batch(2,3) have len: "length batch = 2" by (cases "length batch < 2") auto
    then obtain c' stats' where run: "maybe_transmit (list_heap st_score) demo_producer 1000 200000 (RDTSC 200000)
        (lru_new 4) demo_container Stats_new = Some (c', stats')"
      "banking_transmissions stats' \<noteq> banking_transmissions Stats_new"
      using tick(4) by (auto simp: Let_def Stats_new_def)
    from transmit_waits_for_interval [OF demo_container_ok(1-3) ticks run early] run(1) show ?thesis by blast
  qed (use due in simp)
qed

text \<open>
  C38. Without an invariant time-stamp counter the timer falls back to \<open>Instant\<close>, for which
  \<open>elapsed_ms\<close> is unimplemented: the first attempt to transmit then panics.
\<close>

theorem fallback_timer_panics:
  assumes "\<not> check_cpu_supports_invariant_tsc cpuinfo"
  shows "elapsed_ms ticks now (timer_new cpuinfo rdtsc) = None \<and>
    maybe_transmit H P ticks now timer recent (container_new H tx target_pps (timer_new cpuinfo rdtsc)) stats = None"
  using assms
  by (auto simp: timer_new_def elapsed_ms_def maybe_transmit_def container_new_def send_tick_def
      split: option.splits)

theorem fallback_timer_panics_witness:
  "elapsed_ms 1000 5 (timer_new (Some ''flags: constant_tsc'') 0) = None"
  by (rule conjunct1 [OF fallback_timer_panics]) (simp add: check_cpu_supports_invariant_tsc_def)

text \<open>
  Elapsed time and rate: for a counter that advanced by \<open>d\<close> ticks since the timer was taken
  (also across a wrap of the 64-bit counter) the elapsed milliseconds are \<open>d div ticks\<close>, and
  the batch limit is a tenth of the configured rate when that rate is below \<open>2^57\<close>.
\<close>

lemma timer_and_rate:
  assumes "ticks \<noteq> 0" and "target_pps < 2 ^ 57"
  shows "elapsed_ms ticks (start + d) (RDTSC start) = Some (d div ticks) \<and>
    unat (max_send (container_new H tx target_pps timer)) = unat target_pps div 10"
proof
  show "elapsed_ms ticks (start + d) (RDTSC start) = Some (d div ticks)"
    using assms(1) by (simp add: elapsed_ms_def)
  have "unat target_pps < 2 ^ 57" using assms(2) by (simp add: word_less_nat_alt)
  then show "unat (max_send (container_new H tx target_pps timer)) = unat target_pps div 10"
    by (simp add: container_new_def SEND_INTERVAL_MS_def unat_div unat_word_ariths)
qed

lemma timer_and_rate_witness:
  "elapsed_ms 1000 (5 + 123456) (RDTSC 5) = Some (123456 div 1000) \<and>
   unat (max_send (container_new (list_heap st_score) (Some ([] :: Packet list)) 1000000 Instant)) = unat (1000000 :: usize) div 10"
  by (rule timer_and_rate) simp_all

end
