(* ===== verification/Shared_Stats.thy ===== *)
theory Shared_Stats
  imports Wire_Data
begin

text \<open>
  The shared-memory statistics of common/src/shared_stats.rs: a spin lock built from two
  compare-and-exchange loops protects a block of counters and a reset flag, used by several
  processes at once. Each process runs \<open>reset\<close>, \<open>read\<close> or \<open>update\<close>; the step relation interleaves
  their memory accesses, one access per step, in sequentially consistent memory. Copying the block of
  counters is one step: no other process accesses it meanwhile (\<open>shared_stats_exclusive\<close>).

  The main result is that every interleaving is equivalent to running the completed operations one
  after the other in the order of their releases (\<open>shared_stats_serial\<close>).
\<close>

section \<open>The operations as sequential functions\<close>

record shared_data =
  sh_stats :: Stats
  sh_should_reset :: u64

datatype stats_op = OpReset | OpRead | OpUpdate Stats

datatype stats_res = ResReset | ResRead Stats | ResUpdate bool

definition run_op :: "stats_op \<Rightarrow> shared_data \<Rightarrow> stats_res \<times> shared_data" where
  "run_op op d =
     (case op of
        OpReset \<Rightarrow> (ResReset, d\<lparr>sh_should_reset := 1, sh_stats := Stats_new\<rparr>)
      | OpRead \<Rightarrow> (ResRead (sh_stats d), d)
      | OpUpdate v \<Rightarrow>
          (ResUpdate (sh_should_reset d \<noteq> 0),
           (if sh_should_reset d = 0 then d\<lparr>sh_stats := v\<rparr> else d)\<lparr>sh_should_reset := 0\<rparr>))"

text \<open>Replaying a log of operations and results; \<open>None\<close> when a logged result is not the right one.\<close>

fun replay :: "shared_data \<Rightarrow> (stats_op \<times> stats_res) list \<Rightarrow> shared_data option" where
  "replay d [] = Some d"
| "replay d ((op, r) # hist) = (if fst (run_op op d) = r then replay (snd (run_op op d)) hist else None)"

section \<open>Interleaved execution\<close>

text \<open>Where a process is: the next access it will make.\<close>

datatype proc =
    Idle
  | Spin stats_op                     \<comment> \<open>\<open>lock.take()\<close>\<close>
  | ResetFlag | ResetStats            \<comment> \<open>the two writes of \<open>reset\<close>\<close>
  | ReadStats                         \<comment> \<open>the clone in \<open>read\<close>\<close>
  | UpdateLoad Stats                  \<comment> \<open>reading the flag in \<open>update\<close>\<close>
  | UpdateStore Stats u64             \<comment> \<open>the conditional write of the counters\<close>
  | UpdateClear Stats u64             \<comment> \<open>clearing the flag\<close>
  | Release stats_op stats_res        \<comment> \<open>\<open>lock.release()\<close>\<close>

fun entry_of :: "stats_op \<Rightarrow> proc" where
  "entry_of OpReset = ResetFlag"
| "entry_of OpRead = ReadStats"
| "entry_of (OpUpdate v) = UpdateLoad v"

record shared_sys =
  sys_lock :: usize
  sys_data :: shared_data
  sys_procs :: "nat \<Rightarrow> proc"
  sys_log :: "(stats_op \<times> stats_res) list"

abbreviation goto :: "nat \<Rightarrow> proc \<Rightarrow> shared_sys \<Rightarrow> shared_sys" where
  "goto i p s \<equiv> s\<lparr>sys_procs := (sys_procs s)(i := p)\<rparr>"

inductive stats_step :: "shared_sys \<Rightarrow> shared_sys \<Rightarrow> bool" where
  call: "sys_procs s i = Idle \<Longrightarrow> stats_step s (goto i (Spin op) s)"
| take_busy: "sys_procs s i = Spin op \<Longrightarrow> sys_lock s \<noteq> 0 \<Longrightarrow> stats_step s s"
| take: "sys_procs s i = Spin op \<Longrightarrow> sys_lock s = 0 \<Longrightarrow> stats_step s (goto i (entry_of op) (s\<lparr>sys_lock := 1\<rparr>))"
| reset_flag: "sys_procs s i = ResetFlag \<Longrightarrow>
    stats_step s (goto i ResetStats (s\<lparr>sys_data := (sys_data s)\<lparr>sh_should_reset := 1\<rparr>\<rparr>))"
| reset_stats: "sys_procs s i = ResetStats \<Longrightarrow>
    stats_step s (goto i (Release OpReset ResReset) (s\<lparr>sys_data := (sys_data s)\<lparr>sh_stats := Stats_new\<rparr>\<rparr>))"
| read_stats: "sys_procs s i = ReadStats \<Longrightarrow>
    stats_step s (goto i (Release OpRead (ResRead (sh_stats (sys_data s)))) s)"
| update_load: "sys_procs s i = UpdateLoad v \<Longrightarrow>
    stats_step s (goto i (UpdateStore v (sh_should_reset (sys_data s))) s)"
| update_store: "sys_procs s i = UpdateStore v flag \<Longrightarrow>
    stats_step s (goto i (UpdateClear v flag)
      (if flag = 0 then s\<lparr>sys_data := (sys_data s)\<lparr>sh_stats := v\<rparr>\<rparr> else s))"
| update_clear: "sys_procs s i = UpdateClear v flag \<Longrightarrow>
    stats_step s (goto i (Release (OpUpdate v) (ResUpdate (flag \<noteq> 0)))
      (s\<lparr>sys_data := (sys_data s)\<lparr>sh_should_reset := 0\<rparr>\<rparr>))"
| release_busy: "sys_procs s i = Release op r \<Longrightarrow> sys_lock s \<noteq> 1 \<Longrightarrow> stats_step s s"
| release: "sys_procs s i = Release op r \<Longrightarrow> sys_lock s = 1 \<Longrightarrow>
    stats_step s (goto i Idle (s\<lparr>sys_lock := 0, sys_log := sys_log s @ [(op, r)]\<rparr>))"

inductive_cases stats_step_elim: "stats_step s s'"

definition sys_init :: "shared_data \<Rightarrow> shared_sys" where
  "sys_init d = \<lparr>sys_lock = 0, sys_data = d, sys_procs = (\<lambda>_. Idle), sys_log = []\<rparr>"

section \<open>Mutual exclusion and serial equivalence\<close>

fun holds_lock :: "proc \<Rightarrow> bool" where
  "holds_lock Idle = False"
| "holds_lock (Spin op) = False"
| "holds_lock _ = True"

text \<open>What the holder has done so far to the data \<open>b\<close> that the previous release left.\<close>

fun progress :: "shared_data \<Rightarrow> proc \<Rightarrow> shared_data \<Rightarrow> bool" where
  "progress b ResetFlag d \<longleftrightarrow> d = b"
| "progress b ResetStats d \<longleftrightarrow> d = b\<lparr>sh_should_reset := 1\<rparr>"
| "progress b ReadStats d \<longleftrightarrow> d = b"
| "progress b (UpdateLoad v) d \<longleftrightarrow> d = b"
| "progress b (UpdateStore v flag) d \<longleftrightarrow> d = b \<and> flag = sh_should_reset b"
| "progress b (UpdateClear v flag) d \<longleftrightarrow>
     d = (if flag = 0 then b\<lparr>sh_stats := v\<rparr> else b) \<and> flag = sh_should_reset b"
| "progress b (Release op r) d \<longleftrightarrow> run_op op b = (r, d)"
| "progress b _ d \<longleftrightarrow> False"

definition sys_inv :: "shared_data \<Rightarrow> shared_sys \<Rightarrow> bool" where
  "sys_inv init s \<longleftrightarrow>
     (\<exists>b. replay init (sys_log s) = Some b \<and>
       (sys_lock s = 0 \<and> sys_data s = b \<and> (\<forall>i. \<not> holds_lock (sys_procs s i)) \<or>
        sys_lock s = 1 \<and> (\<exists>i. progress b (sys_procs s i) (sys_data s) \<and>
          (\<forall>j. j \<noteq> i \<longrightarrow> \<not> holds_lock (sys_procs s j)))))"

lemma progress_holds: "progress b p d \<Longrightarrow> holds_lock p"
  by (cases p) simp_all

lemma progress_entry: "progress b (entry_of op) b"
  by (cases op) simp_all

lemma replay_append:
  "replay d (hist @ hist') = (case replay d hist of None \<Rightarrow> None | Some d' \<Rightarrow> replay d' hist')"
  by (induction d hist rule: replay.induct) auto

text \<open>A process that holds the lock is the unique one the invariant speaks of.\<close>

lemma sys_inv_holder:
  assumes "sys_inv init s" and "holds_lock (sys_procs s i)"
  obtains b where "replay init (sys_log s) = Some b" "sys_lock s = 1" "progress b (sys_procs s i) (sys_data s)"
    "\<And>j. j \<noteq> i \<Longrightarrow> \<not> holds_lock (sys_procs s j)"
  using assms unfolding sys_inv_def by metis

lemma sys_invI_held:
  assumes "replay init (sys_log s) = Some b" "sys_lock s = 1" "progress b (sys_procs s i) (sys_data s)"
    "\<And>j. j \<noteq> i \<Longrightarrow> \<not> holds_lock (sys_procs s j)"
  shows "sys_inv init s"
  using assms unfolding sys_inv_def by blast

lemma sys_inv_move:
  assumes "sys_inv init s" and "holds_lock (sys_procs s i)"
    and "\<And>b. progress b (sys_procs s i) (sys_data s) \<Longrightarrow> progress b p' d'"
  shows "sys_inv init (goto i p' (s\<lparr>sys_data := d'\<rparr>))"
proof -
  from sys_inv_holder [OF assms(1,2)] obtain b where "replay init (sys_log s) = Some b" "sys_lock s = 1"
    "progress b (sys_procs s i) (sys_data s)" "\<And>j. j \<noteq> i \<Longrightarrow> \<not> holds_lock (sys_procs s j)" by blast
  with assms(3) show ?thesis by (intro sys_invI_held [where b = b and i = i]) simp_all
qed

lemma set_data_id: "s\<lparr>sys_data := sys_data s\<rparr> = (s :: shared_sys)"
  by (cases s) simp

lemma sys_inv_step:
  assumes "stats_step s s'" and inv: "sys_inv init s"
  shows "sys_inv init s'"
  using assms(1)
proof cases
  case (call i op)
  then show ?thesis using inv unfolding sys_inv_def
    by (auto simp: fun_upd_def) (metis progress_holds holds_lock.simps(1))
next
  case (take i op)
  from inv take(3) obtain b where b: "replay init (sys_log s) = Some b" "sys_data s = b"
    "\<And>j. \<not> holds_lock (sys_procs s j)" unfolding sys_inv_def by auto
  show ?thesis unfolding take(1)
    by (rule sys_invI_held [of _ _ b i]) (use b progress_entry in auto)
next
  case (release i op r)
  with sys_inv_holder [OF inv, of i] obtain b where b: "replay init (sys_log s) = Some b"
    "run_op op b = (r, sys_data s)" "\<And>j. j \<noteq> i \<Longrightarrow> \<not> holds_lock (sys_procs s j)" by auto
  then show ?thesis by (auto simp: release(1) sys_inv_def replay_append)
next
  case (reset_flag i)
  then show ?thesis using sys_inv_move [OF inv, of i ResetStats] by simp
next
  case (reset_stats i)
  then show ?thesis using sys_inv_move [OF inv, of i "Release OpReset ResReset"] by (simp add: run_op_def)
next
  case (read_stats i)
  then show ?thesis using sys_inv_move [OF inv, of i _ "sys_data s"] by (simp add: run_op_def set_data_id)
next
  case (update_load i v)
  then show ?thesis using sys_inv_move [OF inv, of i _ "sys_data s"] by (simp add: set_data_id)
next
  case (update_store i v flag)
  then show ?thesis
    using sys_inv_move [OF inv, of i "UpdateClear v flag" "if flag = 0 then (sys_data s)\<lparr>sh_stats := v\<rparr> else sys_data s"]
    by (cases "flag = 0") (simp_all add: set_data_id)
next
  case (update_clear i v flag)
  then show ?thesis using sys_inv_move [OF inv, of i "Release (OpUpdate v) (ResUpdate (flag \<noteq> 0))"]
    by (simp add: run_op_def)
qed (use inv in simp_all)

lemma sys_inv_reachable: "stats_step\<^sup>*\<^sup>* (sys_init d) s \<Longrightarrow> sys_inv d s"
  by (induction rule: rtranclp_induct) (auto simp: sys_inv_step, simp add: sys_init_def sys_inv_def)

section \<open>Deadlock freedom\<close>

text \<open>The state reached when the holder of the lock has finished: its process is idle again and its operation is logged.\<close>

definition finished :: "nat \<Rightarrow> stats_op \<Rightarrow> shared_sys \<Rightarrow> shared_sys \<Rightarrow> bool" where
  "finished i op s s' \<longleftrightarrow>
     sys_lock s' = 0 \<and> sys_procs s' = (sys_procs s)(i := Idle) \<and> (\<exists>r. sys_log s' = sys_log s @ [(op, r)])"

lemma finishI:
  assumes "stats_step s t" and "\<exists>s'. stats_step\<^sup>*\<^sup>* t s' \<and> finished i op t s'"
    and "sys_log t = sys_log s" and "(sys_procs t)(i := Idle) = (sys_procs s)(i := Idle)"
  shows "\<exists>s'. stats_step\<^sup>*\<^sup>* s s' \<and> finished i op s s'"
  using assms unfolding finished_def by (metis converse_rtranclp_into_rtranclp)

lemma finish_release:
  assumes "sys_procs s i = Release op r" and "sys_lock s = 1"
  shows "\<exists>s'. stats_step\<^sup>*\<^sup>* s s' \<and> finished i op s s'"
  by (rule exI, rule conjI [OF r_into_rtranclp [of stats_step, OF stats_step.release [OF assms]]]) (simp add: finished_def)

lemma finish_reset_stats:
  assumes "sys_procs s i = ResetStats" and "sys_lock s = 1"
  shows "\<exists>s'. stats_step\<^sup>*\<^sup>* s s' \<and> finished i OpReset s s'"
  using assms by (intro finishI [OF stats_step.reset_stats [OF assms(1)] finish_release]) simp_all

lemma finish_update_clear:
  assumes "sys_procs s i = UpdateClear v flag" and "sys_lock s = 1"
  shows "\<exists>s'. stats_step\<^sup>*\<^sup>* s s' \<and> finished i (OpUpdate v) s s'"
  using assms by (intro finishI [OF stats_step.update_clear [OF assms(1)] finish_release]) simp_all

lemma finish_update_store:
  assumes "sys_procs s i = UpdateStore v flag" and "sys_lock s = 1"
  shows "\<exists>s'. stats_step\<^sup>*\<^sup>* s s' \<and> finished i (OpUpdate v) s s'"
  using assms by (intro finishI [OF stats_step.update_store [OF assms(1)] finish_update_clear]) simp_all

lemma finish_entry:
  assumes "sys_procs s i = entry_of op" and "sys_lock s = 1"
  shows "\<exists>s'. stats_step\<^sup>*\<^sup>* s s' \<and> finished i op s s'"
proof (cases op)
  case OpReset
  with assms show ?thesis
    by (intro finishI [OF stats_step.reset_flag [of s i]]) (auto intro!: finish_reset_stats)
next
  case OpRead
  with assms show ?thesis
    by (intro finishI [OF stats_step.read_stats [of s i]]) (auto intro!: finish_release)
next
  case (OpUpdate v)
  with assms show ?thesis
    by (intro finishI [OF stats_step.update_load [of s i v]]) (auto intro!: finish_update_store)
qed

lemma holder_finishes:
  assumes "holds_lock (sys_procs s i)" and "sys_lock s = 1"
  shows "\<exists>op s'. stats_step\<^sup>*\<^sup>* s s' \<and> finished i op s s'"
proof (cases "sys_procs s i")
  case ResetFlag
  with assms(2) show ?thesis using finish_entry [of s i OpReset] by auto
next
  case ReadStats
  with assms(2) show ?thesis using finish_entry [of s i OpRead] by auto
next
  case (UpdateLoad v)
  with assms(2) show ?thesis using finish_entry [of s i "OpUpdate v"] by auto
next
  case ResetStats
  then show ?thesis using finish_reset_stats assms(2) by blast
next
  case (UpdateStore v flag)
  then show ?thesis using finish_update_store assms(2) by blast
next
  case (UpdateClear v flag)
  then show ?thesis using finish_update_clear assms(2) by blast
next
  case (Release op r)
  then show ?thesis using finish_release assms(2) by blast
qed (use assms(1) in simp_all)

lemma lock_can_be_free:
  assumes "sys_inv d s" and "\<not> holds_lock (sys_procs s i)"
  shows "\<exists>s'. stats_step\<^sup>*\<^sup>* s s' \<and> sys_lock s' = 0 \<and> sys_procs s' i = sys_procs s i"
proof (cases "sys_lock s = 0")
  case False
  with assms(1) obtain j where j: "holds_lock (sys_procs s j)" "sys_lock s = 1"
    unfolding sys_inv_def using progress_holds by blast
  with assms(2) have "i \<noteq> j" by blast
  with holder_finishes [OF j] show ?thesis unfolding finished_def by (metis fun_upd_other)
qed auto

lemma spinning_finishes:
  assumes "sys_inv d s" and spin: "sys_procs s i = Spin op"
  shows "\<exists>s' hist r. stats_step\<^sup>*\<^sup>* s s' \<and> sys_procs s' i = Idle \<and> sys_log s' = hist @ [(op, r)]"
proof -
  from lock_can_be_free [of d s i] assms obtain t where
    t: "stats_step\<^sup>*\<^sup>* s t" "sys_lock t = 0" "sys_procs t i = Spin op" by auto
  let ?u = "goto i (entry_of op) (t\<lparr>sys_lock := 1\<rparr>)"
  obtain s' where "stats_step\<^sup>*\<^sup>* ?u s'" "finished i op ?u s'" using finish_entry [of ?u i op] by auto
  moreover have "stats_step t ?u" by (rule stats_step.take [OF t(3,2)])
  ultimately show ?thesis using t(1) unfolding finished_def
    by (metis (no_types, lifting) converse_rtranclp_into_rtranclp fun_upd_same rtranclp_trans)
qed

section \<open>Reset requests\<close>

lemma replay_reads:
  assumes "\<forall>e\<in>set mid. fst e = OpRead" and "replay d mid = Some d'"
  shows "d' = d"
  using assms by (induction d mid rule: replay.induct) (auto simp: run_op_def split: if_splits)

lemma replay_reset_update:
  assumes "replay d (pre @ (OpReset, r) # mid @ (OpUpdate v, r') # post) = Some d'"
    and "\<forall>e\<in>set mid. fst e = OpRead"
  shows "r' = ResUpdate True \<and> replay \<lparr>sh_stats = Stats_new, sh_should_reset = 0\<rparr> post = Some d'"
proof -
  let ?z = "\<lparr>sh_stats = Stats_new, sh_should_reset = 1\<rparr>"
  have run: "snd (run_op OpReset x) = ?z" for x by (cases x) (simp add: run_op_def)
  from assms(1) obtain d2 where mid: "replay ?z mid = Some d2"
    and rest: "replay d2 ((OpUpdate v, r') # post) = Some d'"
    by (auto simp: replay_append run split: option.splits if_splits)
  from replay_reads [OF assms(2) mid] rest show ?thesis by (auto simp: run_op_def split: if_splits)
qed

section \<open>Properties\<close>

text \<open>
  C17. Every interleaving of \<open>reset\<close>, \<open>read\<close> and \<open>update\<close> by any number of processes behaves as if the
  operations had run one after the other in the order of their releases: replaying them in that
  order gives each of them the result it returned, and whenever the lock is free the shared block
  holds exactly what the replay computes.\<close>

theorem shared_stats_serial:
  assumes "stats_step\<^sup>*\<^sup>* (sys_init d) s"
  shows "\<exists>b. replay d (sys_log s) = Some b \<and> (sys_lock s = 0 \<longrightarrow> sys_data s = b)"
  using sys_inv_reachable [OF assms] unfolding sys_inv_def by auto

text \<open>
  A run of two processes: process 0 takes the lock for an update while process 1 asks for a reset
  and has to wait.\<close>

definition demo_data :: shared_data where
  "demo_data = \<lparr>sh_stats = Stats_new, sh_should_reset = 0\<rparr>"

definition demo_stats :: Stats where
  "demo_stats = Stats_new\<lparr>total_packets := 7\<rparr>"

definition demo_contended :: shared_sys where
  "demo_contended =
     \<lparr>sys_lock = 1, sys_data = demo_data,
      sys_procs = (\<lambda>_. Idle)(0 := UpdateLoad demo_stats, 1 := Spin OpReset), sys_log = []\<rparr>"

definition demo_final :: shared_sys where
  "demo_final =
     \<lparr>sys_lock = 0, sys_data = demo_data\<lparr>sh_stats := demo_stats\<rparr>,
      sys_procs = (\<lambda>_. Idle)(1 := Spin OpReset), sys_log = [(OpUpdate demo_stats, ResUpdate False)]\<rparr>"

lemma stats_step_next: "stats_step\<^sup>*\<^sup>* a s \<Longrightarrow> stats_step s t \<Longrightarrow> t = u \<Longrightarrow> stats_step\<^sup>*\<^sup>* a u"
  by simp

lemma demo_contended_reachable: "stats_step\<^sup>*\<^sup>* (sys_init demo_data) demo_contended"
  by (rule stats_step_next [OF stats_step_next [OF stats_step_next [OF rtranclp.rtrancl_refl
        stats_step.call [of _ 0 "OpUpdate demo_stats"] refl]
        stats_step.call [of _ 1 OpReset] refl]
        stats_step.take [of _ 0 "OpUpdate demo_stats"]])
     (auto simp: sys_init_def demo_contended_def fun_eq_iff)

lemma demo_final_reachable: "stats_step\<^sup>*\<^sup>* (sys_init demo_data) demo_final"
  by (rule stats_step_next [OF stats_step_next [OF stats_step_next [OF stats_step_next [OF demo_contended_reachable
        stats_step.update_load [of _ 0 demo_stats] refl]
        stats_step.update_store [of _ 0 demo_stats 0] refl]
        stats_step.update_clear [of _ 0 demo_stats 0] refl]
        stats_step.release [of _ 0 "OpUpdate demo_stats" "ResUpdate False"]])
     (auto simp: demo_contended_def demo_final_def demo_data_def fun_eq_iff)

theorem shared_stats_serial_witness:
  "replay demo_data (sys_log demo_final) = Some (sys_data demo_final)"
  using shared_stats_serial [OF demo_final_reachable] by (auto simp: demo_final_def)

text \<open>
  C25. Mutual exclusion: at most one process is between \<open>take\<close> and the end of \<open>release\<close>, and while one is,
  the lock word is 1, so the compare-and-exchange of \<open>release\<close> succeeds at once.\<close>

theorem shared_stats_exclusive:
  assumes "stats_step\<^sup>*\<^sup>* (sys_init d) s" and "holds_lock (sys_procs s i)" and "holds_lock (sys_procs s j)"
  shows "i = j \<and> sys_lock s = 1"
  using sys_inv_holder [OF sys_inv_reachable [OF assms(1)] assms(2)] assms(3) by metis

theorem shared_stats_exclusive_witness:
  "sys_lock demo_contended = 1 \<and> \<not> holds_lock (sys_procs demo_contended 1)"
  using shared_stats_exclusive [OF demo_contended_reachable, of 0 0] shared_stats_exclusive [OF demo_contended_reachable, of 0 1]
  by (auto simp: demo_contended_def)

text \<open>
  The lock cannot deadlock: from every reachable state in which a process waits for the lock, the
  processes can continue so that this process completes its operation and returns.\<close>

lemma shared_stats_no_deadlock:
  assumes "stats_step\<^sup>*\<^sup>* (sys_init d) s" and "sys_procs s i = Spin op"
  shows "\<exists>s' hist r. stats_step\<^sup>*\<^sup>* s s' \<and> sys_procs s' i = Idle \<and> sys_log s' = hist @ [(op, r)]"
  by (rule spinning_finishes [OF sys_inv_reachable [OF assms(1)] assms(2)])

lemma shared_stats_no_deadlock_witness:
  "\<exists>s' hist r. stats_step\<^sup>*\<^sup>* demo_contended s' \<and> sys_procs s' 1 = Idle \<and> sys_log s' = hist @ [(OpReset, r)]"
  using shared_stats_no_deadlock [OF demo_contended_reachable, of 1 OpReset] by (simp add: demo_contended_def)

text \<open>
  A reset request is delivered exactly once: in every run, the first \<open>update\<close> released after a
  \<open>reset\<close> (with only reads in between) reports the reset to its caller and does not overwrite the
  cleared counters; the operations after it run from the cleared block with the request gone.\<close>

lemma shared_stats_reset_delivered:
  assumes "stats_step\<^sup>*\<^sup>* (sys_init d) s"
    and "sys_log s = pre @ (OpReset, r) # mid @ (OpUpdate v, r') # post"
    and "\<forall>e\<in>set mid. fst e = OpRead"
  shows "r' = ResUpdate True \<and> replay \<lparr>sh_stats = Stats_new, sh_should_reset = 0\<rparr> post \<noteq> None"
  using sys_inv_reachable [OF assms(1)] replay_reset_update [of d pre r mid v r' post] assms(2,3)
  unfolding sys_inv_def by auto

text \<open>The run continued: process 1 resets, then process 0 updates again.\<close>

definition demo_reset :: shared_sys where
  "demo_reset =
     \<lparr>sys_lock = 0, sys_data = demo_data\<lparr>sh_should_reset := 1\<rparr>,
      sys_procs = (\<lambda>_. Idle), sys_log = [(OpUpdate demo_stats, ResUpdate False), (OpReset, ResReset)]\<rparr>"

definition demo_acknowledged :: shared_sys where
  "demo_acknowledged =
     \<lparr>sys_lock = 0, sys_data = demo_data, sys_procs = (\<lambda>_. Idle),
      sys_log = [(OpUpdate demo_stats, ResUpdate False), (OpReset, ResReset), (OpUpdate demo_stats, ResUpdate True)]\<rparr>"

lemma demo_reset_reachable: "stats_step\<^sup>*\<^sup>* (sys_init demo_data) demo_reset"
  by (rule stats_step_next [OF stats_step_next [OF stats_step_next [OF stats_step_next [OF demo_final_reachable
        stats_step.take [of _ 1 OpReset] refl]
        stats_step.reset_flag [of _ 1] refl]
        stats_step.reset_stats [of _ 1] refl]
        stats_step.release [of _ 1 OpReset ResReset]])
     (auto simp: demo_reset_def demo_final_def demo_data_def fun_eq_iff)

lemma demo_acknowledged_reachable: "stats_step\<^sup>*\<^sup>* (sys_init demo_data) demo_acknowledged"
  by (rule stats_step_next [OF stats_step_next [OF stats_step_next [OF stats_step_next [OF stats_step_next
        [OF stats_step_next [OF demo_reset_reachable
        stats_step.call [of _ 0 "OpUpdate demo_stats"] refl]
        stats_step.take [of _ 0 "OpUpdate demo_stats"] refl]
        stats_step.update_load [of _ 0 demo_stats] refl]
        stats_step.update_store [of _ 0 demo_stats 1] refl]
        stats_step.update_clear [of _ 0 demo_stats 1] refl]
        stats_step.release [of _ 0 "OpUpdate demo_stats" "ResUpdate True"]])
     (auto simp: demo_acknowledged_def demo_reset_def demo_data_def fun_eq_iff)

lemma shared_stats_reset_delivered_witness:
  "snd (sys_log demo_acknowledged ! 2) = ResUpdate True \<and>
   replay \<lparr>sh_stats = Stats_new, sh_should_reset = 0\<rparr> [] \<noteq> None"
  using shared_stats_reset_delivered [OF demo_acknowledged_reachable,
    of "[(OpUpdate demo_stats, ResUpdate False)]" ResReset "[]" demo_stats "ResUpdate True" "[]"]
  by (simp add: demo_acknowledged_def)

end
