(* ===== verification/Score_File.thy ===== *)
theory Score_File
  imports Text_Format Ip_Signer_Model
begin

text \<open>
  The score file (\<open>save_ip_scores\<close> of model/src/models/ip_signer.rs): one line \<open>address score\<close> per stored
  address, written after every model update and at exit.

  Files are a map from paths to contents. \<open>room\<close> is the behaviour of the disk: \<open>None\<close> if the file cannot be
  created, otherwise the number of characters that can be written before a write fails. Printing a score
  (\<open>Display\<close> of \<open>f64\<close>) is the parameter \<open>fmt\<close>.
\<close>

section \<open>Writing\<close>

type_synonym files = "string \<rightharpoonup> string"

record disk_ops =
  disk_room :: "files \<Rightarrow> string \<Rightarrow> nat option"
  disk_fmt :: "f64 \<Rightarrow> string"

definition score_line :: "(f64 \<Rightarrow> string) \<Rightarrow> u32 \<Rightarrow> f64 \<Rightarrow> string" where
  "score_line fmt ip score = show_ipv4 (ipv4_from_bits ip) @ '' '' @ fmt score @ [newline]"

text \<open>The entries in the order of \<open>iter\<close>.\<close>

definition ip_score_entries :: "('ms, 'mi, 'vs, 'vi) model_trees \<Rightarrow> ('ms, 'mi, 'vs, 'vi, 'z) IpSignerModel_scheme
    \<Rightarrow> (u32 \<times> f64) list" where
  "ip_score_entries T m =
     map (\<lambda>ip. (ip, the (t_get (ip_tree T) (ip_score m) ip))) (t_keys (ip_tree T) (ip_score m))"

text \<open>The loop: the first failing write ends it, leaving what fitted.\<close>

fun write_scores :: "(f64 \<Rightarrow> string) \<Rightarrow> nat \<Rightarrow> (u32 \<times> f64) list \<Rightarrow> string \<Rightarrow> string" where
  "write_scores fmt room [] content = content"
| "write_scores fmt room ((ip, score) # entries) content =
     (let line = score_line fmt ip score
      in if length line \<le> room then write_scores fmt (room - length line) entries (content @ line)
         else content @ take room line)"

definition save_ip_scores :: "disk_ops \<Rightarrow> ('ms, 'mi, 'vs, 'vi) model_trees
    \<Rightarrow> ('ms, 'mi, 'vs, 'vi, 'z) IpSignerModel_scheme \<Rightarrow> string \<Rightarrow> files \<Rightarrow> files" where
  "save_ip_scores D T m arg files =
     (case disk_room D files arg of
        None \<Rightarrow> files
      | Some room \<Rightarrow> files(arg \<mapsto> write_scores (disk_fmt D) room (ip_score_entries T m) []))"

section \<open>Contents\<close>

lemma write_scores_prefix:
  "write_scores fmt room es content = content @ take room (concat (map (\<lambda>(ip, score). score_line fmt ip score) es))"
  by (induction fmt room es content rule: write_scores.induct) (auto simp: Let_def)

lemma ip_key_surj: obtains a b c d where "k = ip_key (Ipv4Addr a b c d)"
proof -
  have "\<exists>a b c d. xs = [a, b, c, d]" if "length xs = 4" for xs :: "u8 list"
    using that by (auto simp: numeral_eq_Suc length_Suc_conv)
  from this [OF length_to_le_bytes] obtain a b c d where "to_le_bytes 4 k = [a, b, c, d]" by blast
  moreover have "from_le_bytes (to_le_bytes 4 k) = k" by simp
  ultimately have "k = ip_key (Ipv4Addr a b c d)" by (simp add: ip_key_def)
  then show ?thesis by (rule that)
qed

lemma printed_address_inj: "inj (\<lambda>k. show_ipv4 (ipv4_from_bits k))"
proof (rule injI)
  fix k l assume "show_ipv4 (ipv4_from_bits k) = show_ipv4 (ipv4_from_bits l)"
  then have "ipv4_from_bits k = ipv4_from_bits l" by (rule show_ipv4_inject)
  then show "k = l" by (cases k rule: ip_key_surj; cases l rule: ip_key_surj) (auto simp: ipv4_from_bits_key)
qed

lemma map_of_inj:
  assumes "inj f"
  shows "map_of (map (\<lambda>(k, v). (f k, g v)) es) (f k) = map_option g (map_of es k)"
  by (induction es) (auto simp: inj_eq [OF assms])

text \<open>Reading a score file back: the second word of a line belongs to the first.\<close>

definition score_table :: "string \<Rightarrow> string \<rightharpoonup> string" where
  "score_table text =
     map_of (map (\<lambda>line. case split_whitespace line of [x, y] \<Rightarrow> (x, y) | _ \<Rightarrow> ([], [])) (lines_of text))"

lemma score_table_entries:
  assumes fmt: "\<forall>v. fmt v \<noteq> [] \<and> list_all (\<lambda>c. \<not> is_space c) (fmt v)"
  shows "score_table (concat (map (\<lambda>(k, v). score_line fmt k v) es)) =
    map_of (map (\<lambda>(k, v). (show_ipv4 (ipv4_from_bits k), fmt v)) es)"
proof -
  let ?l = "\<lambda>(k, v). show_ipv4 (ipv4_from_bits k) @ '' '' @ fmt v"
  have "map (\<lambda>(k, v). score_line fmt k v) es = map (\<lambda>l. l @ [newline]) (map ?l es)"
    by (auto simp: score_line_def)
  moreover have "is_space newline" "is_space (CHR 0x0D)" by (simp_all add: is_space_def newline_def)
  then have "\<forall>l \<in> set (map ?l es). newline \<notin> set l \<and> CHR 0x0D \<notin> set l"
    using fmt show_ipv4_no_space by (fastforce simp: list_all_iff newline_def)
  ultimately have "lines_of (concat (map (\<lambda>(k, v). score_line fmt k v) es)) = map ?l es" by (simp only: lines_of_concat)
  moreover have "split_whitespace (?l (k, v)) = [show_ipv4 (ipv4_from_bits k), fmt v]" for k v
    using split_two_words fmt show_ipv4_no_space by auto
  ultimately show ?thesis by (simp add: score_table_def comp_def split_def)
qed

lemma saved_scores:
  assumes "model_laws NS NI Ok T" and "model_inv Ok T m"
    and fmt: "\<forall>v. disk_fmt D v \<noteq> [] \<and> list_all (\<lambda>c. \<not> is_space c) (disk_fmt D v)"
    and room: "disk_room D files arg = Some room"
      "length (concat (map (\<lambda>(k, v). score_line (disk_fmt D) k v) (ip_score_entries T m))) \<le> room"
  obtains contents where "save_ip_scores D T m arg files = files(arg \<mapsto> contents)"
    "\<And>a b c d. score_table contents (show_ipv4 (Ipv4Addr d c b a)) =
       map_option (disk_fmt D) (ip_score_map T m (ip_key (Ipv4Addr a b c d)))"
proof -
  let ?text = "concat (map (\<lambda>(k, v). score_line (disk_fmt D) k v) (ip_score_entries T m))"
  have save: "save_ip_scores D T m arg files = files(arg \<mapsto> ?text)"
    using room by (simp add: save_ip_scores_def write_scores_prefix)
  have keys: "set (t_keys (ip_tree T) (ip_score m)) = dom (ip_score_map T m)"
    using model_lawsD(2) [OF assms(1)] model_invD(2) [OF assms(2)]
    by (intro tree_size(6) [where cap = NI and ok = "ok_ip Ok"]) (simp_all add: tables_ok_def table_inv_def)
  have entries: "map_of (ip_score_entries T m) k = ip_score_map T m k" for k
    using keys by (auto simp: ip_score_entries_def map_of_map_restrict restrict_map_def comp_def domIff)
  have "score_table ?text (show_ipv4 (ipv4_from_bits k)) = map_option (disk_fmt D) (ip_score_map T m k)" for k
    unfolding score_table_entries [OF fmt] map_of_inj [OF printed_address_inj] entries ..
  from this [of "ip_key (Ipv4Addr _ _ _ _)"] have read: "score_table ?text (show_ipv4 (Ipv4Addr d c b a)) =
      map_option (disk_fmt D) (ip_score_map T m (ip_key (Ipv4Addr a b c d)))" for a b c d
    by (simp only: ipv4_from_bits_key)
  from save read show ?thesis by (rule that)
qed

end
