(* ===== verification/QoS_Main.thy ===== *)
theory QoS_Main
  imports Packet_Processor Banking Shared_Stats Score_File
begin

text \<open>
  The main loop of the QoS process (qos/src/main.rs): packets from four channels are processed,
  scored, queued and transmitted; confirmed signatures, execution results and failed signature
  checks arrive on three more channels and feed the filters and the model.

  A channel is the list of messages its consumer would pop next (the shared-memory queues are
  external); the readings of the time-stamp counter come with the packets. The lines logged have no
  effect on the state and are left out. \<open>qos_files\<close> holds the files the process has written. With the feature
  \<open>demo\<close> the process also publishes its counters in the shared block of \<open>Shared_Stats\<close>; without it
  \<open>qos_shared\<close> is \<open>None\<close>. A panic is \<open>None\<close>.
\<close>

section \<open>State and environment\<close>

definition LRU_CAP :: nat where "LRU_CAP = 1024 * 1024"

definition MODEL_CAP :: nat where "MODEL_CAP = 16384"

record ('ms, 'mi, 'vs, 'vi, 'v, 'tx, 'h, 'p) qos_env =
  env_view :: "('v, 'tx) view_ops"
  env_trees :: "('ms, 'mi, 'vs, 'vi) model_trees"
  env_heap :: "('h, ScoredTransaction) heap_ops"
  env_producer :: "'p producer_ops"
  env_hash :: "u8 list \<Rightarrow> u64"
  env_ticks :: u64
  env_cpuinfo :: "string option"
  env_disk :: disk_ops
  arg_max_signers :: nat
  arg_max_ips :: nat

record ('ms, 'mi, 'vs, 'vi, 'h, 'p) qos_state =
  qos_model_st :: "('ms, 'mi, 'vs, 'vi) IpSignerModel"
  qos_tx_partial_metas :: meta_cache
  qos_tx_complete_metas :: "unit QoSTransactionMeta list"
  qos_container :: "('h, 'p) TransactionContainer"
  qos_recent_signatures :: sig_cache
  qos_stats :: Stats
  qos_timer :: Timer
  qos_last_log :: u64
  qos_last_save :: u64
  qos_shared :: "shared_data option"
  qos_files :: files

text \<open>A packet with the two counter readings taken when a transmission is attempted after it.\<close>

type_synonym arrival = "Packet \<times> u64 \<times> u64"

section \<open>The consumers\<close>

definition consume_packet :: "('ms, 'mi, 'vs, 'vi, 'v, 'tx, 'h, 'p) qos_env \<Rightarrow> arrival
    \<Rightarrow> ('ms, 'mi, 'vs, 'vi, 'h, 'p) qos_state \<Rightarrow> ('ms, 'mi, 'vs, 'vi, 'h, 'p) qos_state option" where
  "consume_packet E = (\<lambda>(packet, now, now') s. do {
     (result, model, metas, stats) \<leftarrow> try_process_packet (env_view E) (env_trees E) (env_hash E) LRU_CAP packet
       (Some (qos_recent_signatures s)) (qos_model_st s) (qos_tx_partial_metas s) (qos_stats s);
     let s = s\<lparr>qos_model_st := model, qos_tx_partial_metas := metas\<rparr>;
     case result of
       Inl _ \<Rightarrow> Some (s\<lparr>qos_stats := stats\<rparr>)
     | Inr scored_transaction \<Rightarrow> do {
         let stats = (if st_score scored_transaction = ZERO then stats\<lparr>zero_score := zero_score stats + 1\<rparr> else stats);
         (c, stats) \<leftarrow> container_queue (env_heap E) scored_transaction (qos_container s) stats;
         (c, stats) \<leftarrow> maybe_transmit (env_heap E) (env_producer E) (env_ticks E) now
           (timer_new (env_cpuinfo E) now') (qos_recent_signatures s) c stats;
         Some (s\<lparr>qos_container := c, qos_stats := stats\<rparr>)
       }
   })"

fun consume_packets :: "('ms, 'mi, 'vs, 'vi, 'v, 'tx, 'h, 'p) qos_env \<Rightarrow> nat \<Rightarrow> arrival list
    \<Rightarrow> ('ms, 'mi, 'vs, 'vi, 'h, 'p) qos_state
    \<Rightarrow> (arrival list \<times> ('ms, 'mi, 'vs, 'vi, 'h, 'p) qos_state) option" where
  "consume_packets E 0 arrivals s = Some (arrivals, s)"
| "consume_packets E (Suc n) [] s = Some ([], s)"
| "consume_packets E (Suc n) (a # arrivals) s = do { s \<leftarrow> consume_packet E a s; consume_packets E n arrivals s }"

definition consume_transaction_packets :: "('ms, 'mi, 'vs, 'vi, 'v, 'tx, 'h, 'p) qos_env \<Rightarrow> arrival list
    \<Rightarrow> ('ms, 'mi, 'vs, 'vi, 'h, 'p) qos_state
    \<Rightarrow> (arrival list \<times> ('ms, 'mi, 'vs, 'vi, 'h, 'p) qos_state) option" where
  "consume_transaction_packets E arrivals s = do {
     (arrivals, s) \<leftarrow> consume_packets E 1000 arrivals s;
     Some (arrivals, s\<lparr>qos_container := container_beat (env_producer E) (qos_container s)\<rparr>)
   }"

fun consume_recent_signatures :: "u8 list list
    \<Rightarrow> ('ms, 'mi, 'vs, 'vi, 'h, 'p) qos_state \<Rightarrow> ('ms, 'mi, 'vs, 'vi, 'h, 'p) qos_state option" where
  "consume_recent_signatures [] s = Some s"
| "consume_recent_signatures (signature # signatures) s = do {
     (_, recent) \<leftarrow> lru_put LRU_CAP (u64_key signature) () (qos_recent_signatures s);
     let stats = qos_stats s;
     consume_recent_signatures signatures
       (s\<lparr>qos_recent_signatures := recent,
          qos_stats := stats\<lparr>recent_signatures_received := recent_signatures_received stats + 1\<rparr>\<rparr>)
   }"

definition TEN :: f64 where "TEN = f64_lit 10"

definition complete_entry :: "QoSPartialMeta \<Rightarrow> unit QoSRemainingMeta \<Rightarrow> unit QoSTransactionMeta" where
  "complete_entry partial_meta remaining_meta =
     (let was_scheduled = 0 < rm_execution_nanos remaining_meta;
          entry = merge partial_meta remaining_meta
      in if was_scheduled then entry\<lparr>tm_value := f64_mul (tm_value entry) TEN\<rparr> else entry)"

definition UPDATE_THRESHOLD :: nat where "UPDATE_THRESHOLD = 400"

fun consume_remaining_metas :: "('ms, 'mi, 'vs, 'vi, 'v, 'tx, 'h, 'p) qos_env \<Rightarrow> unit QoSRemainingMeta list
    \<Rightarrow> ('ms, 'mi, 'vs, 'vi, 'h, 'p) qos_state
    \<Rightarrow> (unit QoSRemainingMeta list \<times> ('ms, 'mi, 'vs, 'vi, 'h, 'p) qos_state) option" where
  "consume_remaining_metas E [] s = Some ([], s)"
| "consume_remaining_metas E (remaining_meta # rest) s = do {
     (popped, metas) \<leftarrow> lru_pop (rm_packet_hash remaining_meta) (qos_tx_partial_metas s);
     let s = s\<lparr>qos_tx_partial_metas := metas\<rparr>;
     case popped of
       Some (_, partial_meta) \<Rightarrow>
         let stats = qos_stats s;
             s = s\<lparr>qos_tx_complete_metas :=
                     vec_push (qos_tx_complete_metas s) (complete_entry partial_meta remaining_meta),
                   qos_stats := stats\<lparr>completed := completed stats + 1\<rparr>\<rparr>
         in if UPDATE_THRESHOLD < length (qos_tx_complete_metas s)
            then do {
              model \<leftarrow> update_model (env_trees E) (qos_tx_complete_metas s) (arg_max_signers E) (arg_max_ips E)
                (qos_model_st s);
              Some (rest, s\<lparr>qos_model_st := model, qos_tx_complete_metas := [],
                qos_files := save_ip_scores (env_disk E) (env_trees E) model ''scores'' (qos_files s)\<rparr>)
            }
            else consume_remaining_metas E rest s
     | None \<Rightarrow> consume_remaining_metas E rest s
   }"

definition process_failed_sigverify :: "('ms, 'mi, 'vs, 'vi, 'v, 'tx, 'h, 'p) qos_env \<Rightarrow> Packet
    \<Rightarrow> ('ms, 'mi, 'vs, 'vi, 'h, 'p) qos_state \<Rightarrow> ('ms, 'mi, 'vs, 'vi, 'h, 'p) qos_state option" where
  "process_failed_sigverify E packet s =
     (case meta_addr (packet_meta packet) of
        V4 ip \<Rightarrow> Some (s\<lparr>qos_model_st := ip_feedback (env_trees E) (ip_key ip) (qos_model_st s)\<rparr>)
      | V6 _ \<Rightarrow> None)"

fun consume_sigverify_signals :: "('ms, 'mi, 'vs, 'vi, 'v, 'tx, 'h, 'p) qos_env \<Rightarrow> Packet list
    \<Rightarrow> ('ms, 'mi, 'vs, 'vi, 'h, 'p) qos_state \<Rightarrow> ('ms, 'mi, 'vs, 'vi, 'h, 'p) qos_state option" where
  "consume_sigverify_signals E [] s = Some s"
| "consume_sigverify_signals E (packet # packets) s = do {
     s \<leftarrow> process_failed_sigverify E packet s;
     consume_sigverify_signals E packets s
   }"

section \<open>One iteration and the run\<close>

text \<open>
  What one iteration finds: the pending messages, the counter reading for the log, and the
  operations that other processes completed on the shared block since the last iteration.
\<close>

record qos_input =
  in_tpu :: "arrival list"
  in_fwd :: "arrival list"
  in_re1 :: "arrival list"
  in_re2 :: "arrival list"
  in_recent :: "u8 list list"
  in_sch :: "unit QoSRemainingMeta list"
  in_sig :: "Packet list"
  in_now :: u64
  in_stats_ops :: "stats_op list"

definition publish_stats :: "u64 \<Rightarrow> stats_op list
    \<Rightarrow> ('ms, 'mi, 'vs, 'vi, 'h, 'p) qos_state \<Rightarrow> ('ms, 'mi, 'vs, 'vi, 'h, 'p) qos_state" where
  "publish_stats ms others s =
     (case qos_shared s of
        None \<Rightarrow> s
      | Some d \<Rightarrow>
          let d = fold (\<lambda>op d. snd (run_op op d)) others d;
              elapsed_100ms = ms div 100
          in if qos_last_save s < elapsed_100ms
             then case run_op (OpUpdate (qos_stats s)) d of
                (r, d) \<Rightarrow> s\<lparr>qos_last_save := elapsed_100ms, qos_shared := Some d,
                  qos_stats := if r = ResUpdate True then Stats_new else qos_stats s\<rparr>
             else s\<lparr>qos_shared := Some d\<rparr>)"

definition log_and_publish :: "('ms, 'mi, 'vs, 'vi, 'v, 'tx, 'h, 'p) qos_env \<Rightarrow> u64 \<Rightarrow> stats_op list
    \<Rightarrow> ('ms, 'mi, 'vs, 'vi, 'h, 'p) qos_state \<Rightarrow> ('ms, 'mi, 'vs, 'vi, 'h, 'p) qos_state option" where
  "log_and_publish E now others s = do {
     ms \<leftarrow> elapsed_ms (env_ticks E) now (qos_timer s);
     let elapsed_5s = ms div 5000;
     let s = (if qos_last_log s < elapsed_5s then s\<lparr>qos_last_log := elapsed_5s\<rparr> else s);
     Some (publish_stats ms others s)
   }"

definition qos_iteration :: "('ms, 'mi, 'vs, 'vi, 'v, 'tx, 'h, 'p) qos_env \<Rightarrow> qos_input
    \<Rightarrow> ('ms, 'mi, 'vs, 'vi, 'h, 'p) qos_state \<Rightarrow> (qos_input \<times> ('ms, 'mi, 'vs, 'vi, 'h, 'p) qos_state) option" where
  "qos_iteration E i s = do {
     (tpu, s) \<leftarrow> consume_transaction_packets E (in_tpu i) s;
     (fwd, s) \<leftarrow> consume_transaction_packets E (in_fwd i) s;
     (re1, s) \<leftarrow> consume_transaction_packets E (in_re1 i) s;
     (re2, s) \<leftarrow> consume_transaction_packets E (in_re2 i) s;
     s \<leftarrow> consume_recent_signatures (in_recent i) s;
     s \<leftarrow> log_and_publish E (in_now i) (in_stats_ops i) s;
     (sch, s) \<leftarrow> consume_remaining_metas E (in_sch i) s;
     s \<leftarrow> consume_sigverify_signals E (in_sig i) s;
     Some (\<lparr>in_tpu = tpu, in_fwd = fwd, in_re1 = re1, in_re2 = re2, in_recent = [], in_sch = sch, in_sig = [],
            in_now = in_now i, in_stats_ops = []\<rparr>, s)
   }"

text \<open>
  Between two iterations the channels receive further messages; \<open>qos_run\<close> threads the state through
  the inputs seen by successive iterations.
\<close>

fun qos_run :: "('ms, 'mi, 'vs, 'vi, 'v, 'tx, 'h, 'p) qos_env \<Rightarrow> qos_input list
    \<Rightarrow> ('ms, 'mi, 'vs, 'vi, 'h, 'p) qos_state \<Rightarrow> ('ms, 'mi, 'vs, 'vi, 'h, 'p) qos_state option" where
  "qos_run E [] s = Some s"
| "qos_run E (i # is) s = do { (_, s) \<leftarrow> qos_iteration E i s; qos_run E is s }"

text \<open>
  The loop of \<open>main\<close>: the flag \<open>EXIT\<close>, which the handler of the exit signal sets, is loaded before every iteration.
  A turn is the value loaded and the input of the iteration.
\<close>

fun qos_loop :: "('ms, 'mi, 'vs, 'vi, 'v, 'tx, 'h, 'p) qos_env \<Rightarrow> (bool \<times> qos_input) list
    \<Rightarrow> ('ms, 'mi, 'vs, 'vi, 'h, 'p) qos_state \<Rightarrow> ('ms, 'mi, 'vs, 'vi, 'h, 'p) qos_state option" where
  "qos_loop E [] s = Some s"
| "qos_loop E ((exit, i) # turns) s =
     (if exit then Some s else do { (_, s) \<leftarrow> qos_iteration E i s; qos_loop E turns s })"

text \<open>No iteration begins after the flag was seen set.\<close>

lemma qos_loop_run: "qos_loop E turns s = qos_run E (map snd (takeWhile (\<lambda>t. \<not> fst t) turns)) s"
proof (induction turns arbitrary: s)
  case (Cons t turns)
  then show ?case by (cases t) (simp split: bind_split)
qed simp

text \<open>The caches are built by \<open>new_boxed\<close>, which \<open>lru_new_boxed_correct\<close> shows to agree with \<open>new\<close>.\<close>

definition qos_start :: "('ms, 'mi, 'vs, 'vi, 'v, 'tx, 'h, 'p) qos_env \<Rightarrow> 'p \<Rightarrow> usize \<Rightarrow> shared_data option \<Rightarrow> u64 \<Rightarrow> u64
    \<Rightarrow> ('ms, 'mi, 'vs, 'vi, 'h, 'p) qos_state" where
  "qos_start E sig_producer target_pps shared rdtsc rdtsc' =
     \<lparr>qos_model_st = model_new (env_trees E) [] [],
      qos_tx_partial_metas = lru_new LRU_CAP,
      qos_tx_complete_metas = [],
      qos_container = container_new (env_heap E) (Some sig_producer) target_pps (timer_new (env_cpuinfo E) rdtsc),
      qos_recent_signatures = lru_new LRU_CAP,
      qos_stats = Stats_new,
      qos_timer = timer_new (env_cpuinfo E) rdtsc', qos_last_log = 0, qos_last_save = 0, qos_shared = shared,
      qos_files = Map.empty\<rparr>"

text \<open>What \<open>main\<close> does after the loop, once an exit signal was seen.\<close>

definition qos_exit :: "('ms, 'mi, 'vs, 'vi, 'v, 'tx, 'h, 'p) qos_env
    \<Rightarrow> ('ms, 'mi, 'vs, 'vi, 'h, 'p) qos_state \<Rightarrow> ('ms, 'mi, 'vs, 'vi, 'h, 'p) qos_state" where
  "qos_exit E s =
     s\<lparr>qos_files := save_ip_scores (env_disk E) (env_trees E) (qos_model_st s) ''ip_scores'' (qos_files s)\<rparr>"

section \<open>The invariant of the process\<close>

text \<open>
  \<open>env_ok\<close>: what the process relies on from its environment. \<open>S\<close> bounds the number of scores per
  table; the command-line limits must leave room for the at most 80 keys a batch of 401 entries
  can add to a table of 16384 slots.
\<close>

definition env_ok :: "nat \<Rightarrow> ('ms, 'mi, 'vs, 'vi) tree_oks \<Rightarrow> ('h \<Rightarrow> bool) \<Rightarrow> ('h \<Rightarrow> ScoredTransaction multiset)
    \<Rightarrow> ('ms, 'mi, 'vs, 'vi, 'v, 'tx, 'h, 'p) qos_env \<Rightarrow> bool" where
  "env_ok S Ok hok content E \<longleftrightarrow>
     view_laws (env_view E) \<and> model_laws MODEL_CAP MODEL_CAP Ok (env_trees E) \<and>
     heap_laws st_score hok content (env_heap E) \<and> env_ticks E \<noteq> 0 \<and>
     check_cpu_supports_invariant_tsc (env_cpuinfo E) \<and>
     5 \<le> S \<and> S + 80 \<le> MODEL_CAP \<and> arg_max_ips E \<le> S \<and> arg_max_signers E \<le> S"

text \<open>The greatest score a packet can get: two model scores and a fee per compute unit.\<close>

definition SCORE_BOUND :: rat where
  "SCORE_BOUND = 2 powi 68 * 2 powi 68 * 2 powi 64"

definition qos_inv :: "nat \<Rightarrow> ('ms, 'mi, 'vs, 'vi) tree_oks \<Rightarrow> ('h \<Rightarrow> bool) \<Rightarrow> ('h \<Rightarrow> ScoredTransaction multiset)
    \<Rightarrow> ('ms, 'mi, 'vs, 'vi, 'v, 'tx, 'h, 'p) qos_env \<Rightarrow> ('ms, 'mi, 'vs, 'vi, 'h, 'p) qos_state \<Rightarrow> bool" where
  "qos_inv S Ok hok content E s \<longleftrightarrow>
     model_ok MODEL_CAP MODEL_CAP S 68 Ok (env_trees E) (qos_model_st s) \<and>
     lru_inv LRU_CAP (qos_tx_partial_metas s) \<and> lru_inv LRU_CAP (qos_recent_signatures s) \<and>
     length (qos_tx_complete_metas s) \<le> UPDATE_THRESHOLD \<and>
     (\<forall>e \<in> set (qos_tx_complete_metas s). in_range (2 powi 68) (tm_value e)) \<and>
     queue_inv hok content (env_heap E) (qos_container s) \<and>
     transmitter (qos_container s) \<noteq> None \<and> last_send (qos_container s) \<noteq> Instant \<and>
     (\<forall>t \<in># content (priority_queue_heap (qos_container s)). in_range SCORE_BOUND (st_score t)) \<and>
     qos_timer s \<noteq> Instant"

definition input_ok :: "qos_input \<Rightarrow> bool" where
  "input_ok i \<longleftrightarrow>
     (\<forall>(p, _) \<in> set (in_tpu i @ in_fwd i @ in_re1 i @ in_re2 i). length (packet_buffer p) = PACKET_DATA_SIZE) \<and>
     (\<forall>p \<in> set (in_sig i). \<exists>ip. meta_addr (packet_meta p) = V4 ip)"

lemma qos_invD:
  assumes "qos_inv S Ok hok content E s"
  shows "model_ok MODEL_CAP MODEL_CAP S 68 Ok (env_trees E) (qos_model_st s)"
    "lru_inv LRU_CAP (qos_tx_partial_metas s)" "lru_inv LRU_CAP (qos_recent_signatures s)"
    "length (qos_tx_complete_metas s) \<le> UPDATE_THRESHOLD"
    "\<forall>e \<in> set (qos_tx_complete_metas s). in_range (2 powi 68) (tm_value e)"
    "queue_inv hok content (env_heap E) (qos_container s)"
    "transmitter (qos_container s) \<noteq> None" "last_send (qos_container s) \<noteq> Instant"
    "\<forall>t \<in># content (priority_queue_heap (qos_container s)). in_range SCORE_BOUND (st_score t)"
    "qos_timer s \<noteq> Instant"
  using assms by (simp_all add: qos_inv_def)

lemma timer_new_rdtsc: "env_ok S Ok hok content E \<Longrightarrow> timer_new (env_cpuinfo E) now = RDTSC now"
  by (simp add: env_ok_def timer_new_def)

lemma transmit_keeps_queue:
  assumes E: "env_ok S Ok hok content E" and q: "queue_inv hok content (env_heap E) c"
    and tx: "transmitter c \<noteq> None" and t: "last_send c \<noteq> Instant"
  shows "\<exists>c' stats'. maybe_transmit (env_heap E) P (env_ticks E) now (timer_new (env_cpuinfo E) now') recent c stats =
      Some (c', stats') \<and> queue_inv hok content (env_heap E) c' \<and> transmitter c' \<noteq> None \<and> last_send c' \<noteq> Instant \<and>
    content (priority_queue_heap c') \<subseteq># content (priority_queue_heap c)"
proof -
  obtain p where p: "transmitter c = Some p" using tx by auto
  obtain r where r: "last_send c = RDTSC r" using t by (cases "last_send c") auto
  have ticks: "env_ticks E \<noteq> 0" using E by (simp add: env_ok_def)
  from q p r ticks show ?thesis
    by (cases rule: maybe_transmit_ok [where now = now and recent = recent and P = P
          and timer = "timer_new (env_cpuinfo E) now'" and stats = stats])
      (use q p r in \<open>auto simp: Let_def timer_new_rdtsc [OF E] best_batch_def\<close>)
qed

lemma queue_keeps_queue:
  assumes "queue_inv hok content H c"
  shows "\<exists>c' stats'. container_queue H t c stats = Some (c', stats') \<and> queue_inv hok content H c' \<and>
    transmitter c' = transmitter c \<and> last_send c' = last_send c \<and>
    content (priority_queue_heap c') \<subseteq># add_mset t (content (priority_queue_heap c))"
proof -
  obtain ev h' where p: "mm_push H QUEUE_CAPACITY t (priority_queue_heap c) = Some (ev, h')"
    "container_queue H t c stats = Some (c\<lparr>priority_queue_heap := h'\<rparr>,
      if ev = None then stats else stats\<lparr>leaked_priority := leaked_priority stats + 1\<rparr>)"
    "queue_inv hok content H (c\<lparr>priority_queue_heap := h'\<rparr>)"
    using container_queue_ok [OF assms, of t stats] by blast
  have "content h' \<subseteq># add_mset t (content (priority_queue_heap c))"
    using mm.push_ok [OF assms, of t] p(1) by (auto split: option.splits)
  with p show ?thesis by auto
qed

lemma consume_packet_ok:
  assumes E: "env_ok S Ok hok content E" and s: "qos_inv S Ok hok content E s"
    and len: "length (packet_buffer packet) = PACKET_DATA_SIZE"
  shows "\<exists>s'. consume_packet E (packet, now, now') s = Some s' \<and> qos_inv S Ok hok content E s'"
proof -
  note inv = qos_invD [OF s]
  have W: "view_laws (env_view E)" using E by (simp add: env_ok_def)
  obtain r m' metas' stats' where run: "try_process_packet (env_view E) (env_trees E) (env_hash E) LRU_CAP packet
      (Some (qos_recent_signatures s)) (qos_model_st s) (qos_tx_partial_metas s) (qos_stats s) =
      Some (r, m', metas', stats')"
    "model_ok MODEL_CAP MODEL_CAP S 68 Ok (env_trees E) m'" "lru_inv LRU_CAP metas'"
    "case r of Inl e \<Rightarrow> True | Inr t \<Rightarrow> accepted_ok (env_hash E) SCORE_BOUND packet
      (Some (qos_recent_signatures s)) (qos_model_st s) (qos_tx_partial_metas s) m' metas' t"
    using process_ok [OF W inv(1,2) len, of "env_hash E" "Some (qos_recent_signatures s)" "qos_stats s"]
    unfolding SCORE_BOUND_def by blast
  show ?thesis
  proof (cases r)
    case (Inl e)
    with run inv show ?thesis by (simp add: consume_packet_def qos_inv_def)
  next
    case (Inr t)
    let ?stats = "if st_score t = ZERO then stats'\<lparr>zero_score := zero_score stats' + 1\<rparr> else stats'"
    obtain c1 stats1 where q: "container_queue (env_heap E) t (qos_container s) ?stats = Some (c1, stats1)"
      "queue_inv hok content (env_heap E) c1" "transmitter c1 \<noteq> None" "last_send c1 \<noteq> Instant"
      "content (priority_queue_heap c1) \<subseteq># add_mset t (content (priority_queue_heap (qos_container s)))"
      using queue_keeps_queue [OF inv(6), of t ?stats] inv(7,8) by auto
    obtain c' stats'' where "maybe_transmit (env_heap E) (env_producer E) (env_ticks E) now
        (timer_new (env_cpuinfo E) now') (qos_recent_signatures s) c1 stats1 = Some (c', stats'')"
      "queue_inv hok content (env_heap E) c'" "transmitter c' \<noteq> None" "last_send c' \<noteq> Instant"
      "content (priority_queue_heap c') \<subseteq># content (priority_queue_heap c1)"
      using transmit_keeps_queue [OF E q(2-4)] by blast
    moreover from this(5) q(5) have "\<forall>u \<in># content (priority_queue_heap c'). in_range SCORE_BOUND (st_score u)"
      using run(4) Inr inv(9) by (auto simp: accepted_ok_def dest!: mset_subset_eqD)
    ultimately show ?thesis using run Inr q(1) inv by (simp add: consume_packet_def qos_inv_def Let_def)
  qed
qed

lemma consume_packets_ok:
  assumes E: "env_ok S Ok hok content E"
  shows "qos_inv S Ok hok content E s \<Longrightarrow> \<forall>(p, _) \<in> set arrivals. length (packet_buffer p) = PACKET_DATA_SIZE \<Longrightarrow>
    \<exists>rest s'. consume_packets E n arrivals s = Some (rest, s') \<and> qos_inv S Ok hok content E s' \<and>
      rest = drop n arrivals"
proof (induction n arbitrary: arrivals s)
  case (Suc n)
  show ?case
  proof (cases arrivals)
    case (Cons a rest)
    obtain packet now now' where a: "a = (packet, now, now')" by (cases a) auto
    with Suc.prems Cons obtain s1 where "consume_packet E a s = Some s1" "qos_inv S Ok hok content E s1"
      using consume_packet_ok [OF E Suc.prems(1), of packet now now'] by auto
    with Suc.IH [of s1 rest] Suc.prems(2) Cons show ?thesis by simp
  qed (use Suc.prems in simp)
qed simp

lemma consume_transaction_packets_ok:
  assumes E: "env_ok S Ok hok content E" and s: "qos_inv S Ok hok content E s"
    and "\<forall>(p, _) \<in> set arrivals. length (packet_buffer p) = PACKET_DATA_SIZE"
  shows "\<exists>s'. consume_transaction_packets E arrivals s = Some (drop 1000 arrivals, s') \<and> qos_inv S Ok hok content E s'"
  using consume_packets_ok [OF E s assms(3), of 1000]
  by (auto simp: consume_transaction_packets_def qos_inv_def container_beat_def split: option.splits)

lemma consume_recent_signatures_ok:
  "qos_inv S Ok hok content E s \<Longrightarrow>
   \<exists>s'. consume_recent_signatures sigs s = Some s' \<and> qos_inv S Ok hok content E s'"
proof (induction sigs arbitrary: s)
  case (Cons sig sigs)
  obtain r rs' where put: "lru_put LRU_CAP (u64_key sig) () (qos_recent_signatures s) = Some (r, rs')" "lru_inv LRU_CAP rs'"
    using lru.put_ok [OF qos_invD(3) [OF Cons.prems], of "u64_key sig" "()"] by blast
  let ?s = "s\<lparr>qos_recent_signatures := rs', qos_stats := (qos_stats s)\<lparr>recent_signatures_received :=
      recent_signatures_received (qos_stats s) + 1\<rparr>\<rparr>"
  have "qos_inv S Ok hok content E ?s" using Cons.prems put(2) by (simp add: qos_inv_def)
  from Cons.IH [OF this] put(1) show ?case by (simp add: Let_def)
qed simp

lemma ten_value: "TEN = Fin 10"
  using representable_scale [of 10 0] round_mag_representable [of 10]
  by (simp add: TEN_def f64_lit_def round_f64_def)

lemma complete_entry_in_range: "in_range (2 powi 68) (tm_value (complete_entry pm rm))"
proof -
  note v = merge_value_in_range [of pm rm]
  have ten: "in_range 10 TEN" using representable_scale [of 10 0] by (simp add: ten_value)
  have "(2 powi 64 * 10 :: rat) = of_nat 10 * 2 powi 64" by (simp only: mult.commute of_nat_numeral)
  then have "representable (2 powi 64 * 10)" using representable_scale [of 10 64] by (simp only:) simp
  from mul_in_range [OF v ten this] have "in_range (2 powi 68) (f64_mul (tm_value (merge pm rm)) TEN)"
    by (rule in_range_mono) simp
  moreover have "in_range (2 powi 68) (tm_value (merge pm rm))" by (rule in_range_mono [OF v]) simp
  ultimately show ?thesis unfolding complete_entry_def Let_def by (simp only: split: if_split) simp
qed

lemma update_ok:
  assumes E: "env_ok S Ok hok content E"
    and m: "model_ok MODEL_CAP MODEL_CAP S 68 Ok (env_trees E) m"
    and len: "length txs \<le> 401" and vals: "\<forall>e \<in> set txs. in_range (2 powi 68) (tm_value e)"
  shows "\<exists>m'. update_model (env_trees E) txs (arg_max_signers E) (arg_max_ips E) m = Some m' \<and>
    model_ok MODEL_CAP MODEL_CAP S 68 Ok (env_trees E) m'"
proof -
  have "length txs div 5 \<le> 80" using len by simp
  then have "batch_fits MODEL_CAP MODEL_CAP S 68 txs"
    using E len vals by (simp add: batch_fits_def env_ok_def del: power_int_numeral)
  moreover have "arg_max_ips E \<le> S" "arg_max_signers E \<le> S" using E by (simp_all add: env_ok_def)
  ultimately show ?thesis using prune_update_model_ok [OF m] by (metis update_model_def)
qed

lemma consume_remaining_metas_ok:
  assumes E: "env_ok S Ok hok content E"
  shows "qos_inv S Ok hok content E s \<Longrightarrow>
    \<exists>rest s'. consume_remaining_metas E metas s = Some (rest, s') \<and> qos_inv S Ok hok content E s'"
proof (induction metas arbitrary: s)
  case (Cons rm metas)
  note inv = qos_invD [OF Cons.prems]
  obtain popped cache where pop: "lru_pop (rm_packet_hash rm) (qos_tx_partial_metas s) = Some (popped, cache)"
    "lru_inv LRU_CAP cache" using lru.pop_ok [OF inv(2)] by blast
  let ?s = "s\<lparr>qos_tx_partial_metas := cache\<rparr>"
  have s: "qos_inv S Ok hok content E ?s" using Cons.prems pop(2) by (simp add: qos_inv_def)
  show ?case
  proof (cases popped)
    case None
    with pop(1) Cons.IH [OF s] show ?thesis by simp
  next
    case (Some kp)
    obtain k pm where kp: "kp = (k, pm)" by force
    let ?txs = "qos_tx_complete_metas s @ [complete_entry pm rm]"
    let ?s1 = "s\<lparr>qos_tx_partial_metas := cache, qos_tx_complete_metas := ?txs,
      qos_stats := (qos_stats s)\<lparr>completed := completed (qos_stats s) + 1\<rparr>\<rparr>"
    have vals: "\<forall>e \<in> set ?txs. in_range (2 powi 68) (tm_value e)" using inv(5) complete_entry_in_range by simp
    show ?thesis
    proof (cases "UPDATE_THRESHOLD < length ?txs")
      case True
      have "length ?txs \<le> 401" using inv(4) by (simp add: UPDATE_THRESHOLD_def)
      from update_ok [OF E inv(1) this vals] obtain m' where
        "update_model (env_trees E) ?txs (arg_max_signers E) (arg_max_ips E) (qos_model_st s) = Some m'"
        "model_ok MODEL_CAP MODEL_CAP S 68 Ok (env_trees E) m'" by blast
      with True pop Some kp inv show ?thesis
        by (simp add: vec_push_def qos_inv_def Let_def del: power_int_numeral)
    next
      case False
      with s vals have "qos_inv S Ok hok content E ?s1" by (simp add: qos_inv_def del: power_int_numeral)
      from Cons.IH [OF this] False pop(1) Some kp show ?thesis by (simp add: vec_push_def Let_def)
    qed
  qed
qed simp

lemma consume_sigverify_signals_ok:
  "qos_inv S Ok hok content E s \<Longrightarrow> \<forall>p \<in> set packets. \<exists>ip. meta_addr (packet_meta p) = V4 ip \<Longrightarrow>
   \<exists>s'. consume_sigverify_signals E packets s = Some s' \<and> qos_inv S Ok hok content E s'"
proof (induction packets arbitrary: s)
  case (Cons p packets)
  from Cons.prems obtain ip where "meta_addr (packet_meta p) = V4 ip" by auto
  moreover have "qos_inv S Ok hok content E (s\<lparr>qos_model_st := ip_feedback (env_trees E) (ip_key ip) (qos_model_st s)\<rparr>)"
    using Cons.prems(1) ip_feedback_model_ok [OF qos_invD(1) [OF Cons.prems(1)]]
    by (simp add: qos_inv_def del: power_int_numeral)
  ultimately show ?case using Cons by (simp add: process_failed_sigverify_def)
qed simp

lemma log_and_publish_ok:
  assumes E: "env_ok S Ok hok content E" and s: "qos_inv S Ok hok content E s"
  shows "\<exists>s'. log_and_publish E now others s = Some s' \<and> qos_inv S Ok hok content E s'"
proof -
  obtain r where "qos_timer s = RDTSC r" using qos_invD(10) [OF s] by (cases "qos_timer s") auto
  then have ms: "elapsed_ms (env_ticks E) now (qos_timer s) = Some ((now - r) div env_ticks E)"
    using E by (simp add: elapsed_ms_def env_ok_def)
  have "qos_inv S Ok hok content E (publish_stats ms others s)" if "qos_inv S Ok hok content E s" for ms s
    using that by (auto simp: publish_stats_def qos_inv_def Let_def split: option.splits prod.splits)
  moreover have "qos_inv S Ok hok content E (s\<lparr>qos_last_log := n\<rparr>)" for n using s by (simp add: qos_inv_def)
  ultimately show ?thesis using s ms by (simp add: log_and_publish_def Let_def)
qed

lemma qos_iteration_ok:
  assumes E: "env_ok S Ok hok content E" and s: "qos_inv S Ok hok content E s" and i: "input_ok i"
  shows "\<exists>i' s'. qos_iteration E i s = Some (i', s') \<and> qos_inv S Ok hok content E s'"
proof -
  from i have len: "\<forall>(p, _) \<in> set (in_tpu i). length (packet_buffer p) = PACKET_DATA_SIZE"
    "\<forall>(p, _) \<in> set (in_fwd i). length (packet_buffer p) = PACKET_DATA_SIZE"
    "\<forall>(p, _) \<in> set (in_re1 i). length (packet_buffer p) = PACKET_DATA_SIZE"
    "\<forall>(p, _) \<in> set (in_re2 i). length (packet_buffer p) = PACKET_DATA_SIZE"
    and sig: "\<forall>p \<in> set (in_sig i). \<exists>ip. meta_addr (packet_meta p) = V4 ip"
    by (auto simp: input_ok_def)
  obtain s1 where 1: "consume_transaction_packets E (in_tpu i) s = Some (drop 1000 (in_tpu i), s1)"
    "qos_inv S Ok hok content E s1" using consume_transaction_packets_ok [OF E s len(1)] by blast
  obtain s2 where 2: "consume_transaction_packets E (in_fwd i) s1 = Some (drop 1000 (in_fwd i), s2)"
    "qos_inv S Ok hok content E s2" using consume_transaction_packets_ok [OF E 1(2) len(2)] by blast
  obtain s3 where 3: "consume_transaction_packets E (in_re1 i) s2 = Some (drop 1000 (in_re1 i), s3)"
    "qos_inv S Ok hok content E s3" using consume_transaction_packets_ok [OF E 2(2) len(3)] by blast
  obtain s4 where 4: "consume_transaction_packets E (in_re2 i) s3 = Some (drop 1000 (in_re2 i), s4)"
    "qos_inv S Ok hok content E s4" using consume_transaction_packets_ok [OF E 3(2) len(4)] by blast
  obtain s5 where 5: "consume_recent_signatures (in_recent i) s4 = Some s5" "qos_inv S Ok hok content E s5"
    using consume_recent_signatures_ok [OF 4(2)] by blast
  obtain s6 where 6: "log_and_publish E (in_now i) (in_stats_ops i) s5 = Some s6" "qos_inv S Ok hok content E s6"
    using log_and_publish_ok [OF E 5(2)] by blast
  obtain sch s7 where 7: "consume_remaining_metas E (in_sch i) s6 = Some (sch, s7)" "qos_inv S Ok hok content E s7"
    using consume_remaining_metas_ok [OF E 6(2)] by blast
  obtain s8 where 8: "consume_sigverify_signals E (in_sig i) s7 = Some s8" "qos_inv S Ok hok content E s8"
    using consume_sigverify_signals_ok [OF 7(2) sig] by blast
  show ?thesis using 1 2 3 4 5 6 7 8 by (simp add: qos_iteration_def)
qed

lemma qos_run_ok:
  assumes E: "env_ok S Ok hok content E"
  shows "qos_inv S Ok hok content E s \<Longrightarrow> \<forall>i \<in> set is. input_ok i \<Longrightarrow>
    \<exists>s'. qos_run E is s = Some s' \<and> qos_inv S Ok hok content E s'"
proof (induction "is" arbitrary: s)
  case (Cons i "is")
  from qos_iteration_ok [OF E Cons.prems(1), of i] Cons.prems(2) obtain i' s1 where
    "qos_iteration E i s = Some (i', s1)" "qos_inv S Ok hok content E s1" by auto
  with Cons show ?case by simp
qed simp

lemma qos_start_ok:
  assumes E: "env_ok S Ok hok content E"
  shows "qos_inv S Ok hok content E (qos_start E p target_pps shared rdtsc rdtsc')"
proof -
  from E have L: "model_laws MODEL_CAP MODEL_CAP Ok (env_trees E)" and H: "heap_laws st_score hok content (env_heap E)"
    and S: "5 \<le> S" by (simp_all add: env_ok_def)
  note new = model_new_ok [OF L, of "[]" "[]", simplified]
  have "model_ok MODEL_CAP MODEL_CAP S 68 Ok (env_trees E) (model_new (env_trees E) [] [])"
    using L S new by (simp add: model_ok_def scores_in_def)
  moreover have "0 < LRU_CAP" "0 < QUEUE_CAPACITY" by (simp_all add: LRU_CAP_def QUEUE_CAPACITY_def)
  ultimately show ?thesis
    using mm_new_ok [OF H, of QUEUE_CAPACITY]
    by (simp add: qos_inv_def qos_start_def lru_new_inv container_new_def timer_new_rdtsc [OF E])
qed

section \<open>Published counters\<close>

lemma fold_resets:
  assumes "\<forall>op \<in> set others. op = OpReset \<or> op = OpRead"
  shows "fold (\<lambda>op d. snd (run_op op d)) others d =
    (if OpReset \<in> set others then \<lparr>sh_stats = Stats_new, sh_should_reset = 1\<rparr> else d)"
  using assms by (induction others arbitrary: d) (auto simp: run_op_def)

section \<open>Confirmed signatures\<close>

lemma consume_recent_eq:
  "consume_recent_signatures sigs s =
     map_option (\<lambda>rs. s\<lparr>qos_recent_signatures := rs,
         qos_stats := (qos_stats s)\<lparr>recent_signatures_received :=
           recent_signatures_received (qos_stats s) + of_nat (length sigs)\<rparr>\<rparr>)
       (lru_run LRU_CAP (map (\<lambda>(k, v). OpPut k v) (map (\<lambda>g. (u64_key g, ())) sigs)) (qos_recent_signatures s))"
proof (induction sigs arbitrary: s)
  case (Cons g sigs)
  show ?case
  proof (cases "lru_put LRU_CAP (u64_key g) () (qos_recent_signatures s)")
    case (Some r)
    then show ?thesis by (cases r) (simp add: Cons.IH Let_def algebra_simps)
  qed simp
qed simp

lemma recent_after_consume:
  assumes rs: "lru_inv LRU_CAP (qos_recent_signatures s)"
    and run: "consume_recent_signatures (sig # later) s = Some s'"
    and new: "u64_key sig \<notin> u64_key ` set later" and few: "card (u64_key ` set later) < LRU_CAP"
  shows "lru_contains (qos_recent_signatures s') (u64_key sig)"
proof -
  let ?kvs = "map (\<lambda>g. (u64_key g, ())) later"
  obtain r rs1 where put: "lru_put LRU_CAP (u64_key sig) () (qos_recent_signatures s) = Some (r, rs1)"
    using lru.put_ok [OF rs] by blast
  with run obtain rs2 where rs2: "lru_run LRU_CAP (map (\<lambda>(k, v). OpPut k v) ?kvs) rs1 = Some rs2"
    "qos_recent_signatures s' = rs2"
    by (auto simp: Let_def consume_recent_eq)
  have keys: "fst ` set ?kvs = u64_key ` set later" by force
  have "lru.recent LRU_CAP (u64_key sig) () ({} \<union> fst ` set ?kvs) rs2"
    using lru_puts_recent [OF lru.recent_start [OF rs put] _ _ rs2(1)] new few by (simp only: keys) simp
  from lru.recent_contains [OF this] rs2(2) show ?thesis by simp
qed

section \<open>A concrete environment\<close>

definition demo_env :: "(pubkey alist_fwd, u32 alist_fwd, pubkey alist_inv, u32 alist_inv,
    u8 list, u8 list, ScoredTransaction list, Packet list) qos_env" where
  "demo_env =
     \<lparr>env_view = demo_view, env_trees = alist_trees MODEL_CAP, env_heap = list_heap st_score,
      env_producer = demo_producer, env_hash = from_le_bytes, env_ticks = 1000,
      env_cpuinfo = Some ''constant_tsc nonstop_tsc'',
      env_disk = \<lparr>disk_room = \<lambda>_ _. Some 1000000, disk_fmt = \<lambda>_. ''1''\<rparr>,
      arg_max_signers = 10000, arg_max_ips = 10000\<rparr>"

lemma demo_env_ok: "env_ok 10000 (alist_oks MODEL_CAP) (list_heap_ok st_score) mset demo_env"
  unfolding env_ok_def demo_env_def
  using demo_view_laws alist_model_laws [of MODEL_CAP] list_heap_laws [of st_score]
  by (simp add: check_cpu_supports_invariant_tsc_def MODEL_CAP_def)

definition demo_input :: qos_input where
  "demo_input =
     \<lparr>in_tpu = [(demo_packet [7] (Ipv4Addr 10 0 0 1) 80, 5000, 5001)],
      in_fwd = [(demo_packet [] (Ipv4Addr 10 0 0 2) 80, 6000, 6001)], in_re1 = [], in_re2 = [],
      in_recent = [replicate 64 1],
      in_sch = [\<lparr>rm_packet_hash = 7, rm_execution_nanos = 0, rm_additional_metadata = ()\<rparr>],
      in_sig = [demo_packet [7] (Ipv4Addr 10 0 0 1) 80], in_now = 200000, in_stats_ops = [OpReset]\<rparr>"

lemma demo_input_ok: "input_ok demo_input"
  using demo_packet_buffer [of "[7]"] demo_packet_buffer [of "[]"]
  by (simp add: input_ok_def demo_input_def PACKET_DATA_SIZE_def)

lemma qos_exit_inv: "qos_inv S Ok hok content E (qos_exit E s) = qos_inv S Ok hok content E s"
  by (simp add: qos_inv_def qos_exit_def)

section \<open>Completing an entry\<close>

text \<open>
  Completing a transaction: when an execution result arrives for a cached packet, its entry
  leaves the cache and joins the batch; the 401st entry triggers exactly one model update with the
  whole batch, saves the new scores, empties the batch and ends the loop, leaving the later messages for the next iteration.
\<close>

lemma completed_entry_step:
  assumes inv: "lru_inv LRU_CAP (qos_tx_partial_metas s)"
    and hit: "map_of (entries (qos_tx_partial_metas s)) (rm_packet_hash rm) = Some pm"
  shows "\<exists>metas'. lru_inv LRU_CAP metas' \<and> \<not> lru_contains metas' (rm_packet_hash rm) \<and>
    consume_remaining_metas E (rm # rest) s =
      (let batch = qos_tx_complete_metas s @ [complete_entry pm rm];
           stats = qos_stats s;
           s' = s\<lparr>qos_tx_partial_metas := metas', qos_tx_complete_metas := batch,
                  qos_stats := stats\<lparr>completed := completed stats + 1\<rparr>\<rparr>
       in if length (qos_tx_complete_metas s) < 400 then consume_remaining_metas E rest s'
          else map_option (\<lambda>model. (rest, s'\<lparr>qos_model_st := model, qos_tx_complete_metas := [],
                 qos_files := save_ip_scores (env_disk E) (env_trees E) model ''scores'' (qos_files s)\<rparr>))
                 (update_model (env_trees E) batch (arg_max_signers E) (arg_max_ips E) (qos_model_st s)))"
proof -
  obtain r metas' where pop: "lru_pop (rm_packet_hash rm) (qos_tx_partial_metas s) = Some (r, metas')"
    using lru.pop_ok [OF inv] by blast
  note res = lru.pop_result [OF inv pop]
  from res(4) hit have r: "r = Some (rm_packet_hash rm, pm)" by simp
  show ?thesis
    using res(1,2) pop r
    by (intro exI [where x = metas'])
      (auto simp: vec_push_def UPDATE_THRESHOLD_def Let_def map_option_bind map_conv_bind_option comp_def
        split: option.splits)
qed

section \<open>Properties\<close>

text \<open>
  C1. The whole process, started with empty tables and fed any traffic on its channels, never
  panics or leaves its buffers: after any number of iterations the caches are well-formed, the
  score tables are mirrored and within capacity, at most 400 completed entries wait for the next
  update, and every transaction in the priority queue carries a finite, non-negative score.
\<close>

theorem qos_process_safe:
  assumes "env_ok S Ok hok content E" and "\<forall>i \<in> set is. input_ok i"
  shows "\<exists>s. qos_run E is (qos_start E p target_pps shared rdtsc rdtsc') = Some s \<and> qos_inv S Ok hok content E s"
  using qos_run_ok [OF assms(1) qos_start_ok [OF assms(1)] assms(2)] .

theorem qos_process_safe_witness:
  "\<exists>s. qos_run demo_env [demo_input, demo_input] (qos_start demo_env [] 1000000 (Some demo_data) 0 0) = Some s \<and>
     length (qos_tx_complete_metas s) \<le> 400"
proof -
  have "\<forall>i \<in> set [demo_input, demo_input]. input_ok i" using demo_input_ok by simp
  from qos_process_safe [OF demo_env_ok this, of "[]" 1000000 "Some demo_data" 0 0] obtain s where
    "qos_run demo_env [demo_input, demo_input] (qos_start demo_env [] 1000000 (Some demo_data) 0 0) = Some s"
    "qos_inv 10000 (alist_oks MODEL_CAP) (list_heap_ok st_score) mset demo_env s" by blast
  then show ?thesis using qos_invD(4) by (fastforce simp: UPDATE_THRESHOLD_def)
qed

text \<open>
  C22. A confirmed signature blocks its transaction: once it was received, and until \<open>2^20\<close> other
  signature keys have been received after it, no packet carrying a signature with that key is
  accepted.
\<close>

theorem confirmed_signature_blocks:
  assumes "lru_inv LRU_CAP (qos_recent_signatures s)"
    and "consume_recent_signatures (sig # later) s = Some s'"
    and "u64_key sig \<notin> u64_key ` set later" and "card (u64_key ` set later) < LRU_CAP"
    and "view_laws W" "lru_inv N metas" "length (packet_buffer packet) = PACKET_DATA_SIZE"
    and "try_process_packet W T hash N packet (Some (qos_recent_signatures s')) m metas stats =
      Some (Inr st, m', metas', stats')"
  shows "st_sig_key st \<noteq> u64_key sig"
  using assms(5-7)
proof (cases rule: process_cases [where T = T and hash = hash and recent = "Some (qos_recent_signatures s')"
      and m = m and stats = stats])
  case (scored ip d u tx g payer ev dup metas1)
  with assms(8) have "st_sig_key st = u64_key g" by (auto split: if_splits)
  with scored(7) recent_after_consume [OF assms(1-4)] show ?thesis by (auto simp: not_recent_def)
qed (use assms(8) in auto)

lemma demo_key: "u64_key (b # replicate 63 0) = from_le_bytes [b, 0, 0, 0, 0, 0, 0, 0]"
  by (simp add: u64_key_def xor_group_def)

theorem confirmed_signature_blocks_witness:
  "\<exists>s' st m' metas' stats'.
     consume_recent_signatures [1 # replicate 63 0] (qos_start demo_env [] 1000000 (Some demo_data) 0 0) = Some s' \<and>
     try_process_packet demo_view (alist_trees 20) from_le_bytes 4 (demo_packet [7] (Ipv4Addr 10 0 0 1) 80)
       (Some (qos_recent_signatures s')) (model_new (alist_trees 20) [] []) (lru_new 4) Stats_new =
       Some (Inr st, m', metas', stats') \<and>
     st_sig_key st \<noteq> u64_key (1 # replicate 63 0)"
proof -
  let ?p = "demo_packet [7] (Ipv4Addr 10 0 0 1) 80" and ?m = "model_new (alist_trees 20) [] []"
    and ?s = "qos_start demo_env [] 1000000 (Some demo_data) 0 0"
  have rs: "lru_inv LRU_CAP (qos_recent_signatures ?s)" "entries (qos_recent_signatures ?s) = []"
    by (simp_all add: qos_start_def lru_new_inv lru_new_entries LRU_CAP_def)
  obtain rs' where put: "lru_put LRU_CAP (u64_key (1 # replicate 63 0)) () (qos_recent_signatures ?s) =
      Some ((None, False), rs')" "lru_inv LRU_CAP rs'" "entries rs' = [(u64_key (1 # replicate 63 0), ())]"
    using lru.put_ok [OF rs(1), of "u64_key (1 # replicate 63 0)" "()"]
    by (auto simp: spec_put_def rs(2) LRU_CAP_def)
  obtain s' where s': "consume_recent_signatures [1 # replicate 63 0] ?s = Some s'" "qos_recent_signatures s' = rs'"
    using put(1) by (simp add: Let_def)
  have metas: "lru_inv 4 (lru_new 4 :: meta_cache)" by (simp add: lru_new_inv)
  have len: "length (packet_buffer ?p) = PACKET_DATA_SIZE"
    by (rule demo_packet_buffer) (simp add: PACKET_DATA_SIZE_def)
  have keys: "u64_key (7 # replicate 63 0) \<noteq> u64_key (1 # replicate 63 0)" by (simp add: demo_key)
  then have fresh: "not_recent (Some rs') (u64_key (7 # replicate 63 0))"
    using lru.contains_ok [OF put(2)] put(3) by (simp add: not_recent_def)
  obtain st m' metas' stats' where run: "try_process_packet demo_view (alist_trees 20) from_le_bytes 4 ?p
      (Some (qos_recent_signatures s')) ?m (lru_new 4) Stats_new = Some (Inr st, m', metas', stats')"
    unfolding s'(2) by (rule demo_process [where N = 4 and T = "alist_trees 20"]) (use fresh in simp_all)
  have "card (u64_key ` set []) < LRU_CAP" "u64_key (1 # replicate 63 0) \<notin> u64_key ` set []"
    by (simp_all add: LRU_CAP_def)
  from confirmed_signature_blocks [OF rs(1) s'(1) this(2,1) demo_view_laws metas len run] s'(1) run
  show ?thesis by blast
qed

text \<open>
  Publishing the counters: when a new tenth of a second has begun and another process asked for
  a reset (and nothing was published since), the process starts counting from zero and leaves the
  cleared block; otherwise the block holds exactly the counters of the process, which it keeps. In
  both cases no reset request remains pending.
\<close>

lemma stats_published:
  assumes "qos_shared s = Some d" and "qos_last_save s < ms div 100"
    and "sh_should_reset d \<in> {0, 1}" and "\<forall>op \<in> set others. op = OpReset \<or> op = OpRead"
  shows "publish_stats ms others s =
    (if sh_should_reset d = 1 \<or> OpReset \<in> set others
     then s\<lparr>qos_last_save := ms div 100, qos_stats := Stats_new,
       qos_shared := Some \<lparr>sh_stats = if OpReset \<in> set others then Stats_new else sh_stats d, sh_should_reset = 0\<rparr>\<rparr>
     else s\<lparr>qos_last_save := ms div 100, qos_shared := Some \<lparr>sh_stats = qos_stats s, sh_should_reset = 0\<rparr>\<rparr>)"
  using assms(1-3) fold_resets [OF assms(4), of d]
  by (cases d) (auto simp: publish_stats_def run_op_def Let_def)

lemma stats_published_witness:
  "qos_stats (publish_stats 100 [OpRead, OpReset] ((qos_start demo_env [] 1000000 (Some demo_data) 0 0)
     \<lparr>qos_stats := demo_stats\<rparr>)) = Stats_new"
  using stats_published [of "(qos_start demo_env [] 1000000 (Some demo_data) 0 0)\<lparr>qos_stats := demo_stats\<rparr>"
    demo_data 100 "[OpRead, OpReset]"] by (simp add: qos_start_def demo_data_def)

lemma completed_entry_step_witness:
  "\<exists>metas r. lru_put LRU_CAP 7 (partial_meta_new (Ipv4Addr 10 0 0 1) [1] 5000 200000) (lru_new LRU_CAP) = Some (r, metas) \<and>
     (\<exists>s'. consume_remaining_metas demo_env
         [\<lparr>rm_packet_hash = 7, rm_execution_nanos = 9, rm_additional_metadata = ()\<rparr>]
         ((qos_start demo_env [] 1000000 (Some demo_data) 0 0)\<lparr>qos_tx_partial_metas := metas\<rparr>) = Some ([], s') \<and>
       length (qos_tx_complete_metas s') = 1)"
proof -
  let ?pm = "partial_meta_new (Ipv4Addr 10 0 0 1) [1] 5000 200000"
    and ?rm = "\<lparr>rm_packet_hash = 7, rm_execution_nanos = 9, rm_additional_metadata = ()\<rparr>"
  have inv: "lru_inv LRU_CAP (lru_new LRU_CAP :: meta_cache)" "entries (lru_new LRU_CAP :: meta_cache) = []"
    by (simp_all add: lru_new_inv lru_new_entries LRU_CAP_def)
  have "0 < LRU_CAP" by (simp add: LRU_CAP_def)
  then obtain r metas where put: "lru_put LRU_CAP 7 ?pm (lru_new LRU_CAP :: meta_cache) = Some (r, metas)"
    "lru_inv LRU_CAP metas" "entries metas = [(7, ?pm)]"
    using lru.put_ok [OF inv(1), of 7 ?pm] by (auto simp: spec_put_def inv(2))
  let ?s = "(qos_start demo_env [] 1000000 (Some demo_data) 0 0)\<lparr>qos_tx_partial_metas := metas\<rparr>"
  have "lru_inv LRU_CAP (qos_tx_partial_metas ?s)"
    "map_of (entries (qos_tx_partial_metas ?s)) (rm_packet_hash ?rm) = Some ?pm" using put by simp_all
  from completed_entry_step [OF this, of demo_env "[]"] put(1) show ?thesis
    by (auto simp: Let_def qos_start_def)
qed

text \<open>
  The score file lists reversed addresses: at exit the process writes one line per scored address, and
  the line that a reader finds under the address \<open>d.c.b.a\<close> holds the score of \<open>a.b.c.d\<close>, because the keys of
  the table have the first octet in the lowest byte and are printed as if it were in the highest.\<close>

lemma exit_saves_reversed_scores:
  assumes "env_ok S Ok hok content E" and "qos_inv S Ok hok content E s"
    and "\<forall>v. disk_fmt (env_disk E) v \<noteq> [] \<and> list_all (\<lambda>c. \<not> is_space c) (disk_fmt (env_disk E) v)"
    and "disk_room (env_disk E) (qos_files s) ''ip_scores'' = Some room"
    and "length (concat (map (\<lambda>(ip, v). score_line (disk_fmt (env_disk E)) ip v)
      (ip_score_entries (env_trees E) (qos_model_st s)))) \<le> room"
  shows "\<exists>contents. qos_files (qos_exit E s) ''ip_scores'' = Some contents \<and>
    score_table contents (show_ipv4 (Ipv4Addr d c b a)) =
      map_option (disk_fmt (env_disk E)) (ip_score_map (env_trees E) (qos_model_st s) (ip_key (Ipv4Addr a b c d)))"
proof -
  have "model_laws MODEL_CAP MODEL_CAP Ok (env_trees E)" "model_inv Ok (env_trees E) (qos_model_st s)"
    using assms(1) qos_invD(1) [OF assms(2)] by (simp_all add: env_ok_def model_ok_def)
  from this assms(3-5) show ?thesis by (rule saved_scores) (auto simp: qos_exit_def)
qed

lemma exit_saves_reversed_scores_witness:
  "\<exists>contents. qos_files (qos_exit demo_env ((qos_start demo_env [] 1000000 None 0 0)
      \<lparr>qos_model_st := model_new (alist_trees MODEL_CAP) [(ip_key (Ipv4Addr 10 0 0 1), Fin 1)] []\<rparr>)) ''ip_scores'' =
      Some contents \<and>
    score_table contents ''1.0.0.10'' = Some ''1'' \<and> score_table contents ''10.0.0.1'' = None"
proof -
  let ?m = "model_new (alist_trees MODEL_CAP) [(ip_key (Ipv4Addr 10 0 0 1), Fin 1)] []"
  let ?s = "(qos_start demo_env [] 1000000 None 0 0)\<lparr>qos_model_st := ?m\<rparr>"
  have "representable 1" using representable_pow2 [of 0] by simp
  then have m: "model_ok MODEL_CAP MODEL_CAP 10000 68 (alist_oks MODEL_CAP) (alist_trees MODEL_CAP) ?m"
    by (intro alist_model_new_ok) (simp_all add: MODEL_CAP_def)
  have inv: "qos_inv 10000 (alist_oks MODEL_CAP) (list_heap_ok st_score) mset demo_env ?s"
    using m qos_start_ok [OF demo_env_ok, of "[]" 1000000 None 0 0] by (simp add: qos_inv_def demo_env_def)
  have tree: "ip_score ?m = [(ip_key (Ipv4Addr 10 0 0 1), Fin 1)]" "env_trees demo_env = alist_trees MODEL_CAP"
    by (simp_all add: model_new_def load_scores_def alist_trees_def alist_ops_def demo_env_def MODEL_CAP_def split_def)
  have line: "score_line fmt (ip_key (Ipv4Addr 10 0 0 1)) v = ''1.0.0.10 '' @ fmt v @ [newline]" for fmt v
    unfolding score_line_def ipv4_from_bits_key by code_simp
  have disk: "env_disk demo_env = \<lparr>disk_room = \<lambda>_ _. Some 1000000, disk_fmt = \<lambda>_. ''1''\<rparr>" by (simp add: demo_env_def)
  have get: "t_get (ip_tree (alist_trees N)) = map_of" "t_keys (ip_tree (alist_trees N)) = map fst" for N
    by (simp_all add: alist_trees_def alist_ops_def)
  have entries: "ip_score_entries (env_trees demo_env) (qos_model_st ?s) = [(ip_key (Ipv4Addr 10 0 0 1), Fin 1)]"
    by (simp add: ip_score_entries_def tree get)
  have fmt: "\<forall>v. disk_fmt (env_disk demo_env) v \<noteq> [] \<and> list_all (\<lambda>c. \<not> is_space c) (disk_fmt (env_disk demo_env) v)"
    by (simp add: disk is_space_def)
  have room: "disk_room (env_disk demo_env) (qos_files ?s) ''ip_scores'' = Some 1000000" by (simp add: disk)
  have len: "length (concat (map (\<lambda>(ip, v). score_line (disk_fmt (env_disk demo_env)) ip v)
      (ip_score_entries (env_trees demo_env) (qos_model_st ?s)))) \<le> 1000000"
    unfolding entries by (simp add: line disk)
  have shown: "show_ipv4 (Ipv4Addr 1 0 0 10) = ''1.0.0.10''" "show_ipv4 (Ipv4Addr 10 0 0 1) = ''10.0.0.1''" by code_simp+
  have scores: "ip_score_map (env_trees demo_env) (qos_model_st ?s) = [ip_key (Ipv4Addr 10 0 0 1) \<mapsto> Fin 1]"
    by (simp add: tree get)
  have "ip_key (Ipv4Addr 1 0 0 10) \<noteq> ip_key (Ipv4Addr 10 0 0 1)" by code_simp
  with exit_saves_reversed_scores [OF demo_env_ok inv fmt room len, of 1 0 0 10]
    exit_saves_reversed_scores [OF demo_env_ok inv fmt room len, of 10 0 0 1]
  show ?thesis unfolding shown scores by (auto simp: disk)
qed

end
