(* ===== verification/Startup.thy ===== *)
theory Startup
  imports QoS_Main
begin

text \<open>
  Start-up of the QoS process: the channel parameters (common/src/ipc_parameters.rs), the tool that creates
  the channels (cli/src/main.rs), joining them (\<open>join_ipc\<close> of qos/src/main.rs), dropping the privileges
  (common/src/lib.rs) and the run of \<open>main\<close> up to the exit signal.

  Opening shared memory and the system calls are external: functions of the state \<open>'w\<close> of the operating
  system. A panic is \<open>None\<close>.
\<close>

section \<open>Channel parameters\<close>

definition IPC_QOS_TO_SIG_CAP :: usize where "IPC_QOS_TO_SIG_CAP = 32768"
definition IPC_TPU_TO_QOS_CAP :: usize where "IPC_TPU_TO_QOS_CAP = 32768"
definition IPC_FWD_TO_QOS_CAP :: usize where "IPC_FWD_TO_QOS_CAP = IPC_TPU_TO_QOS_CAP"
definition IPC_RE1_TO_QOS_CAP :: usize where "IPC_RE1_TO_QOS_CAP = IPC_TPU_TO_QOS_CAP"
definition IPC_RE2_TO_QOS_CAP :: usize where "IPC_RE2_TO_QOS_CAP = IPC_TPU_TO_QOS_CAP"
definition IPC_SIG_TO_QOS_CAP :: usize where "IPC_SIG_TO_QOS_CAP = 32768"
definition IPC_SCH_TO_QOS_CAP :: usize where "IPC_SCH_TO_QOS_CAP = 32768"
definition IPC_STATUS_CACHE_CAP :: usize where "IPC_STATUS_CACHE_CAP = 1024 * 1024"

definition IPC_QOS_TO_SIG_NAME :: string where "IPC_QOS_TO_SIG_NAME = ''qos_to_sig''"
definition IPC_TPU_TO_QOS_NAME :: string where "IPC_TPU_TO_QOS_NAME = ''tpu_to_qos''"
definition IPC_FWD_TO_QOS_NAME :: string where "IPC_FWD_TO_QOS_NAME = ''fwd_to_qos''"
definition IPC_RE1_TO_QOS_NAME :: string where "IPC_RE1_TO_QOS_NAME = ''re1_to_qos''"
definition IPC_RE2_TO_QOS_NAME :: string where "IPC_RE2_TO_QOS_NAME = ''re2_to_qos''"
definition IPC_SIG_TO_QOS_NAME :: string where "IPC_SIG_TO_QOS_NAME = ''sig_to_qos''"
definition IPC_SCH_TO_QOS_NAME :: string where "IPC_SCH_TO_QOS_NAME = ''sch_to_qos''"
definition IPC_STATUS_CACHE_NAME :: string where "IPC_STATUS_CACHE_NAME = ''tx_status_cache''"

lemmas ipc_parameters =
  IPC_QOS_TO_SIG_CAP_def IPC_TPU_TO_QOS_CAP_def IPC_FWD_TO_QOS_CAP_def IPC_RE1_TO_QOS_CAP_def IPC_RE2_TO_QOS_CAP_def
  IPC_SIG_TO_QOS_CAP_def IPC_SCH_TO_QOS_CAP_def IPC_STATUS_CACHE_CAP_def IPC_QOS_TO_SIG_NAME_def IPC_TPU_TO_QOS_NAME_def
  IPC_FWD_TO_QOS_NAME_def IPC_RE1_TO_QOS_NAME_def IPC_RE2_TO_QOS_NAME_def IPC_SIG_TO_QOS_NAME_def
  IPC_SCH_TO_QOS_NAME_def IPC_STATUS_CACHE_NAME_def

text \<open>The kind of message a channel carries, its name, its capacity.\<close>

datatype msg_kind = PacketMsg | MetaMsg | SignatureMsg

type_synonym channel = "msg_kind \<times> string \<times> usize"

section \<open>Creating the channels\<close>

text \<open>\<open>main\<close> of the command-line tool: a failure is reported and the next channel is tried.\<close>

definition cli_channels :: "channel list" where
  "cli_channels =
     [(PacketMsg, IPC_FWD_TO_QOS_NAME, IPC_FWD_TO_QOS_CAP),
      (PacketMsg, IPC_TPU_TO_QOS_NAME, IPC_TPU_TO_QOS_CAP),
      (PacketMsg, IPC_RE1_TO_QOS_NAME, IPC_RE1_TO_QOS_CAP),
      (PacketMsg, IPC_RE2_TO_QOS_NAME, IPC_RE2_TO_QOS_CAP),
      (PacketMsg, IPC_QOS_TO_SIG_NAME, IPC_QOS_TO_SIG_CAP),
      (PacketMsg, IPC_SIG_TO_QOS_NAME, IPC_SIG_TO_QOS_CAP),
      (MetaMsg, IPC_SCH_TO_QOS_NAME, IPC_SCH_TO_QOS_CAP),
      (SignatureMsg, IPC_STATUS_CACHE_NAME, IPC_STATUS_CACHE_CAP)]"

type_synonym ('e, 'h, 'w) opener = "channel \<Rightarrow> PageSize \<Rightarrow> 'w \<Rightarrow> ('e + 'h) \<times> 'w"

fun initialize_huge :: "('e, 'h, 'w) opener \<Rightarrow> channel list \<Rightarrow> 'w \<Rightarrow> 'w" where
  "initialize_huge join_or_create [] w = w"
| "initialize_huge join_or_create (c # cs) w =
     initialize_huge join_or_create cs (snd (join_or_create c (get_page_size True) w))"

definition cli_main :: "('e, 'h, 'w) opener \<Rightarrow> 'w \<Rightarrow> 'w" where
  "cli_main join_or_create w = initialize_huge join_or_create cli_channels w"

section \<open>Joining the channels\<close>

record 'h ipc_channels =
  tpu_consumer :: 'h
  fwd_consumer :: 'h
  re1_consumer :: 'h
  re2_consumer :: 'h
  sig_consumer :: 'h
  sch_consumer :: 'h
  sig_producer :: 'h
  recent_sig_consumer :: 'h

definition unwrap :: "('e + 'h) \<times> 'w \<Rightarrow> ('h \<times> 'w) option" where
  "unwrap r = (case r of (Inr h, w) \<Rightarrow> Some (h, w) | (Inl _, _) \<Rightarrow> None)"

definition join_ipc :: "('e, 'h, 'w) opener \<Rightarrow> ('e, 'h, 'w) opener \<Rightarrow> PageSize \<Rightarrow> 'w \<Rightarrow> ('h ipc_channels \<times> 'w) option" where
  "join_ipc join_shmem join_or_create page_size w = do {
     (tpu, w) \<leftarrow> unwrap (join_shmem (PacketMsg, IPC_TPU_TO_QOS_NAME, IPC_TPU_TO_QOS_CAP) page_size w);
     (fwd, w) \<leftarrow> unwrap (join_shmem (PacketMsg, IPC_FWD_TO_QOS_NAME, IPC_FWD_TO_QOS_CAP) page_size w);
     (re1, w) \<leftarrow> unwrap (join_shmem (PacketMsg, IPC_RE1_TO_QOS_NAME, IPC_RE1_TO_QOS_CAP) page_size w);
     (re2, w) \<leftarrow> unwrap (join_shmem (PacketMsg, IPC_RE2_TO_QOS_NAME, IPC_RE2_TO_QOS_CAP) page_size w);
     (sig, w) \<leftarrow> unwrap (join_shmem (PacketMsg, IPC_SIG_TO_QOS_NAME, IPC_SIG_TO_QOS_CAP) page_size w);
     (sch, w) \<leftarrow> unwrap (join_shmem (MetaMsg, IPC_SCH_TO_QOS_NAME, IPC_SCH_TO_QOS_CAP) page_size w);
     (out, w) \<leftarrow> unwrap (join_or_create (PacketMsg, IPC_QOS_TO_SIG_NAME, IPC_QOS_TO_SIG_CAP) page_size w);
     (recent, w) \<leftarrow> unwrap (join_shmem (SignatureMsg, IPC_STATUS_CACHE_NAME, IPC_STATUS_CACHE_CAP) page_size w);
     Some (\<lparr>tpu_consumer = tpu, fwd_consumer = fwd, re1_consumer = re1, re2_consumer = re2, sig_consumer = sig,
            sch_consumer = sch, sig_producer = out, recent_sig_consumer = recent\<rparr>, w)
   }"

section \<open>Dropping privileges\<close>

datatype priv_error = SudoUserNotSet | NotACString | UserNotFound | SetGidFailed u32 | SetUidFailed u32

record 'w sys_ops =
  getpwnam :: "string \<Rightarrow> (u32 \<times> u32) option"   \<comment> \<open>user and group id; \<open>None\<close>: null pointer\<close>
  setgid :: "u32 \<Rightarrow> 'w \<Rightarrow> int \<times> 'w"
  setuid :: "u32 \<Rightarrow> 'w \<Rightarrow> int \<times> 'w"

text \<open>\<open>CString::new\<close> fails on an interior zero byte.\<close>

definition checked_drop_privileges :: "'w sys_ops \<Rightarrow> string option \<Rightarrow> 'w \<Rightarrow> (priv_error + unit) \<times> 'w" where
  "checked_drop_privileges sys sudo_user w =
     (case sudo_user of
        None \<Rightarrow> (Inl SudoUserNotSet, w)
      | Some user \<Rightarrow>
          if CHR 0x00 \<in> set user then (Inl NotACString, w)
          else case getpwnam sys user of
            None \<Rightarrow> (Inl UserNotFound, w)
          | Some (uid, gid) \<Rightarrow>
              (case setgid sys gid w of (rc, w) \<Rightarrow>
                 if rc \<noteq> 0 then (Inl (SetGidFailed gid), w)
                 else case setuid sys uid w of (rc, w) \<Rightarrow>
                   if rc \<noteq> 0 then (Inl (SetUidFailed uid), w) else (Inr (), w)))"

section \<open>The main function\<close>

text \<open>
  \<open>main\<close> until the exit signal: \<open>inputs\<close> are what the iterations find before \<open>EXIT\<close> is seen. The seed is
  written to the padding of the scheduler channel by \<open>store_seed\<close>.
\<close>

record ('e, 'h, 'w) os_env =
  os_join_shmem :: "('e, 'h, 'w) opener"
  os_join_or_create :: "('e, 'h, 'w) opener"
  os_sys :: "'w sys_ops"
  os_sudo_user :: "string option"
  os_store_seed :: "'h \<Rightarrow> u64 \<Rightarrow> 'w \<Rightarrow> 'w"
  os_xx :: xx_ops

record Args =
  use_huge_pages :: bool
  xxhash_seed :: u64
  target_pps :: usize

text \<open>The hasher is made from the seed of the command line.\<close>

definition seeded_env :: "xx_ops \<Rightarrow> u64 \<Rightarrow> ('ms, 'mi, 'vs, 'vi, 'v, 'tx, 'hp, 'h) qos_env \<Rightarrow> ('ms, 'mi, 'vs, 'vi, 'v, 'tx, 'hp, 'h) qos_env" where
  "seeded_env X seed E = E\<lparr>env_hash := xx_hash X (initialize_with_seed X seed)\<rparr>"

definition qos_main :: "('e, 'h, 'w) os_env \<Rightarrow> ('ms, 'mi, 'vs, 'vi, 'v, 'tx, 'hp, 'h) qos_env \<Rightarrow> Args \<Rightarrow> shared_data option
    \<Rightarrow> u64 \<Rightarrow> u64 \<Rightarrow> (bool \<times> qos_input) list \<Rightarrow> 'w \<Rightarrow> (('ms, 'mi, 'vs, 'vi, 'hp, 'h) qos_state \<times> 'w) option" where
  "qos_main os E args shared rdtsc rdtsc' turns w = do {
     let page_size = get_page_size (use_huge_pages args);
     (channels, w) \<leftarrow> join_ipc (os_join_shmem os) (os_join_or_create os) page_size w;
     (case checked_drop_privileges (os_sys os) (os_sudo_user os) w of
        (Inl _, _) \<Rightarrow> None
      | (Inr _, w) \<Rightarrow> do {
          let w = os_store_seed os (sch_consumer channels) (xxhash_seed args) w;
          let E = seeded_env (os_xx os) (xxhash_seed args) E;
          s \<leftarrow> qos_loop E turns (qos_start E (sig_producer channels) (target_pps args) shared rdtsc rdtsc');
          Some (qos_exit E s, w)
        })
   }"

text \<open>
  The name that \<open>main\<close> gives to its thread: the bytes of a string literal, read up to the first zero byte by
  \<open>pthread_setname_np\<close>; \<open>None\<close> is a read beyond the literal.
\<close>

fun c_string :: "u8 list \<Rightarrow> u8 list option" where
  "c_string [] = None"
| "c_string (b # bytes) = (if b = 0 then Some [] else map_option ((#) b) (c_string bytes))"

definition thread_name :: "u8 list" where
  "thread_name = map of_char ''solana-qos''"

section \<open>Lemmas\<close>

text \<open>The literal has no zero byte, so the call reads beyond it.\<close>

lemma c_string_total: "c_string bytes \<noteq> None \<longleftrightarrow> 0 \<in> set bytes"
  by (induction bytes) auto

lemma thread_name_unterminated: "c_string thread_name = None"
  using c_string_total [of thread_name] by (simp add: thread_name_def)

lemma seeded_env_ok [simp]:
  "env_ok S Ok hok content (seeded_env X seed E) = env_ok S Ok hok content E"
  "qos_inv S Ok hok content (seeded_env X seed E) s = qos_inv S Ok hok content E s"
  by (simp_all add: env_ok_def qos_inv_def seeded_env_def)

lemma unwrap_Some [simp]: "unwrap r = Some (h, w) \<longleftrightarrow> r = (Inr h, w)"
  by (cases r; cases "fst r") (auto simp: unwrap_def)

lemma drop_privileges_ok:
  "checked_drop_privileges sys sudo_user w = (Inr (), w') \<longleftrightarrow>
   (\<exists>user uid gid w1. sudo_user = Some user \<and> CHR 0x00 \<notin> set user \<and> getpwnam sys user = Some (uid, gid) \<and>
      setgid sys gid w = (0, w1) \<and> setuid sys uid w1 = (0, w'))"
  by (auto simp: checked_drop_privileges_def split: option.splits prod.splits)

text \<open>
  What the kernel documents of the two calls: the superuser may set both ids; changing the group keeps
  the user, and changing the user keeps the group. \<open>uid_of\<close>, \<open>gid_of\<close>: the ids of the process.
\<close>

definition sys_laws :: "('w \<Rightarrow> u32) \<Rightarrow> ('w \<Rightarrow> u32) \<Rightarrow> 'w sys_ops \<Rightarrow> bool" where
  "sys_laws uid_of gid_of sys \<longleftrightarrow>
     (\<forall>w i. uid_of w = 0 \<longrightarrow>
        (\<exists>w'. setgid sys i w = (0, w') \<and> uid_of w' = uid_of w \<and> gid_of w' = i) \<and>
        (\<exists>w'. setuid sys i w = (0, w') \<and> uid_of w' = i \<and> gid_of w' = gid_of w))"

text \<open>
  What is documented of the shared-memory queues, for a machine with enough huge pages: creating always
  succeeds and the object then exists with its message type, capacity and page size; joining succeeds
  for such an object. Neither changes the ids of the process.
\<close>

definition shmem_laws :: "('w \<Rightarrow> (channel \<times> PageSize) set) \<Rightarrow> ('w \<Rightarrow> u32) \<Rightarrow> ('e, 'h, 'w) opener \<Rightarrow> ('e, 'h, 'w) opener \<Rightarrow> bool" where
  "shmem_laws objects uid_of join_shmem join_or_create \<longleftrightarrow>
     (\<forall>c ps w.
        ((c, ps) \<in> objects w \<longrightarrow>
          (\<exists>h w'. join_shmem c ps w = (Inr h, w') \<and> objects w' = objects w \<and> uid_of w' = uid_of w)) \<and>
        (\<exists>h w'. join_or_create c ps w = (Inr h, w') \<and> objects w' = insert (c, ps) (objects w) \<and> uid_of w' = uid_of w))"

lemma shmem_joinE:
  assumes "shmem_laws objects uid_of join_shmem join_or_create" and "(c, ps) \<in> objects w"
  obtains h w' where "join_shmem c ps w = (Inr h, w')" "objects w' = objects w" "uid_of w' = uid_of w"
  using assms unfolding shmem_laws_def by blast

lemma shmem_createE:
  assumes "shmem_laws objects uid_of join_shmem join_or_create"
  obtains h w' where "join_or_create c ps w = (Inr h, w')" "objects w' = insert (c, ps) (objects w)" "uid_of w' = uid_of w"
  using assms unfolding shmem_laws_def by blast

lemma initialize_huge_ok:
  assumes L: "shmem_laws objects uid_of join_shmem join_or_create"
  shows "objects (initialize_huge join_or_create cs w) = objects w \<union> (\<lambda>c. (c, Huge)) ` set cs \<and>
    uid_of (initialize_huge join_or_create cs w) = uid_of w"
proof (induction cs arbitrary: w)
  case (Cons c cs)
  obtain h w' where "join_or_create c (get_page_size True) w = (Inr h, w')"
    "objects w' = insert (c, Huge) (objects w)" "uid_of w' = uid_of w"
    using shmem_createE [OF L, of c "get_page_size True" w] by (auto simp: get_page_size_def)
  with Cons.IH [of w'] show ?case by simp
qed simp

lemma join_ipc_ok:
  assumes L: "shmem_laws objects uid_of join_shmem join_or_create"
    and all: "(\<lambda>c. (c, ps)) ` set cli_channels \<subseteq> objects w"
  shows "\<exists>chans w'. join_ipc join_shmem join_or_create ps w = Some (chans, w') \<and> uid_of w' = uid_of w"
proof -
  have step: "\<exists>h w2. join_shmem c ps w1 = (Inr h, w2) \<and> objects w2 = objects w1 \<and> uid_of w2 = uid_of w1"
    if "objects w1 \<supseteq> objects w" "c \<in> set cli_channels" for c w1
  proof -
    from that(2) have "(c, ps) \<in> (\<lambda>c. (c, ps)) ` set cli_channels" by (rule imageI)
    with all that(1) have "(c, ps) \<in> objects w1" by (meson subsetD)
    then show ?thesis by (rule shmem_joinE [OF L]) blast
  qed
  have mem: "(PacketMsg, IPC_TPU_TO_QOS_NAME, IPC_TPU_TO_QOS_CAP) \<in> set cli_channels"
    "(PacketMsg, IPC_FWD_TO_QOS_NAME, IPC_FWD_TO_QOS_CAP) \<in> set cli_channels"
    "(PacketMsg, IPC_RE1_TO_QOS_NAME, IPC_RE1_TO_QOS_CAP) \<in> set cli_channels"
    "(PacketMsg, IPC_RE2_TO_QOS_NAME, IPC_RE2_TO_QOS_CAP) \<in> set cli_channels"
    "(PacketMsg, IPC_SIG_TO_QOS_NAME, IPC_SIG_TO_QOS_CAP) \<in> set cli_channels"
    "(MetaMsg, IPC_SCH_TO_QOS_NAME, IPC_SCH_TO_QOS_CAP) \<in> set cli_channels"
    "(SignatureMsg, IPC_STATUS_CACHE_NAME, IPC_STATUS_CACHE_CAP) \<in> set cli_channels"
    by (simp_all add: cli_channels_def)
  obtain h1 w1 where 1: "join_shmem (PacketMsg, IPC_TPU_TO_QOS_NAME, IPC_TPU_TO_QOS_CAP) ps w = (Inr h1, w1)"
    "objects w1 = objects w" "uid_of w1 = uid_of w" using step [OF _ mem(1), of w] by auto
  obtain h2 w2 where 2: "join_shmem (PacketMsg, IPC_FWD_TO_QOS_NAME, IPC_FWD_TO_QOS_CAP) ps w1 = (Inr h2, w2)"
    "objects w2 = objects w" "uid_of w2 = uid_of w" using step [OF _ mem(2), of w1] 1 by auto
  obtain h3 w3 where 3: "join_shmem (PacketMsg, IPC_RE1_TO_QOS_NAME, IPC_RE1_TO_QOS_CAP) ps w2 = (Inr h3, w3)"
    "objects w3 = objects w" "uid_of w3 = uid_of w" using step [OF _ mem(3), of w2] 2 by auto
  obtain h4 w4 where 4: "join_shmem (PacketMsg, IPC_RE2_TO_QOS_NAME, IPC_RE2_TO_QOS_CAP) ps w3 = (Inr h4, w4)"
    "objects w4 = objects w" "uid_of w4 = uid_of w" using step [OF _ mem(4), of w3] 3 by auto
  obtain h5 w5 where 5: "join_shmem (PacketMsg, IPC_SIG_TO_QOS_NAME, IPC_SIG_TO_QOS_CAP) ps w4 = (Inr h5, w5)"
    "objects w5 = objects w" "uid_of w5 = uid_of w" using step [OF _ mem(5), of w4] 4 by auto
  obtain h6 w6 where 6: "join_shmem (MetaMsg, IPC_SCH_TO_QOS_NAME, IPC_SCH_TO_QOS_CAP) ps w5 = (Inr h6, w6)"
    "objects w6 = objects w" "uid_of w6 = uid_of w" using step [OF _ mem(6), of w5] 5 by auto
  obtain h7 w7 where 7: "join_or_create (PacketMsg, IPC_QOS_TO_SIG_NAME, IPC_QOS_TO_SIG_CAP) ps w6 = (Inr h7, w7)"
    "objects w7 \<supseteq> objects w" "uid_of w7 = uid_of w"
    by (rule shmem_createE [OF L, of "(PacketMsg, IPC_QOS_TO_SIG_NAME, IPC_QOS_TO_SIG_CAP)" ps w6])
       (metis 6(2,3) subset_insertI)
  obtain h8 w8 where 8: "join_shmem (SignatureMsg, IPC_STATUS_CACHE_NAME, IPC_STATUS_CACHE_CAP) ps w7 = (Inr h8, w8)"
    "uid_of w8 = uid_of w" using step [OF 7(2) mem(7)] 7(3) by auto
  show ?thesis
    unfolding join_ipc_def by (simp add: 1(1) 2(1) 3(1) 4(1) 5(1) 6(1) 7(1) 8 unwrap_def)
qed

lemma drop_privileges_succeeds:
  assumes "sys_laws uid_of gid_of sys" "uid_of w = 0" "CHR 0x00 \<notin> set user" "getpwnam sys user = Some (uid, gid)"
  shows "\<exists>w'. checked_drop_privileges sys (Some user) w = (Inr (), w') \<and> uid_of w' = uid \<and> gid_of w' = gid"
proof -
  from assms obtain w1 where "setgid sys gid w = (0, w1)" "uid_of w1 = 0" "gid_of w1 = gid"
    unfolding sys_laws_def by metis
  moreover from this assms(1) obtain w2 where "setuid sys uid w1 = (0, w2)" "uid_of w2 = uid" "gid_of w2 = gid"
    unfolding sys_laws_def by metis
  ultimately show ?thesis using assms(3,4) drop_privileges_ok [of sys "Some user" w w2] by blast
qed

section \<open>Properties\<close>

text \<open>
  Started by the superuser on behalf of a known user, \<open>checked_drop_privileges\<close> succeeds and leaves the
  process with exactly the user and group ids of that user; whenever it reports an error before the
  group was changed, the process is as it was.\<close>

lemma privileges_dropped:
  assumes "sys_laws uid_of gid_of sys" and "uid_of w = 0"
  shows "case sudo_user of
      None \<Rightarrow> checked_drop_privileges sys sudo_user w = (Inl SudoUserNotSet, w)
    | Some user \<Rightarrow>
        if CHR 0x00 \<in> set user then checked_drop_privileges sys sudo_user w = (Inl NotACString, w)
        else case getpwnam sys user of
          None \<Rightarrow> checked_drop_privileges sys sudo_user w = (Inl UserNotFound, w)
        | Some (uid, gid) \<Rightarrow> \<exists>w'. checked_drop_privileges sys sudo_user w = (Inr (), w') \<and> uid_of w' = uid \<and> gid_of w' = gid"
  using drop_privileges_succeeds [OF assms]
  by (auto simp: checked_drop_privileges_def split: option.splits)

text \<open>A kernel that keeps the two ids and lets only the superuser change them.\<close>

definition demo_sys :: "(u32 \<times> u32) sys_ops" where
  "demo_sys =
     \<lparr>getpwnam = (\<lambda>name. if name = ''sol'' then Some (1000, 1001) else None),
      setgid = (\<lambda>i (u, g). if u = 0 then (0, (u, i)) else (- 1, (u, g))),
      setuid = (\<lambda>i (u, g). if u = 0 then (0, (i, g)) else (- 1, (u, g)))\<rparr>"

lemma demo_sys_laws: "sys_laws fst snd demo_sys"
  by (simp add: sys_laws_def demo_sys_def)

lemma privileges_dropped_witness:
  "\<exists>w'. checked_drop_privileges demo_sys (Some ''sol'') (0, 0) = (Inr (), w') \<and> fst w' = 1000 \<and> snd w' = 1001"
  using privileges_dropped [OF demo_sys_laws, of "(0, 0)" "Some ''sol''"]
  by (simp add: demo_sys_def)

text \<open>
  C5. From the command line to a running process: after the channels were created by the command-line
  tool, the process started with huge pages by the superuser on behalf of a known user joins all of
  them (names, message types and capacities agree), drops its privileges and then processes any traffic until the exit signal
  without panicking, with the invariant of \<open>QoS_Main\<close> holding at the end.\<close>

theorem startup_after_cli:
  assumes "shmem_laws objects uid_of (os_join_shmem os) (os_join_or_create os)"
    and "sys_laws uid_of gid_of (os_sys os)" and "uid_of w = 0"
    and "\<forall>h seed v. uid_of (os_store_seed os h seed v) = uid_of v"
    and "os_sudo_user os = Some user" "CHR 0x00 \<notin> set user" "getpwnam (os_sys os) user = Some (uid, gid)"
    and "use_huge_pages args" and "env_ok S Ok hok content E" and "\<forall>t \<in> set turns. input_ok (snd t)"
  shows "\<exists>s w'. qos_main os E args shared rdtsc rdtsc' turns (cli_main (os_join_or_create os) w) = Some (s, w') \<and>
    qos_inv S Ok hok content E s \<and> uid_of w' = uid"
proof -
  let ?w = "cli_main (os_join_or_create os) w"
  have cli: "(\<lambda>c. (c, Huge)) ` set cli_channels \<subseteq> objects ?w" "uid_of ?w = 0"
    using initialize_huge_ok [OF assms(1), of cli_channels w] assms(3) by (auto simp: cli_main_def)
  obtain chans w1 where join: "join_ipc (os_join_shmem os) (os_join_or_create os) Huge ?w = Some (chans, w1)" "uid_of w1 = 0"
    using join_ipc_ok [OF assms(1) cli(1)] cli(2) by auto
  obtain w2 where drop: "checked_drop_privileges (os_sys os) (Some user) w1 = (Inr (), w2)" "uid_of w2 = uid"
    using drop_privileges_succeeds [OF assms(2) join(2) assms(6,7)] by blast
  let ?E = "seeded_env (os_xx os) (xxhash_seed args) E"
  have E: "env_ok S Ok hok content ?E" using assms(9) by simp
  have "\<forall>i \<in> set (map snd (takeWhile (\<lambda>t. \<not> fst t) turns)). input_ok i"
    using assms(10) by (auto dest: set_takeWhileD)
  then obtain s where "qos_loop ?E turns (qos_start ?E (sig_producer chans) (target_pps args) shared rdtsc rdtsc') = Some s"
    "qos_inv S Ok hok content ?E s"
    unfolding qos_loop_run using qos_run_ok [OF E qos_start_ok [OF E]] by blast
  with join drop assms(4,5,8) show ?thesis
    using qos_exit_inv [of S Ok hok content ?E s]
    by (simp add: qos_main_def get_page_size_def Let_def)
qed

text \<open>An operating system whose state is the set of existing objects and the two ids.\<close>

type_synonym demo_world = "(channel \<times> PageSize) list \<times> u32 \<times> u32"

definition demo_os :: "(unit, Packet list, demo_world) os_env" where
  "demo_os =
     \<lparr>os_join_shmem = (\<lambda>c ps (os, ids). if (c, ps) \<in> set os then (Inr [], os, ids) else (Inl (), os, ids)),
      os_join_or_create = (\<lambda>c ps (os, ids). (Inr [], (c, ps) # os, ids)),
      os_sys = \<lparr>getpwnam = getpwnam demo_sys,
        setgid = (\<lambda>i (os, ids). case setgid demo_sys i ids of (rc, ids) \<Rightarrow> (rc, os, ids)),
        setuid = (\<lambda>i (os, ids). case setuid demo_sys i ids of (rc, ids) \<Rightarrow> (rc, os, ids))\<rparr>,
      os_sudo_user = Some ''sol'',
      os_store_seed = (\<lambda>h seed w. w),
      os_xx = \<lparr>custom_default_secret = to_le_bytes 8, xxh3_with_secret = (\<lambda>input secret. from_le_bytes input)\<rparr>\<rparr>"

lemma demo_os_laws:
  "shmem_laws (\<lambda>w. set (fst w)) (\<lambda>w. fst (snd w)) (os_join_shmem demo_os) (os_join_or_create demo_os)"
  "sys_laws (\<lambda>w. fst (snd w)) (\<lambda>w. snd (snd w)) (os_sys demo_os)"
  by (auto simp: shmem_laws_def sys_laws_def demo_os_def demo_sys_def)

theorem startup_after_cli_witness:
  "\<exists>s w'. qos_main demo_os demo_env \<lparr>use_huge_pages = True, xxhash_seed = 3, target_pps = 1000000\<rparr> None 0 0
     [(False, demo_input), (True, demo_input)] (cli_main (os_join_or_create demo_os) ([], 0, 0)) = Some (s, w') \<and> fst (snd w') = 1000"
proof -
  have 1: "fst (snd ([], 0, 0) :: u32 \<times> u32) = 0"
    "\<forall>h seed v. fst (snd (os_store_seed demo_os h seed v)) = fst (snd v)"
    "os_sudo_user demo_os = Some ''sol''" "CHR 0x00 \<notin> set ''sol''"
    "getpwnam (os_sys demo_os) ''sol'' = Some (1000, 1001)"
    "use_huge_pages \<lparr>use_huge_pages = True, xxhash_seed = 3, target_pps = 1000000\<rparr>"
    by (simp_all add: demo_os_def demo_sys_def)
  have 2: "\<forall>t \<in> set [(False, demo_input), (True, demo_input)]. input_ok (snd t)" using demo_input_ok by simp
  from startup_after_cli [where w = "([], 0, 0)", OF demo_os_laws 1 demo_env_ok 2, of None 0 0]
  show ?thesis by blast
qed

end
