(* ===== verification/Traffic_Agents.thy ===== *)
theory Traffic_Agents
  imports Wire_Data
begin

text \<open>
  The traffic generator (engine/src/rng.rs and engine/src/agent.rs): the xxHash-based random source,
  and the agents that patch price, blockhash and signature into a prepared transaction packet.

  The hash function, the key pairs, the distributions of the crates \<open>rand\<close> and \<open>rand_distr\<close>, the functions
  \<open>ln\<close> and \<open>exp\<close> of the platform and the transaction builder of the SDK are external: they are the
  parameters \<open>agent_ops\<close> and \<open>sdk_ops\<close>. Fresh keys, seeds, blockhashes and random signature bytes are
  arguments. A single-precision number is given by its value. A panic, or a write through a raw pointer
  beyond the buffer, is \<open>None\<close>.
\<close>

section \<open>The random source\<close>

record FastxxHashRng =
  rng_state :: u64

definition UNSAFE_SECRET_SEED :: u64 where
  "UNSAFE_SECRET_SEED = from_le_bytes (map of_char ''xUNSAFEx'')"

definition UNSAFE_SECRET :: "xx_ops \<Rightarrow> u8 list" where
  "UNSAFE_SECRET X = custom_default_secret X UNSAFE_SECRET_SEED"

text \<open>The hash with this secret is the argument \<open>xxh\<close> of the operations below.\<close>

definition unsafe_hash :: "xx_ops \<Rightarrow> u8 list \<Rightarrow> u64" where
  "unsafe_hash X input = xxh3_with_secret X input (UNSAFE_SECRET X)"

definition rng_new :: "(u8 list \<Rightarrow> u64) \<Rightarrow> u64 \<Rightarrow> FastxxHashRng" where
  "rng_new xxh seed = \<lparr>rng_state = xxh (to_le_bytes 8 seed)\<rparr>"

definition next_u32 :: "(u8 list \<Rightarrow> u64) \<Rightarrow> FastxxHashRng \<Rightarrow> u32 \<times> FastxxHashRng" where
  "next_u32 xxh rng =
     (let old_state = rng_state rng;
          st = xxh (to_le_bytes 8 old_state);
          st = (if old_state = st then word_rotr 32 st else st)
      in (ucast st, rng\<lparr>rng_state := st\<rparr>))"

definition next_u64 :: "(u8 list \<Rightarrow> u64) \<Rightarrow> FastxxHashRng \<Rightarrow> u64 \<times> FastxxHashRng" where
  "next_u64 xxh rng =
     (let st = xxh (to_le_bytes 8 (rng_state rng)) in (st, rng\<lparr>rng_state := st\<rparr>))"

function fill_loop :: "(u8 list \<Rightarrow> u64) \<Rightarrow> nat \<Rightarrow> nat \<Rightarrow> u8 list \<Rightarrow> FastxxHashRng \<Rightarrow> u8 list \<times> FastxxHashRng" where
  "fill_loop xxh bytes_written bytes_remaining dest rng =
     (if bytes_remaining = 0 then (dest, rng)
      else
        let bytes_to_write = min bytes_remaining 8;
            (new_bytes, rng) = next_u64 xxh rng;
            dest = overwrite dest bytes_written (take bytes_to_write (to_le_bytes 8 new_bytes))
        in fill_loop xxh (bytes_written + bytes_to_write) (bytes_remaining - bytes_to_write) dest rng)"
  by pat_completeness auto

termination
  by (relation "measure (\<lambda>(_, _, r, _, _). r)") auto

declare fill_loop.simps [simp del]

definition fill_bytes :: "(u8 list \<Rightarrow> u64) \<Rightarrow> u8 list \<Rightarrow> FastxxHashRng \<Rightarrow> u8 list \<times> FastxxHashRng" where
  "fill_bytes xxh dest rng = fill_loop xxh 0 (length dest) dest rng"

text \<open>The reference: the bytes of successive draws, one after the other.\<close>

fun draws :: "(u8 list \<Rightarrow> u64) \<Rightarrow> nat \<Rightarrow> FastxxHashRng \<Rightarrow> u64 list \<times> FastxxHashRng" where
  "draws xxh 0 rng = ([], rng)"
| "draws xxh (Suc n) rng =
     (case next_u64 xxh rng of (v, rng) \<Rightarrow> (case draws xxh n rng of (vs, rng) \<Rightarrow> (v # vs, rng)))"

definition bytes_of_draws :: "u64 list \<Rightarrow> u8 list" where
  "bytes_of_draws vs = concat (map (to_le_bytes 8) vs)"

lemma length_bytes_of_draws: "length (bytes_of_draws vs) = 8 * length vs"
  by (induction vs) (simp_all add: bytes_of_draws_def)

lemma length_draws: "length (fst (draws xxh n rng)) = n"
  by (induction n arbitrary: rng) (auto split: prod.splits, metis fst_conv)

lemma ceil_draws: "0 < r \<Longrightarrow> (r + 7) div 8 = Suc ((r - min r 8 + 7) div 8)" for r :: nat
  by (cases "r \<le> 8") (auto simp: min_def div_if)

lemma fill_loop_eq:
  assumes "length dest = w + r"
  shows "fill_loop xxh w r dest rng =
    (take w dest @ take r (bytes_of_draws (fst (draws xxh ((r + 7) div 8) rng))),
     snd (draws xxh ((r + 7) div 8) rng))"
  using assms
proof (induction xxh w r dest rng rule: fill_loop.induct)
  case (1 xxh w r dest rng)
  show ?case
  proof (cases "r = 0")
    case True
    then show ?thesis using "1.prems" by (simp add: fill_loop.simps)
  next
    case False
    let ?b = "min r 8"
    obtain v rng' where v: "next_u64 xxh rng = (v, rng')" by fastforce
    let ?dest = "overwrite dest w (take ?b (to_le_bytes 8 v))"
    have len: "length ?dest = w + ?b + (r - ?b)" using "1.prems" by (simp add: overwrite_def)
    note ih = "1.IH" [OF False refl v [symmetric] refl refl len]
    have "take (w + ?b) ?dest = take w dest @ take ?b (to_le_bytes 8 v)"
      using "1.prems" by (simp add: overwrite_def)
    moreover have "take r (bytes_of_draws (v # vs)) =
        take ?b (to_le_bytes 8 v) @ take (r - ?b) (bytes_of_draws vs)" for vs
      by (simp add: bytes_of_draws_def min_def)
    ultimately show ?thesis
      using ih v False by (simp add: fill_loop.simps [of xxh w r] ceil_draws [of r] Let_def split: prod.splits)
  qed
qed


definition try_fill_bytes :: "(u8 list \<Rightarrow> u64) \<Rightarrow> u8 list \<Rightarrow> FastxxHashRng \<Rightarrow> ('e + unit) \<times> u8 list \<times> FastxxHashRng" where
  "try_fill_bytes xxh dest rng = (case fill_bytes xxh dest rng of (dest, rng) \<Rightarrow> (Inr (), dest, rng))"

section \<open>Single precision\<close>

definition round_f32 :: "rat \<Rightarrow> f64" where
  "round_f32 q =
     (let e = max (floor_log2 \<bar>q\<bar> - 23) (- 149);
          r = (if q = 0 then 0 else of_int (round_half_even (\<bar>q\<bar> / 2 powi e)) * 2 powi e)
      in if 2 ^ 128 \<le> r then (if 0 < q then PInf else NInf) else Fin (if q < 0 then - r else r))"

definition f32_add :: "f64 \<Rightarrow> f64 \<Rightarrow> f64" where
  "f32_add x y = (case (x, y) of (Fin a, Fin b) \<Rightarrow> round_f32 (a + b) | _ \<Rightarrow> f64_add x y)"

definition f32_mul :: "f64 \<Rightarrow> f64 \<Rightarrow> f64" where
  "f32_mul x y = (case (x, y) of (Fin a, Fin b) \<Rightarrow> round_f32 (a * b) | _ \<Rightarrow> f64_mul x y)"

definition f32_div :: "f64 \<Rightarrow> f64 \<Rightarrow> f64" where
  "f32_div x y = (case (x, y) of (Fin a, Fin b) \<Rightarrow> if b = 0 then inf_of_sign a else round_f32 (a / b) | _ \<Rightarrow> f64_div x y)"

section \<open>Signers\<close>

text \<open>
  What the agents use of other code: \<open>LogNormal::new\<close> (\<open>None\<close> is its error) and \<open>sample\<close>, \<open>Rng::gen\<close> for
  \<open>f32\<close>, the index chosen by \<open>SliceRandom::choose_mut\<close> in a slice of the given length, the public key and
  the signatures of a key pair, and the platform's \<open>ln\<close> and \<open>exp\<close>.
\<close>

record ('k, 'd) agent_ops =
  ag_hash :: "u8 list \<Rightarrow> u64"
  lognormal_new :: "f64 \<Rightarrow> f64 \<Rightarrow> 'd option"
  lognormal_sample :: "'d \<Rightarrow> FastxxHashRng \<Rightarrow> f64 \<times> FastxxHashRng"
  gen_f32 :: "FastxxHashRng \<Rightarrow> f64 \<times> FastxxHashRng"
  choose_index :: "nat \<Rightarrow> FastxxHashRng \<Rightarrow> nat \<times> FastxxHashRng"
  keypair_pubkey :: "'k \<Rightarrow> u8 list"
  sign_message :: "'k \<Rightarrow> u8 list \<Rightarrow> u8 list"
  f32_ln :: "f64 \<Rightarrow> f64"
  f32_exp :: "f64 \<Rightarrow> f64"

record ('k, 'd) Signer =
  keypair :: 'k
  log_mean :: f64
  std :: f64
  cu_price_distribution :: 'd

definition signer_new :: "('k, 'd) agent_ops \<Rightarrow> 'k \<Rightarrow> f64 \<Rightarrow> f64 \<Rightarrow> ('k, 'd) Signer option" where
  "signer_new A key mean dev = do {
     distribution \<leftarrow> lognormal_new A mean dev;
     Some \<lparr>keypair = key, log_mean = mean, std = dev, cu_price_distribution = distribution\<rparr>
   }"

definition mean_price :: "('k, 'd) agent_ops \<Rightarrow> ('k, 'd) Signer \<Rightarrow> u64" where
  "mean_price A s = f64_to_u64 (f32_exp A (f32_add (log_mean s) (f32_div (f32_mul (std s) (std s)) (Fin 2))))"

definition signer_pubkey :: "('k, 'd) agent_ops \<Rightarrow> ('k, 'd) Signer \<Rightarrow> u8 list" where
  "signer_pubkey A s = keypair_pubkey A (keypair s)"

text \<open>
  A sample of the distribution is cut off at \<open>1e9\<close> and cast to \<open>u64\<close>. \<open>f32::min\<close> ignores a NaN operand.
\<close>

definition float_min :: "f64 \<Rightarrow> f64 \<Rightarrow> f64" where
  "float_min x y = (if x = NaN then y else if y = NaN then x else if x \<le> y then x else y)"

definition price_of_sample :: "f64 \<Rightarrow> u64" where
  "price_of_sample sample = f64_to_u64 (float_min sample (Fin 1000000000))"

definition sample_cu_price :: "('k, 'd) agent_ops \<Rightarrow> ('k, 'd) Signer \<Rightarrow> FastxxHashRng \<Rightarrow> u64 \<times> FastxxHashRng" where
  "sample_cu_price A s rng =
     (case lognormal_sample A (cu_price_distribution s) rng of (sample, rng) \<Rightarrow> (price_of_sample sample, rng))"

text \<open>Whatever the distribution yields, the price is at most \<open>1e9\<close>.\<close>

lemma price_of_sample_bound: "unat (price_of_sample sample) \<le> 1000000000"
proof (cases sample)
  case (Fin q)
  have "unat (of_int \<lfloor>r\<rfloor> :: u64) \<le> 1000000000" if "0 \<le> r" "r \<le> 1000000000" for r :: rat
  proof -
    define n where "n = nat \<lfloor>r\<rfloor>"
    from that have "0 \<le> \<lfloor>r\<rfloor>" "\<lfloor>r\<rfloor> \<le> 1000000000" by (simp_all add: floor_le_iff)
    then have n: "\<lfloor>r\<rfloor> = int n" "n \<le> 1000000000" by (simp_all add: n_def nat_le_iff del: floor_le_numeral)
    then have "n < 2 ^ 64" by simp
    with n show ?thesis by (simp add: unat_of_nat)
  qed
  with Fin show ?thesis by (auto simp: price_of_sample_def float_min_def f64_to_u64_def less_eq_f64_def)
qed (simp_all add: price_of_sample_def float_min_def f64_to_u64_def less_eq_f64_def)

section \<open>Patching transactions\<close>

text \<open>\<open>copy_nonoverlapping\<close> to an offset of the buffer.\<close>

definition patch :: "nat \<Rightarrow> u8 list \<Rightarrow> u8 list \<Rightarrow> u8 list option" where
  "patch offset src buf = (if offset + length src \<le> length buf then Some (overwrite buf offset src) else None)"

definition slice_at :: "nat \<Rightarrow> nat \<Rightarrow> 'a list \<Rightarrow> 'a list" where
  "slice_at offset n buf = take n (drop offset buf)"

definition PRICE_AND_TRANSFER_TX_PRICE_U64_OFFSET :: nat where
  "PRICE_AND_TRANSFER_TX_PRICE_U64_OFFSET = 234"

definition PRICE_AND_TRANSFER_TX_BLOCKHASH_OFFSET :: nat where
  "PRICE_AND_TRANSFER_TX_BLOCKHASH_OFFSET = 197"

definition PRICE_AND_TRANSFER_TX_SIGNATURE_OFFSET :: nat where
  "PRICE_AND_TRANSFER_TX_SIGNATURE_OFFSET = 1"

definition PRICE_AND_TRANSFER_TX_MESSAGE_OFFSET :: nat where
  "PRICE_AND_TRANSFER_TX_MESSAGE_OFFSET = 65"

definition PRICE_AND_TRANSFER_TX_PAYER_OFFSET :: nat where
  "PRICE_AND_TRANSFER_TX_PAYER_OFFSET = 69"

definition PRICE_AND_TRANSFER_TX_TX_LEN :: usize where
  "PRICE_AND_TRANSFER_TX_TX_LEN = 259"

lemmas tx_offsets =
  PRICE_AND_TRANSFER_TX_PRICE_U64_OFFSET_def PRICE_AND_TRANSFER_TX_BLOCKHASH_OFFSET_def
  PRICE_AND_TRANSFER_TX_SIGNATURE_OFFSET_def PRICE_AND_TRANSFER_TX_MESSAGE_OFFSET_def
  PRICE_AND_TRANSFER_TX_PAYER_OFFSET_def

definition update_compute_unit_price :: "u64 \<Rightarrow> u8 list \<Rightarrow> u8 list option" where
  "update_compute_unit_price new_price = patch PRICE_AND_TRANSFER_TX_PRICE_U64_OFFSET (to_le_bytes 8 new_price)"

definition update_blockhash :: "u8 list \<Rightarrow> u8 list \<Rightarrow> u8 list option" where
  "update_blockhash new_blockhash = patch PRICE_AND_TRANSFER_TX_BLOCKHASH_OFFSET new_blockhash"

definition read_price :: "Packet \<Rightarrow> u64 option" where
  "read_price packet =
     (if PRICE_AND_TRANSFER_TX_PRICE_U64_OFFSET + 8 \<le> length (packet_buffer packet)
      then Some (from_le_bytes (slice_at PRICE_AND_TRANSFER_TX_PRICE_U64_OFFSET 8 (packet_buffer packet)))
      else None)"

definition update_payer_and_signature :: "('k, 'd) agent_ops \<Rightarrow> 'k \<Rightarrow> u8 list \<Rightarrow> u8 list option" where
  "update_payer_and_signature A key buf = do {
     let new_payer = keypair_pubkey A key;
     buf \<leftarrow> patch PRICE_AND_TRANSFER_TX_PAYER_OFFSET new_payer buf;
     let new_signature = sign_message A key (drop PRICE_AND_TRANSFER_TX_MESSAGE_OFFSET buf);
     patch PRICE_AND_TRANSFER_TX_SIGNATURE_OFFSET new_signature buf
   }"

definition update_signature_invalid :: "u8 list \<Rightarrow> u8 list \<Rightarrow> u8 list option" where
  "update_signature_invalid sig_bytes = patch PRICE_AND_TRANSFER_TX_SIGNATURE_OFFSET sig_bytes"

text \<open>\<open>*buffer.last_mut().unwrap() = b\<close>\<close>

definition set_last :: "u8 \<Rightarrow> u8 list \<Rightarrow> u8 list option" where
  "set_last b buf = (if buf = [] then None else Some (butlast buf @ [b]))"

record ('k, 'd) Ip =
  ip_addr :: Ipv4Addr
  ip_signer :: "('k, 'd) Signer"
  ip_rng :: FastxxHashRng
  ip_bad :: bool

text \<open>The seed of the random source and the key pair are fresh.\<close>

definition ip_new :: "('k, 'd) agent_ops \<Rightarrow> u64 \<times> 'k \<Rightarrow> Ipv4Addr \<Rightarrow> f64 \<Rightarrow> f64 \<Rightarrow> ('k, 'd) Ip option" where
  "ip_new A fresh ip mean dev = do {
     let rng = rng_new (ag_hash A) (fst fresh);
     signer \<leftarrow> signer_new A (snd fresh) mean dev;
     Some \<lparr>ip_addr = ip, ip_signer = signer, ip_rng = rng, ip_bad = False\<rparr>
   }"

definition ip_new_bad :: "('k, 'd) agent_ops \<Rightarrow> u64 \<times> 'k \<Rightarrow> Ipv4Addr \<Rightarrow> f64 \<Rightarrow> f64 \<Rightarrow> ('k, 'd) Ip option" where
  "ip_new_bad A fresh ip mean dev = do {
     let rng = rng_new (ag_hash A) (fst fresh);
     signer \<leftarrow> signer_new A (snd fresh) mean dev;
     Some \<lparr>ip_addr = ip, ip_signer = signer, ip_rng = rng, ip_bad = True\<rparr>
   }"

text \<open>The literals \<open>2.5e-1\<close> and \<open>3e-1\<close> are the nearest \<open>f32\<close> values.\<close>

definition SIZE_THRESHOLD :: f64 where "SIZE_THRESHOLD = round_f32 (1 / 4)"

definition SIG_THRESHOLD :: f64 where "SIG_THRESHOLD = round_f32 (3 / 10)"

definition update_transfer_with_priority ::
  "('k, 'd) agent_ops \<Rightarrow> u8 list \<Rightarrow> u8 list \<Rightarrow> ('k, 'd) Ip \<Rightarrow> Packet \<Rightarrow> (('k, 'd) Ip \<times> Packet) option" where
  "update_transfer_with_priority A blockhash sig_bytes ip packet =
     (let (lamports_per_megacu, rng) = sample_cu_price A (ip_signer ip) (ip_rng ip);
          ip = ip\<lparr>ip_rng := rng\<rparr>
      in do {
        buf \<leftarrow> update_compute_unit_price lamports_per_megacu (packet_buffer packet);
        buf \<leftarrow> update_blockhash blockhash buf;
        buf \<leftarrow> update_signature_invalid sig_bytes buf;
        (ip, buf, size) \<leftarrow>
          (if ip_bad ip then
             let (sample, rng) = gen_f32 A (ip_rng ip); ip = ip\<lparr>ip_rng := rng\<rparr>
             in if sample < SIZE_THRESHOLD then do { buf \<leftarrow> set_last 0 buf; Some (ip, buf, 0) }
                else if sample < SIG_THRESHOLD then do { buf \<leftarrow> set_last 1 buf; Some (ip, buf, PRICE_AND_TRANSFER_TX_TX_LEN) }
                else Some (ip, buf, meta_size (packet_meta packet))
           else do { buf \<leftarrow> set_last 0 buf; Some (ip, buf, PRICE_AND_TRANSFER_TX_TX_LEN) });
        Some (ip, packet\<lparr>packet_buffer := buf,
          packet_meta := (packet_meta packet)\<lparr>meta_size := size, meta_addr := V4 (ip_addr ip)\<rparr>\<rparr>)
      })"

section \<open>The template\<close>

record ('ix, 'tx) sdk_ops =
  set_compute_unit_price :: "u64 \<Rightarrow> 'ix"
  system_transfer :: "u8 list \<Rightarrow> u8 list \<Rightarrow> u64 \<Rightarrow> 'ix"
  tx_new_with_payer :: "'ix list \<Rightarrow> 'tx"
  tx_set_blockhash :: "u8 list \<Rightarrow> 'tx \<Rightarrow> 'tx"
  packet_from_data :: "'tx \<Rightarrow> Packet option"
  system_program_id :: "u8 list"
  compute_budget_program_id :: "u8 list"

text \<open>The two keys are those that \<open>Pubkey::new_unique\<close> returns.\<close>

definition null_transfer_transaction_with_compute_unit_price ::
  "('ix, 'tx) sdk_ops \<Rightarrow> u8 list \<times> u8 list \<Rightarrow> Packet option" where
  "null_transfer_transaction_with_compute_unit_price K keys =
     (let compute_unit_price_ix = set_compute_unit_price K 115;
          transfer = system_transfer K (fst keys) (snd keys) 0;
          tx = tx_new_with_payer K [compute_unit_price_ix, transfer];
          tx = tx_set_blockhash K (replicate 32 42) tx
      in packet_from_data K tx)"

text \<open>
  Keys of \<open>Pubkey::new_unique\<close> have 32 bytes, and two of them differ from each other and from the keys of the programs, so
  that a transfer between them names four accounts. Otherwise accounts would be merged and the message would be shorter.
\<close>

definition unique_keys :: "('ix, 'tx) sdk_ops \<Rightarrow> u8 list \<times> u8 list \<Rightarrow> bool" where
  "unique_keys K = (\<lambda>(from, to).
     length from = 32 \<and> length to = 32 \<and> distinct [from, to, system_program_id K, compute_budget_program_id K])"

text \<open>
  What the offsets of this file rely on: for such keys the serialized template has 259 bytes, with the price at
  offset 234 and the blockhash at offset 197, in a buffer of 1232 bytes.
\<close>

definition sdk_laws :: "('ix, 'tx) sdk_ops \<Rightarrow> bool" where
  "sdk_laws K \<longleftrightarrow> (\<forall>from to price lamports hash. unique_keys K (from, to) \<and> length hash = 32 \<longrightarrow> (\<exists>packet.
     packet_from_data K (tx_set_blockhash K hash
       (tx_new_with_payer K [set_compute_unit_price K price, system_transfer K from to lamports])) = Some packet \<and>
     length (packet_buffer packet) = 1232 \<and> meta_size (packet_meta packet) = 259 \<and>
     slice_at 234 8 (packet_buffer packet) = to_le_bytes 8 price \<and>
     slice_at 197 32 (packet_buffer packet) = hash))"

section \<open>Lemmas on patches\<close>

lemma patch_Some:
  assumes "offset + length src \<le> length buf"
  shows "patch offset src buf = Some (overwrite buf offset src)" "length (overwrite buf offset src) = length buf"
  using assms by (auto simp: patch_def overwrite_def)

lemma nth_overwrite:
  assumes "offset + length src \<le> length buf" and "i < length buf"
  shows "overwrite buf offset src ! i = (if offset \<le> i \<and> i < offset + length src then src ! (i - offset) else buf ! i)"
  using assms by (auto simp: overwrite_def nth_append min_def)

lemma slice_at_eqI:
  assumes "offset + n \<le> length buf" and "length src = n" and "\<And>i. i < n \<Longrightarrow> buf ! (offset + i) = src ! i"
  shows "slice_at offset n buf = src"
  using assms by (auto simp: slice_at_def intro: nth_equalityI)

lemma set_last_Some: "buf \<noteq> [] \<Longrightarrow> set_last b buf = Some (buf[length buf - 1 := b])"
  by (cases buf rule: rev_cases) (simp_all add: set_last_def)

lemma patches_eq:
  assumes "length buf = 1232" "length blockhash = 32" "length sig = 64"
  shows "\<exists>buf'. update_compute_unit_price price buf = Some (overwrite buf 234 (to_le_bytes 8 price)) \<and>
    update_blockhash blockhash (overwrite buf 234 (to_le_bytes 8 price)) =
      Some (overwrite (overwrite buf 234 (to_le_bytes 8 price)) 197 blockhash) \<and>
    update_signature_invalid sig (overwrite (overwrite buf 234 (to_le_bytes 8 price)) 197 blockhash) = Some buf' \<and>
    length buf' = 1232 \<and>
    (\<forall>i < 1232. buf' ! i =
      (if 1 \<le> i \<and> i < 65 then sig ! (i - 1)
       else if 197 \<le> i \<and> i < 229 then blockhash ! (i - 197)
       else if 234 \<le> i \<and> i < 242 then to_le_bytes 8 price ! (i - 234) else buf ! i))"
proof -
  let ?b1 = "overwrite buf 234 (to_le_bytes 8 price)"
  let ?b2 = "overwrite ?b1 197 blockhash"
  note p1 = patch_Some [of 234 "to_le_bytes 8 price" buf] and p2 = patch_Some [of 197 blockhash ?b1]
    and p3 = patch_Some [of 1 sig ?b2]
  have "update_compute_unit_price price buf = Some ?b1" "length ?b1 = 1232"
    using p1 assms by (simp_all add: update_compute_unit_price_def tx_offsets)
  moreover from this have "update_blockhash blockhash ?b1 = Some ?b2" "length ?b2 = 1232"
    using p2 assms by (simp_all add: update_blockhash_def tx_offsets)
  moreover from this have "update_signature_invalid sig ?b2 = Some (overwrite ?b2 1 sig)" "length (overwrite ?b2 1 sig) = 1232"
    using p3 assms by (simp_all add: update_signature_invalid_def tx_offsets)
  ultimately show ?thesis using assms by (auto simp: nth_overwrite)
qed


text \<open>What an agent draws, and the size and the last byte it gives to its packet.\<close>

definition next_price :: "('k, 'd) agent_ops \<Rightarrow> ('k, 'd) Ip \<Rightarrow> u64" where
  "next_price A ip = fst (sample_cu_price A (ip_signer ip) (ip_rng ip))"

definition bad_sample :: "('k, 'd) agent_ops \<Rightarrow> ('k, 'd) Ip \<Rightarrow> f64 \<times> FastxxHashRng" where
  "bad_sample A ip = gen_f32 A (snd (sample_cu_price A (ip_signer ip) (ip_rng ip)))"

definition next_agent :: "('k, 'd) agent_ops \<Rightarrow> ('k, 'd) Ip \<Rightarrow> ('k, 'd) Ip" where
  "next_agent A ip = ip\<lparr>ip_rng := if ip_bad ip then snd (bad_sample A ip)
     else snd (sample_cu_price A (ip_signer ip) (ip_rng ip))\<rparr>"

definition marked :: "('k, 'd) agent_ops \<Rightarrow> ('k, 'd) Ip \<Rightarrow> Packet \<Rightarrow> usize \<times> u8" where
  "marked A ip packet =
     (if \<not> ip_bad ip then (259, 0)
      else if fst (bad_sample A ip) < Fin (1 / 4) then (0, 0)
      else if fst (bad_sample A ip) < Fin (5033165 / 2 ^ 24) then (259, 1)
      else (meta_size (packet_meta packet), packet_buffer packet ! 1231))"

lemma thresholds: "SIZE_THRESHOLD = Fin (1 / 4)" "SIG_THRESHOLD = Fin (5033165 / 2 ^ 24)"
  by code_simp+

lemma next_agent_simps [simp]:
  "ip_addr (next_agent A ip) = ip_addr ip" "ip_bad (next_agent A ip) = ip_bad ip" "ip_signer (next_agent A ip) = ip_signer ip"
  by (simp_all add: next_agent_def)

lemma transfer_eq:
  assumes len: "length (packet_buffer packet) = 1232" "length blockhash = 32" "length sig = 64"
  shows "\<exists>buf'. update_transfer_with_priority A blockhash sig ip packet =
      Some (next_agent A ip, packet\<lparr>packet_buffer := buf'[1231 := snd (marked A ip packet)],
        packet_meta := (packet_meta packet)\<lparr>meta_size := fst (marked A ip packet), meta_addr := V4 (ip_addr ip)\<rparr>\<rparr>) \<and>
    length buf' = 1232 \<and>
    (\<forall>i < 1232. buf' ! i =
      (if 1 \<le> i \<and> i < 65 then sig ! (i - 1)
       else if 197 \<le> i \<and> i < 229 then blockhash ! (i - 197)
       else if 234 \<le> i \<and> i < 242 then to_le_bytes 8 (next_price A ip) ! (i - 234) else packet_buffer packet ! i))"
proof -
  obtain price rng where draw: "sample_cu_price A (ip_signer ip) (ip_rng ip) = (price, rng)" by force
  obtain sample rng' where bad: "gen_f32 A rng = (sample, rng')" by force
  let ?b1 = "overwrite (packet_buffer packet) 234 (to_le_bytes 8 price)"
  from patches_eq [OF len, of price] obtain buf' where b:
    "update_compute_unit_price price (packet_buffer packet) = Some ?b1"
    "update_blockhash blockhash ?b1 = Some (overwrite ?b1 197 blockhash)"
    "update_signature_invalid sig (overwrite ?b1 197 blockhash) = Some buf'"
    "length buf' = 1232" and nth: "\<forall>i < 1232. buf' ! i =
      (if 1 \<le> i \<and> i < 65 then sig ! (i - 1)
       else if 197 \<le> i \<and> i < 229 then blockhash ! (i - 197)
       else if 234 \<le> i \<and> i < 242 then to_le_bytes 8 price ! (i - 234) else packet_buffer packet ! i)"
    by blast
  have "buf' \<noteq> []" using b(4) by auto
  then have last: "set_last x buf' = Some (buf'[1231 := x])" for x
    using set_last_Some [of buf' x] b(4) by simp
  have "buf' ! 1231 = packet_buffer packet ! 1231" using nth by simp
  then have same: "buf'[1231 := packet_buffer packet ! 1231] = buf'" by (metis list_update_id)
  have "next_price A ip = price" by (simp add: next_price_def draw)
  with nth b(4) show ?thesis
    by (intro exI [of _ buf'] conjI)
      (simp_all add: update_transfer_with_priority_def draw bad b last same marked_def bad_sample_def next_agent_def
        thresholds PRICE_AND_TRANSFER_TX_TX_LEN_def)
qed

text \<open>
  An agent's update of a packet stays within the buffer and touches nothing but its three fields,
  the marker byte and the metadata: afterwards the price reads back, blockhash and signature are in
  their places, the sender is the agent's address, every other byte is unchanged, and size and
  marker byte are those of its kind. A bad agent that draws at least 0.3 leaves both as the previous
  user of the packet left them. Only the random source of the agent changes.\<close>

lemma transfer_patches_fields:
  assumes "length (packet_buffer packet) = 1232" "length blockhash = 32" "length sig = 64"
  shows "\<exists>packet'. update_transfer_with_priority A blockhash sig ip packet = Some (next_agent A ip, packet') \<and>
    length (packet_buffer packet') = 1232 \<and> read_price packet' = Some (next_price A ip) \<and>
    slice_at 197 32 (packet_buffer packet') = blockhash \<and> slice_at 1 64 (packet_buffer packet') = sig \<and>
    meta_addr (packet_meta packet') = V4 (ip_addr ip) \<and>
    (meta_size (packet_meta packet'), packet_buffer packet' ! 1231) = marked A ip packet \<and>
    (\<forall>i < 1231. (i < 1 \<or> 65 \<le> i) \<and> (i < 197 \<or> 229 \<le> i) \<and> (i < 234 \<or> 242 \<le> i) \<longrightarrow>
      packet_buffer packet' ! i = packet_buffer packet ! i)"
proof -
  from transfer_eq [OF assms] obtain buf' where upd: "update_transfer_with_priority A blockhash sig ip packet =
      Some (next_agent A ip, packet\<lparr>packet_buffer := buf'[1231 := snd (marked A ip packet)],
        packet_meta := (packet_meta packet)\<lparr>meta_size := fst (marked A ip packet), meta_addr := V4 (ip_addr ip)\<rparr>\<rparr>)"
    "length buf' = 1232" and nth: "\<forall>i < 1232. buf' ! i =
      (if 1 \<le> i \<and> i < 65 then sig ! (i - 1)
       else if 197 \<le> i \<and> i < 229 then blockhash ! (i - 197)
       else if 234 \<le> i \<and> i < 242 then to_le_bytes 8 (next_price A ip) ! (i - 234) else packet_buffer packet ! i)"
    by blast
  let ?buf = "buf'[1231 := snd (marked A ip packet)]"
  have "slice_at 234 8 ?buf = to_le_bytes 8 (next_price A ip)" using upd(2) nth by (intro slice_at_eqI) auto
  then have "read_price (packet\<lparr>packet_buffer := ?buf, packet_meta := m\<rparr>) = Some (next_price A ip)" for m
    using upd(2) by (simp add: read_price_def tx_offsets)
  moreover have "slice_at 197 32 ?buf = blockhash" using upd(2) nth assms(2) by (intro slice_at_eqI) auto
  moreover have "slice_at 1 64 ?buf = sig" using upd(2) nth assms(3) by (intro slice_at_eqI) auto
  ultimately show ?thesis using upd nth by auto
qed

lemma next_price_bound: "unat (next_price A ip) \<le> 1000000000"
  by (auto simp: next_price_def sample_cu_price_def price_of_sample_bound split: prod.splits)

section \<open>The template and the patches\<close>

text \<open>The price of the template reads back, and so does an updated price.\<close>

lemma template_price:
  assumes "sdk_laws K" "unique_keys K keys"
  shows "\<exists>packet buf. null_transfer_transaction_with_compute_unit_price K keys = Some packet \<and>
    length (packet_buffer packet) = 1232 \<and> meta_size (packet_meta packet) = PRICE_AND_TRANSFER_TX_TX_LEN \<and>
    read_price packet = Some 115 \<and> update_compute_unit_price price (packet_buffer packet) = Some buf \<and>
    read_price (packet\<lparr>packet_buffer := buf\<rparr>) = Some price"
proof -
  from assms obtain packet where p: "null_transfer_transaction_with_compute_unit_price K keys = Some packet"
    "length (packet_buffer packet) = 1232" "meta_size (packet_meta packet) = 259"
    "slice_at 234 8 (packet_buffer packet) = to_le_bytes 8 (115 :: u64)"
    unfolding sdk_laws_def null_transfer_transaction_with_compute_unit_price_def Let_def
    by (metis length_replicate prod.collapse)
  let ?buf = "overwrite (packet_buffer packet) 234 (to_le_bytes 8 price)"
  have buf: "update_compute_unit_price price (packet_buffer packet) = Some ?buf" "length ?buf = 1232"
    using patch_Some [of 234 "to_le_bytes 8 price" "packet_buffer packet"] p(2)
    by (simp_all add: update_compute_unit_price_def tx_offsets)
  moreover have "slice_at 234 8 ?buf = to_le_bytes 8 price"
    using p(2) buf(2) by (intro slice_at_eqI) (simp_all add: nth_overwrite)
  ultimately show ?thesis using p by (simp add: read_price_def tx_offsets PRICE_AND_TRANSFER_TX_TX_LEN_def)
qed

section \<open>Properties\<close>

text \<open>
  C36. Filling a buffer with random bytes terminates and writes exactly the little-endian bytes of
  successive 64-bit draws, cut at the length of the buffer; \<open>(n + 7) div 8\<close> draws are made.\<close>

theorem fill_bytes_stream:
  "fill_bytes xxh dest rng =
    (take (length dest) (bytes_of_draws (fst (draws xxh ((length dest + 7) div 8) rng))),
     snd (draws xxh ((length dest + 7) div 8) rng))"
  by (simp add: fill_bytes_def fill_loop_eq)

text \<open>
  The 64-bit generator has no guard against a fixed point of the hash, unlike the 32-bit one: once the
  state hashes to itself, every further draw repeats it.\<close>

lemma next_u64_stuck:
  assumes "xxh (to_le_bytes 8 (rng_state rng)) = rng_state rng"
  shows "draws xxh n rng = (replicate n (rng_state rng), rng)"
  using assms by (induction n) (simp_all add: next_u64_def)

text \<open>
  Signing for a new payer: the key is written into the message first and the signature then covers
  the message as it stands in the buffer, so the stored signature is that of the stored message.\<close>

lemma payer_signature_consistent:
  assumes "length buf = 1232" "length (keypair_pubkey A key) = 32" "\<forall>msg. length (sign_message A key msg) = 64"
  shows "\<exists>buf'. update_payer_and_signature A key buf = Some buf' \<and> length buf' = 1232 \<and>
    slice_at 69 32 buf' = keypair_pubkey A key \<and> slice_at 1 64 buf' = sign_message A key (drop 65 buf')"
proof -
  let ?b1 = "overwrite buf 69 (keypair_pubkey A key)"
  let ?b2 = "overwrite ?b1 1 (sign_message A key (drop 65 ?b1))"
  have b1: "patch 69 (keypair_pubkey A key) buf = Some ?b1" "length ?b1 = 1232"
    using patch_Some [of 69 "keypair_pubkey A key" buf] assms by simp_all
  have b2: "patch 1 (sign_message A key (drop 65 ?b1)) ?b1 = Some ?b2" "length ?b2 = 1232"
    using patch_Some [of 1 "sign_message A key (drop 65 ?b1)" ?b1] assms b1(2) by simp_all
  have "drop 65 ?b2 = drop 65 ?b1"
    using b1(2) b2(2) assms by (intro nth_equalityI) (simp_all add: nth_overwrite)
  moreover have "slice_at 1 64 ?b2 = sign_message A key (drop 65 ?b1)"
    using b1(2) b2(2) assms by (intro slice_at_eqI) (simp_all add: nth_overwrite)
  moreover have "slice_at 69 32 ?b2 = keypair_pubkey A key"
    using b1(2) b2(2) assms by (intro slice_at_eqI) (simp_all add: nth_overwrite)
  ultimately show ?thesis using b1(1) b2 by (simp add: update_payer_and_signature_def tx_offsets Let_def)
qed

section \<open>A concrete agent\<close>

text \<open>An instance of the external code: every distribution is its mean, the choice rotates with the state.\<close>

definition demo_agents :: "(u8, f64) agent_ops" where
  "demo_agents =
     \<lparr>ag_hash = (\<lambda>_. 0), lognormal_new = (\<lambda>mean dev. Some mean), lognormal_sample = (\<lambda>mean rng. (mean, rng)),
      gen_f32 = (\<lambda>rng. (Fin 0, rng)),
      choose_index = (\<lambda>n rng. (unat (rng_state rng) mod n, rng\<lparr>rng_state := rng_state rng + 1\<rparr>)),
      keypair_pubkey = (\<lambda>k. replicate 32 k), sign_message = (\<lambda>k msg. replicate 64 (k + of_nat (length msg))),
      f32_ln = (\<lambda>x. x), f32_exp = (\<lambda>x. x)\<rparr>"

lemma payer_signature_consistent_witness:
  "\<exists>buf'. update_payer_and_signature demo_agents 5 (replicate 1232 0) = Some buf' \<and>
     slice_at 69 32 buf' = replicate 32 5"
  using payer_signature_consistent [of "replicate 1232 0" demo_agents 5] by (simp add: demo_agents_def) blast

text \<open>
  An instance of the transaction builder: an instruction is a program, its accounts and its data, and a
  transaction of the two instructions of the template is serialized with the accounts in their order (payer and recipient,
  then the two programs), each once.
\<close>

type_synonym demo_ix = "u8 list \<times> u8 list list \<times> u8 list"

definition demo_accounts :: "demo_ix list \<Rightarrow> u8 list list" where
  "demo_accounts ixs = remdups (concat (map (\<lambda>(_, accounts, _). accounts) ixs) @ rev (map fst ixs))"

definition demo_index :: "u8 list list \<Rightarrow> u8 list \<Rightarrow> u8" where
  "demo_index accounts k = of_nat (length (takeWhile (\<lambda>a. a \<noteq> k) accounts))"

definition demo_ix_bytes :: "u8 list list \<Rightarrow> demo_ix \<Rightarrow> u8 list" where
  "demo_ix_bytes accounts = (\<lambda>(program, accs, data).
     [demo_index accounts program, of_nat (length accs)] @ map (demo_index accounts) accs @ [of_nat (length data)] @ data)"

definition demo_message :: "demo_ix list \<times> u8 list \<Rightarrow> u8 list" where
  "demo_message = (\<lambda>(ixs, hash). let accounts = demo_accounts ixs in
     [1] @ replicate 64 0 @ [1, 0, 2] @ [of_nat (length accounts)] @ concat accounts @ hash @
     [of_nat (length ixs)] @ concat (map (demo_ix_bytes accounts) ixs))"

definition demo_sdk :: "(demo_ix, demo_ix list \<times> u8 list) sdk_ops" where
  "demo_sdk =
     \<lparr>set_compute_unit_price = (\<lambda>price. (replicate 32 3, [], 3 # to_le_bytes 8 price)),
      system_transfer = (\<lambda>from to lamports. (replicate 32 0, [from, to], to_le_bytes 4 (2 :: u32) @ to_le_bytes 8 lamports)),
      tx_new_with_payer = (\<lambda>ixs. (ixs, replicate 32 0)), tx_set_blockhash = (\<lambda>hash (ixs, _). (ixs, hash)),
      packet_from_data = (\<lambda>tx. let bytes = demo_message tx in
        if 1232 < length bytes then None
        else Some \<lparr>packet_buffer = bytes @ replicate (1232 - length bytes) 0,
          packet_meta = \<lparr>meta_size = of_nat (length bytes), meta_addr = V4 (Ipv4Addr 0 0 0 0), meta_port = 0, meta_flags = 0\<rparr>\<rparr>),
      system_program_id = replicate 32 0, compute_budget_program_id = replicate 32 3\<rparr>"

lemma demo_accounts_template:
  assumes "distinct [from, to, system, budget]"
  shows "demo_accounts [(budget, [], d1), (system, [from, to], d2)] = [from, to, system, budget]"
  using assms by (simp add: demo_accounts_def)

lemma demo_message_layout:
  assumes d: "distinct [from, to, system, budget]" "length from = 32" "length to = 32" "length system = 32" "length budget = 32"
    and "length hash = 32" "length d1 = 9" "length d2 = 12"
  shows "\<exists>pre post. demo_message ([(budget, [], d1), (system, [from, to], d2)], hash) =
      pre @ hash @ [2, 3, 0, 9] @ d1 @ post \<and> length pre = 197 \<and> length post = 17"
proof (intro exI conjI)
  let ?pre = "[1] @ replicate 64 0 @ [1, 0, 2] @ [4] @ concat [from, to, system, budget]"
  have acc: "demo_accounts [(budget, [], d1), (system, [from, to], d2)] = [from, to, system, budget]"
    by (rule demo_accounts_template [OF d(1)])
  have ix: "demo_ix_bytes [from, to, system, budget] (budget, [], d1) = [3, 0, 9] @ d1"
    "demo_ix_bytes [from, to, system, budget] (system, [from, to], d2) = [2, 2, 0, 1, 12] @ d2"
    using d assms(7,8) by (auto simp: demo_ix_bytes_def demo_index_def)
  show "demo_message ([(budget, [], d1), (system, [from, to], d2)], hash) = ?pre @ hash @ [2, 3, 0, 9] @ d1 @ [2, 2, 0, 1, 12] @ d2"
    unfolding demo_message_def prod.case Let_def acc list.map ix by simp
qed (use assms in simp_all)

lemma demo_sdk_laws: "sdk_laws demo_sdk"
proof -
  have "\<exists>packet. packet_from_data demo_sdk (tx_set_blockhash demo_sdk hash
       (tx_new_with_payer demo_sdk [set_compute_unit_price demo_sdk price, system_transfer demo_sdk payer to lamports])) = Some packet \<and>
     length (packet_buffer packet) = 1232 \<and> meta_size (packet_meta packet) = 259 \<and>
     slice_at 234 8 (packet_buffer packet) = to_le_bytes 8 price \<and> slice_at 197 32 (packet_buffer packet) = hash"
    if u: "unique_keys demo_sdk (payer, to)" and h: "length hash = 32" for payer to hash and price lamports :: u64
  proof -
    let ?s = "replicate 32 0 :: u8 list" and ?b = "replicate 32 3 :: u8 list"
      and ?d1 = "3 # to_le_bytes 8 price" and ?d2 = "to_le_bytes 4 (2 :: u32) @ to_le_bytes 8 lamports"
    have k: "distinct [payer, to, ?s, ?b]" "length payer = 32" "length to = 32"
      using u by (simp_all add: unique_keys_def demo_sdk_def)
    obtain pre post where m: "demo_message ([(?b, [], ?d1), (?s, [payer, to], ?d2)], hash) = pre @ hash @ [2, 3, 0, 9] @ ?d1 @ post"
      and l: "length pre = 197" "length post = 17"
      using demo_message_layout [OF k(1,2,3) _ _ h, of ?d1 ?d2] by auto
    let ?bytes = "pre @ hash @ [2, 3, 0, 9] @ ?d1 @ post"
    have len: "length ?bytes = 259" using l h by simp
    have "packet_from_data demo_sdk (tx_set_blockhash demo_sdk hash
       (tx_new_with_payer demo_sdk [set_compute_unit_price demo_sdk price, system_transfer demo_sdk payer to lamports])) =
       Some \<lparr>packet_buffer = ?bytes @ replicate 973 0,
          packet_meta = \<lparr>meta_size = 259, meta_addr = V4 (Ipv4Addr 0 0 0 0), meta_port = 0, meta_flags = 0\<rparr>\<rparr>"
      by (simp only: demo_sdk_def sdk_ops.simps prod.case m len Let_def) simp
    then show ?thesis using l h by (simp add: slice_at_def)
  qed
  then show ?thesis unfolding sdk_laws_def by blast
qed

definition demo_keys :: "u8 list \<times> u8 list" where
  "demo_keys = (replicate 32 1, replicate 32 2)"

lemma demo_keys: "unique_keys demo_sdk demo_keys"
  by (simp add: unique_keys_def demo_keys_def demo_sdk_def)

end
