(* ===== verification/Packet_Recording.thy ===== *)
theory Packet_Recording
  imports Text_Format Traffic_Agents
begin

text \<open>
  Recording of packets as text, one line \<open>price address\<close> per packet (the generator threads of
  engine/src/lib.rs and the mock validator of engine-ipc/src/main.rs), and the offline analysis that
  reads the recordings back (packet-analysis/src/main.rs).

  Files are their contents; the writes to them are taken to succeed. Printing an IPv6 address, which
  no recorded packet has, is the parameter \<open>show_v6\<close>.
\<close>

section \<open>Recording\<close>

fun show_ip :: "(u16 list \<Rightarrow> string) \<Rightarrow> IpAddr \<Rightarrow> string" where
  "show_ip show_v6 (V4 ip) = show_ipv4 ip"
| "show_ip show_v6 (V6 segments) = show_v6 segments"

definition record_line :: "(u16 list \<Rightarrow> string) \<Rightarrow> u64 \<Rightarrow> IpAddr \<Rightarrow> string" where
  "record_line show_v6 price addr = decimal (unat price) @ '' '' @ show_ip show_v6 addr @ [newline]"

definition RECORD_LIMIT :: nat where "RECORD_LIMIT = 4000000"

text \<open>A buffered file: what was written to it, and what an explicit flush has brought to the disk.\<close>

record recorder =
  rec_written :: string
  rec_flushed :: string

definition recorder_new :: recorder where
  "recorder_new = \<lparr>rec_written = [], rec_flushed = []\<rparr>"

text \<open>Packet number \<open>i\<close>; \<open>None\<close> is a read of the price beyond the buffer.\<close>

definition record_packet :: "(u16 list \<Rightarrow> string) \<Rightarrow> bool \<Rightarrow> nat \<Rightarrow> Packet \<Rightarrow> recorder \<Rightarrow> recorder option" where
  "record_packet show_v6 write_to_file i packet r =
     (if write_to_file \<and> i < RECORD_LIMIT then do {
        price \<leftarrow> read_price packet;
        let addr = meta_addr (packet_meta packet);
        let r = r\<lparr>rec_written := rec_written r @ record_line show_v6 price addr\<rparr>;
        Some (if i = RECORD_LIMIT - 1 then r\<lparr>rec_flushed := rec_written r\<rparr> else r)
      } else Some r)"

section \<open>Analysis\<close>

text \<open>\<open>find_matching_files\<close>; \<open>entries\<close> are the names in the directory, \<open>None\<close> if it cannot be read.\<close>

definition find_matching_files :: "string \<Rightarrow> string list option \<Rightarrow> string \<Rightarrow> string list" where
  "find_matching_files directory entries pattern =
     (case entries of
        None \<Rightarrow> []
      | Some names \<Rightarrow> map (\<lambda>name. directory @ ''/'' @ name) (filter (str_contains pattern) names))"

definition parse_line :: "string \<Rightarrow> (string \<times> u64) option" where
  "parse_line line =
     (case split_whitespace line of
        [number_str, ip] \<Rightarrow> map_option (Pair ip) (parse_u64 number_str)
      | _ \<Rightarrow> None)"

definition add_value :: "string \<times> u64 \<Rightarrow> (string \<rightharpoonup> u64 list) \<Rightarrow> (string \<rightharpoonup> u64 list)" where
  "add_value = (\<lambda>(ip, number) results.
     results(ip \<mapsto> (case results ip of None \<Rightarrow> [number] | Some vs \<Rightarrow> vs @ [number])))"

definition add_line :: "string \<Rightarrow> (string \<rightharpoonup> u64 list) \<Rightarrow> (string \<rightharpoonup> u64 list)" where
  "add_line line results = (case parse_line line of None \<Rightarrow> results | Some e \<Rightarrow> add_value e results)"

definition add_file :: "string option \<Rightarrow> (string \<rightharpoonup> u64 list) \<Rightarrow> (string \<rightharpoonup> u64 list)" where
  "add_file content results = (case content of None \<Rightarrow> results | Some text \<Rightarrow> fold add_line (lines_of text) results)"

text \<open>The argument lists the contents of the files, \<open>None\<close> for one that cannot be opened.\<close>

definition ip_values :: "string option list \<Rightarrow> (string \<rightharpoonup> u64 list)" where
  "ip_values files = fold add_file files Map.empty"

text \<open>
  The archive writer is external: \<open>npz_new\<close> creates a file and a writer for it, \<open>npz_add\<close> stores a named array;
  \<open>None\<close> is a failure, on which the program panics.
\<close>

record 'z npz_ops =
  npz_new :: "string \<Rightarrow> 'z option"
  npz_add :: "string \<Rightarrow> u64 list \<Rightarrow> 'z \<Rightarrow> 'z option"

fun add_arrays :: "'z npz_ops \<Rightarrow> (string \<times> u64 list) list \<Rightarrow> 'z \<Rightarrow> 'z option" where
  "add_arrays Z [] npz = Some npz"
| "add_arrays Z ((ip, values) # results) npz = do {
     npz \<leftarrow> npz_add Z ip values npz;
     add_arrays Z results npz
   }"

text \<open>\<open>order\<close> lists the entries of a hash map in the order in which it enumerates them.\<close>

definition write_to_npz :: "'z npz_ops \<Rightarrow> ((string \<rightharpoonup> u64 list) \<Rightarrow> (string \<times> u64 list) list)
    \<Rightarrow> (string \<rightharpoonup> u64 list) \<Rightarrow> string \<Rightarrow> 'z option" where
  "write_to_npz Z order results output_path = do {
     npz \<leftarrow> npz_new Z output_path;
     add_arrays Z (order results) npz
   }"

text \<open>\<open>main\<close>: the result files with what they hold. \<open>fs\<close> reads a file, \<open>entries\<close> are the names in the data directory.\<close>

fun analysis_loop :: "'z npz_ops \<Rightarrow> ((string \<rightharpoonup> u64 list) \<Rightarrow> (string \<times> u64 list) list) \<Rightarrow> (string \<Rightarrow> string option)
    \<Rightarrow> string list option \<Rightarrow> (string \<times> string) list \<Rightarrow> (string \<times> 'z) list option" where
  "analysis_loop Z order fs entries [] = Some []"
| "analysis_loop Z order fs entries ((pattern, name) # rest) = do {
     let files = find_matching_files ''packet-data'' entries pattern;
     let result = ip_values (map fs files);
     npz \<leftarrow> write_to_npz Z order result (name @ ''.npz'');
     archives \<leftarrow> analysis_loop Z order fs entries rest;
     Some ((name @ ''.npz'', npz) # archives)
   }"

definition analysis_main :: "'z npz_ops \<Rightarrow> ((string \<rightharpoonup> u64 list) \<Rightarrow> (string \<times> u64 list) list) \<Rightarrow> (string \<Rightarrow> string option)
    \<Rightarrow> string list option \<Rightarrow> (string \<times> 'z) list option" where
  "analysis_main Z order fs entries = analysis_loop Z order fs entries [(''_qos'', ''input''), (''sigverify'', ''output'')]"

section \<open>Reading back what was recorded\<close>

type_synonym observation = "Ipv4Addr \<times> u64"

definition recording :: "(u16 list \<Rightarrow> string) \<Rightarrow> observation list \<Rightarrow> string" where
  "recording show_v6 obs = concat (map (\<lambda>(ip, price). record_line show_v6 price (V4 ip)) obs)"

text \<open>The specification: the values of one address in the order of their observation.\<close>

definition values_for :: "('k \<times> 'v) list \<Rightarrow> 'k \<rightharpoonup> 'v list" where
  "values_for es k = (let vs = map snd (filter (\<lambda>e. fst e = k) es) in if vs = [] then None else Some vs)"

lemma values_for_simps [simp]:
  "values_for [] = Map.empty"
  "values_for (es @ [(k, v)]) =
     (values_for es)(k \<mapsto> (case values_for es k of None \<Rightarrow> [v] | Some vs \<Rightarrow> vs @ [v]))"
  by (auto simp: values_for_def fun_eq_iff Let_def)

lemma fold_add_values: "fold add_value es Map.empty = values_for es"
  by (induction es rule: rev_induct) (auto simp: add_value_def)

lemma values_for_map_key:
  assumes "inj f"
  shows "values_for (map (\<lambda>(k, v). (f k, v)) es) (f k) = values_for es k"
proof -
  have "map snd (filter (\<lambda>e. fst e = f k) (map (\<lambda>(k, v). (f k, v)) es)) = map snd (filter (\<lambda>e. fst e = k) es)"
    using assms by (induction es) (auto simp: inj_eq)
  then show ?thesis by (simp only: values_for_def)
qed

lemma show_ipv4_inj: "inj show_ipv4"
  by (rule injI) (rule show_ipv4_inject)

lemma decimal_no_space: "list_all (\<lambda>c. \<not> is_space c) (decimal n)"
  using decimal_digits [of n] digit_not_space by (auto simp: list_all_iff)

lemma no_space_no_newline: "list_all (\<lambda>c. \<not> is_space c) s \<Longrightarrow> newline \<notin> set s \<and> CHR 0x0D \<notin> set s"
proof -
  have "is_space newline" "is_space (CHR 0x0D)" by (simp_all add: is_space_def newline_def)
  then show "list_all (\<lambda>c. \<not> is_space c) s \<Longrightarrow> ?thesis" unfolding list_all_iff by metis
qed

lemma parse_record:
  "parse_line (decimal (unat price) @ '' '' @ show_ipv4 ip) = Some (show_ipv4 ip, price)"
proof -
  have "split_whitespace (decimal (unat price) @ '' '' @ show_ipv4 ip) = [decimal (unat price), show_ipv4 ip]"
    using decimal_no_space decimal_digits show_ipv4_no_space by (intro split_two_words) auto
  then show ?thesis by (simp add: parse_line_def parse_u64_shown)
qed

lemma recording_lines:
  "lines_of (recording show_v6 obs) = map (\<lambda>(ip, price). decimal (unat price) @ '' '' @ show_ipv4 ip) obs"
proof -
  let ?l = "\<lambda>(ip, price). decimal (unat price) @ '' '' @ show_ipv4 ip"
  have "recording show_v6 obs = concat (map (\<lambda>l. l @ [newline]) (map ?l obs))"
    by (auto simp: recording_def record_line_def comp_def intro!: arg_cong [of _ _ concat])
  moreover have "\<forall>l \<in> set (map ?l obs). newline \<notin> set l \<and> CHR 0x0D \<notin> set l"
    using no_space_no_newline [OF decimal_no_space] no_space_no_newline [OF show_ipv4_no_space [THEN conjunct1]]
    by (auto simp: newline_def)
  ultimately show ?thesis by (simp only: lines_of_concat)
qed

text \<open>
  In general the analysis collects the well-formed lines of the readable files: exactly two words, the
  first of them a number below \<open>2^64\<close>. All other lines are skipped.
\<close>

definition file_entries :: "string option \<Rightarrow> (string \<times> u64) list" where
  "file_entries content = (case content of None \<Rightarrow> [] | Some text \<Rightarrow> List.map_filter parse_line (lines_of text))"

lemma fold_add_lines: "fold add_line ls results = fold add_value (List.map_filter parse_line ls) results"
  by (induction ls arbitrary: results) (auto simp: add_line_def List.map_filter_def split: option.splits)

lemma ip_values_entries: "ip_values files = values_for (concat (map file_entries files))"
proof -
  have "fold add_file files m = fold add_value (concat (map file_entries files)) m" for m
    by (induction files arbitrary: m) (auto simp: add_file_def file_entries_def fold_add_lines split: option.splits)
  then show ?thesis by (simp add: ip_values_def fold_add_values)
qed

lemma file_entries_recording:
  "file_entries (Some (recording show_v6 obs)) = map (\<lambda>(ip, price). (show_ipv4 ip, price)) obs"
  unfolding file_entries_def option.case recording_lines
  by (induction obs) (auto simp: List.map_filter_def parse_record [simplified])

lemma ip_values_recordings:
  "ip_values (map (\<lambda>obs. Some (recording show_v6 obs)) files) =
     values_for (map (\<lambda>(ip, price). (show_ipv4 ip, price)) (concat files))"
  unfolding ip_values_entries map_map comp_def file_entries_recording map_concat ..

section \<open>Writing the archive\<close>

text \<open>What the program relies on: the enumeration of a hash map lists its entries once, and the writer stores arrays under their names.\<close>

definition npz_laws :: "('z \<Rightarrow> (string \<rightharpoonup> u64 list)) \<Rightarrow> ((string \<rightharpoonup> u64 list) \<Rightarrow> (string \<times> u64 list) list) \<Rightarrow> 'z npz_ops \<Rightarrow> bool" where
  "npz_laws contents order Z \<longleftrightarrow>
     (\<forall>path. \<exists>npz. npz_new Z path = Some npz \<and> contents npz = Map.empty) \<and>
     (\<forall>name values npz. \<exists>npz'. npz_add Z name values npz = Some npz' \<and> contents npz' = (contents npz)(name \<mapsto> values)) \<and>
     (\<forall>m. finite (dom m) \<longrightarrow> distinct (map fst (order m)) \<and> map_of (order m) = m)"

lemma add_arrays_contents:
  assumes "npz_laws contents order Z" and "distinct (map fst es)"
  shows "\<exists>npz'. add_arrays Z es npz = Some npz' \<and> contents npz' = contents npz ++ map_of es"
  using assms(2)
proof (induction es arbitrary: npz)
  case (Cons e es)
  obtain k v where e: "e = (k, v)" by force
  obtain npz1 where 1: "npz_add Z k v npz = Some npz1" "contents npz1 = (contents npz)(k \<mapsto> v)"
    using assms(1) unfolding npz_laws_def by blast
  from Cons.IH [of npz1] Cons.prems obtain npz2 where
    2: "add_arrays Z es npz1 = Some npz2" "contents npz2 = contents npz1 ++ map_of es" by auto
  have eq: "(contents npz)(k \<mapsto> v) ++ map_of es = contents npz ++ map_of (e # es)"
    using Cons.prems by (force simp: e fun_eq_iff map_add_def dest!: map_of_SomeD split: option.splits)
  have "add_arrays Z (e # es) npz = Some npz2" using 1(1) 2(1) by (simp add: e)
  with 1(2) 2(2) eq show ?case by metis
qed simp

lemma ip_values_finite: "finite (dom (ip_values files))"
proof -
  have "dom (values_for es) \<subseteq> fst ` set es" for es :: "(string \<times> u64) list"
    by (auto simp: values_for_def Let_def filter_empty_conv split: if_splits)
  then show ?thesis unfolding ip_values_entries using finite_subset by blast
qed

lemma write_to_npz_contents:
  assumes "npz_laws contents order Z"
  shows "\<exists>npz. write_to_npz Z order (ip_values files) path = Some npz \<and> contents npz = ip_values files"
proof -
  obtain npz where 1: "npz_new Z path = Some npz" "contents npz = Map.empty"
    using assms unfolding npz_laws_def by blast
  have 2: "distinct (map fst (order (ip_values files)))" "map_of (order (ip_values files)) = ip_values files"
    using assms ip_values_finite by (auto simp: npz_laws_def)
  from add_arrays_contents [OF assms 2(1), of npz] 1 2(2) show ?thesis by (auto simp: write_to_npz_def)
qed

section \<open>Recordings\<close>

text \<open>
  Reading recordings back: from any number of recorded files the analysis recovers, for every
  address, exactly the prices recorded for it, in order, and it invents no address.\<close>

lemma recordings_recovered:
  "ip_values (map (\<lambda>obs. Some (recording show_v6 obs)) files) (show_ipv4 ip) = values_for (concat files) ip \<and>
   (k \<notin> show_ipv4 ` fst ` set (concat files) \<longrightarrow>
     ip_values (map (\<lambda>obs. Some (recording show_v6 obs)) files) k = None)"
proof
  show "ip_values (map (\<lambda>obs. Some (recording show_v6 obs)) files) (show_ipv4 ip) = values_for (concat files) ip"
    unfolding ip_values_recordings by (rule values_for_map_key [OF show_ipv4_inj])
  have "values_for (map (\<lambda>(ip, price). (show_ipv4 ip, price)) es) k = None" if "k \<notin> show_ipv4 ` fst ` set es"
    for es :: "observation list"
    using that by (induction es) (auto simp: values_for_def Let_def)
  then show "k \<notin> show_ipv4 ` fst ` set (concat files) \<longrightarrow>
      ip_values (map (\<lambda>obs. Some (recording show_v6 obs)) files) k = None"
    unfolding ip_values_recordings by blast
qed

lemma recordings_recovered_witness:
  "ip_values [Some (recording (\<lambda>_. []) [(Ipv4Addr 1 1 1 1, 7), (Ipv4Addr 2 2 2 2, 9), (Ipv4Addr 1 1 1 1, 8)])] ''1.1.1.1'' =
     Some [7, 8] \<and>
   ip_values [Some (recording (\<lambda>_. []) [(Ipv4Addr 1 1 1 1, 7)])] ''9.9.9.9'' = None"
proof -
  have show1: "show_ipv4 (Ipv4Addr 1 1 1 1) = ''1.1.1.1''" by code_simp
  show ?thesis
    using recordings_recovered [of "\<lambda>_. []" "[[(Ipv4Addr 1 1 1 1, 7), (Ipv4Addr 2 2 2 2, 9), (Ipv4Addr 1 1 1 1, 8)]]"
        "Ipv4Addr 1 1 1 1" "''x''"]
      recordings_recovered [of "\<lambda>_. []" "[[(Ipv4Addr 1 1 1 1, 7)]]" "Ipv4Addr 1 1 1 1" "''9.9.9.9''"]
    by (simp add: values_for_def show1 del: show_ipv4.simps)
qed

end
