(* ===== verification/Packet_Generator.thy ===== *)
theory Packet_Generator
  imports Packet_Recording Banking
begin

text \<open>
  The generator threads (\<open>initialize_generator_threads\<close> of engine/src/lib.rs): every turn lets one of three
  agents patch the packet of the thread, records it as text on request, and sends it twice.

  The fresh blockhash and signature bytes of a turn are its inputs; all other random choices come from the
  sources of the thread and of its agents. \<open>None\<close> is a panic or a write beyond the buffer.
\<close>

section \<open>One thread\<close>

text \<open>The agents of a thread; the arguments are their fresh seeds and key pairs.\<close>

definition generator_ips :: "('k, 'd) agent_ops \<Rightarrow> (u64 \<times> 'k) \<times> (u64 \<times> 'k) \<times> (u64 \<times> 'k) \<Rightarrow> ('k, 'd) Ip list option" where
  "generator_ips A = (\<lambda>(fresh1, fresh2, fresh3). do {
     ip1 \<leftarrow> ip_new A fresh1 (Ipv4Addr 1 1 1 1) (f32_ln A (Fin 400000)) (Fin 2);
     ip2 \<leftarrow> ip_new A fresh2 (Ipv4Addr 2 2 2 2) (f32_ln A (Fin 100000)) (Fin 2);
     ip3 \<leftarrow> ip_new_bad A fresh3 (Ipv4Addr 7 7 7 7) (f32_ln A (Fin 100000)) (Fin 2);
     Some [ip1, ip2, ip3]
   })"

definition generator_file :: "string \<Rightarrow> nat \<Rightarrow> string" where
  "generator_file name thread = name @ decimal thread"

record gen_draw =
  draw_blockhash :: "u8 list"
  draw_signature :: "u8 list"

record ('k, 'd, 'q) generator =
  gen_ips :: "('k, 'd) Ip list"
  gen_rng :: FastxxHashRng
  gen_packet :: Packet
  gen_file :: recorder
  gen_producer :: 'q

text \<open>What a thread sets up before its loop.\<close>

definition generator_start :: "('k, 'd) agent_ops \<Rightarrow> Packet option \<Rightarrow> nat \<Rightarrow> (u64 \<times> 'k) \<times> (u64 \<times> 'k) \<times> (u64 \<times> 'k) \<Rightarrow> 'q
    \<Rightarrow> ('k, 'd, 'q) generator option" where
  "generator_start A template thread fresh producer = do {
     ips \<leftarrow> generator_ips A fresh;
     let rng = rng_new (ag_hash A) (0x123123 + of_nat thread);
     packet \<leftarrow> template;
     Some \<lparr>gen_ips = ips, gen_rng = rng, gen_packet = packet, gen_file = recorder_new, gen_producer = producer\<rparr>
   }"

definition generator_step :: "('k, 'd) agent_ops \<Rightarrow> 'q producer_ops \<Rightarrow> (u16 list \<Rightarrow> string) \<Rightarrow> bool \<Rightarrow> nat \<Rightarrow> gen_draw
    \<Rightarrow> ('k, 'd, 'q) generator \<Rightarrow> ('k, 'd, 'q) generator option" where
  "generator_step A P show_v6 write_to_file i d g =
     (let (k, rng) = choose_index A (length (gen_ips g)) (gen_rng g)
      in if length (gen_ips g) \<le> k then None
         else do {
           (ip, packet) \<leftarrow> update_transfer_with_priority A (draw_blockhash d) (draw_signature d) (gen_ips g ! k) (gen_packet g);
           file \<leftarrow> record_packet show_v6 write_to_file i packet (gen_file g);
           let producer = p_push P packet (gen_producer g);
           let producer = p_push P packet producer;
           Some \<lparr>gen_ips = (gen_ips g)[k := ip], gen_rng = rng, gen_packet = packet, gen_file = file,
             gen_producer = producer\<rparr>
         })"

fun generator_run :: "('k, 'd) agent_ops \<Rightarrow> 'q producer_ops \<Rightarrow> (u16 list \<Rightarrow> string) \<Rightarrow> bool \<Rightarrow> nat \<Rightarrow> gen_draw list
    \<Rightarrow> ('k, 'd, 'q) generator \<Rightarrow> ('k, 'd, 'q) generator option" where
  "generator_run A P show_v6 write_to_file i [] g = Some g"
| "generator_run A P show_v6 write_to_file i (d # ds) g = do {
     g \<leftarrow> generator_step A P show_v6 write_to_file i d g;
     generator_run A P show_v6 write_to_file (Suc i) ds g
   }"

section \<open>What a run sends and records\<close>

definition draw_ok :: "gen_draw \<Rightarrow> bool" where
  "draw_ok d \<longleftrightarrow> length (draw_blockhash d) = 32 \<and> length (draw_signature d) = 64"

text \<open>What is relied on: \<open>choose_mut\<close> picks an element of the slice.\<close>

definition choice_law :: "('k, 'd) agent_ops \<Rightarrow> bool" where
  "choice_law A \<longleftrightarrow> (\<forall>n rng. 0 < n \<longrightarrow> fst (choose_index A n rng) < n)"

text \<open>Addresses and prices of the next \<open>n\<close> packets, which the random sources determine.\<close>

fun observations :: "('k, 'd) agent_ops \<Rightarrow> nat \<Rightarrow> ('k, 'd) Ip list \<Rightarrow> FastxxHashRng \<Rightarrow> observation list" where
  "observations A 0 ips rng = []"
| "observations A (Suc n) ips rng =
     (case choose_index A (length ips) rng of (k, rng) \<Rightarrow>
        (ip_addr (ips ! k), next_price A (ips ! k)) # observations A n (ips[k := next_agent A (ips ! k)]) rng)"

abbreviation sent_observations :: "('k, 'd) agent_ops \<Rightarrow> nat \<Rightarrow> ('k, 'd, 'q) generator \<Rightarrow> observation list" where
  "sent_observations A n g \<equiv> observations A n (gen_ips g) (gen_rng g)"

text \<open>Address and kind of the agents, and the packets they make: only a bad agent marks a packet.\<close>

definition kinds :: "('k, 'd) Ip list \<Rightarrow> (Ipv4Addr \<times> bool) list" where
  "kinds ips = map (\<lambda>ip. (ip_addr ip, ip_bad ip)) ips"

definition agent_packet :: "(Ipv4Addr \<times> bool) list \<Rightarrow> Packet \<Rightarrow> bool" where
  "agent_packet ks packet \<longleftrightarrow> length (packet_buffer packet) = 1232 \<and> (\<exists>(addr, bad) \<in> set ks. meta_addr (packet_meta packet) = V4 addr \<and>
     (bad \<or> meta_size (packet_meta packet) = 259 \<and> last (packet_buffer packet) = 0))"

definition gen_ready :: "('k, 'd, 'q) generator \<Rightarrow> bool" where
  "gen_ready g \<longleftrightarrow> gen_ips g \<noteq> [] \<and> length (packet_buffer (gen_packet g)) = 1232"

text \<open>A packet that shows an address and a price.\<close>

definition exhibits :: "Packet \<Rightarrow> observation \<Rightarrow> bool" where
  "exhibits packet ob \<longleftrightarrow> length (packet_buffer packet) = 1232 \<and> read_price packet = Some (snd ob) \<and>
     meta_addr (packet_meta packet) = V4 (fst ob)"

lemma recording_simps [simp]:
  "recording show_v6 [] = []"
  "recording show_v6 ((ip, price) # obs) = record_line show_v6 price (V4 ip) @ recording show_v6 obs"
  "recording show_v6 (obs @ obs') = recording show_v6 obs @ recording show_v6 obs'"
  by (simp_all add: recording_def)

text \<open>The recorder after packets that show the given draws.\<close>

definition recorded :: "(u16 list \<Rightarrow> string) \<Rightarrow> bool \<Rightarrow> nat \<Rightarrow> observation list \<Rightarrow> recorder \<Rightarrow> recorder" where
  "recorded show_v6 on i obs r =
     (let w = rec_written r @ (if on then recording show_v6 (take (RECORD_LIMIT - i) obs) else [])
      in \<lparr>rec_written = w,
          rec_flushed = if on \<and> i < RECORD_LIMIT \<and> RECORD_LIMIT \<le> i + length obs then w else rec_flushed r\<rparr>)"

lemma record_packet_exhibits:
  assumes "exhibits packet ob"
  shows "record_packet show_v6 on i packet r = Some (recorded show_v6 on i [ob] r)"
proof (cases "on \<and> i < RECORD_LIMIT")
  case True
  then have "take (RECORD_LIMIT - i) [ob] = [ob]" by (cases "RECORD_LIMIT - i") auto
  moreover have "RECORD_LIMIT \<le> i + 1 \<longleftrightarrow> i = RECORD_LIMIT - 1" using True by auto
  ultimately show ?thesis
    using True assms by (cases ob) (auto simp: record_packet_def recorded_def exhibits_def Let_def)
qed (auto simp: record_packet_def recorded_def)

lemma generator_step_ok:
  assumes A: "choice_law A" and g: "gen_ready g" and d: "draw_ok d"
  obtains packet g' where "exhibits packet (hd (sent_observations A 1 g))"
    "generator_step A P shv on i d g = Some g'" "gen_ready g'"
    "sent_observations A (Suc n) g = hd (sent_observations A 1 g) # sent_observations A n g'"
    "gen_file g' = recorded shv on i [hd (sent_observations A 1 g)] (gen_file g)"
    "gen_producer g' = fold (p_push P) [packet, packet] (gen_producer g)"
    "agent_packet (kinds (gen_ips g)) packet" "kinds (gen_ips g') = kinds (gen_ips g)"
proof -
  obtain k rng where k: "choose_index A (length (gen_ips g)) (gen_rng g) = (k, rng)" by force
  have lt: "k < length (gen_ips g)" using A g k by (auto simp: choice_law_def gen_ready_def) (metis fst_conv length_greater_0_conv)
  let ?ip = "gen_ips g ! k" and ?ob = "hd (sent_observations A 1 g)"
  have ob: "?ob = (ip_addr ?ip, next_price A ?ip)" by (simp add: k)
  from transfer_patches_fields [of "gen_packet g" "draw_blockhash d" "draw_signature d" A ?ip] g d
  obtain packet where p: "update_transfer_with_priority A (draw_blockhash d) (draw_signature d) ?ip (gen_packet g) =
      Some (next_agent A ?ip, packet)" "exhibits packet (ip_addr ?ip, next_price A ?ip)"
    and mark: "(meta_size (packet_meta packet), packet_buffer packet ! 1231) = marked A ?ip (gen_packet g)"
    by (auto simp: draw_ok_def gen_ready_def exhibits_def)
  note p = p(1) p(2) [folded ob] p(2)
  have "last (packet_buffer packet) = packet_buffer packet ! 1231"
    using p(3) by (subst last_conv_nth) (auto simp: exhibits_def)
  with mark p(3) have "agent_packet (kinds [?ip]) packet"
    by (auto simp: agent_packet_def kinds_def exhibits_def marked_def split: if_splits)
  then have agent: "agent_packet (kinds (gen_ips g)) packet" using lt by (force simp: agent_packet_def kinds_def)
  let ?g = "\<lparr>gen_ips = (gen_ips g)[k := next_agent A ?ip], gen_rng = rng, gen_packet = packet,
    gen_file = recorded shv on i [?ob] (gen_file g), gen_producer = fold (p_push P) [packet, packet] (gen_producer g)\<rparr>"
  have "generator_step A P shv on i d g = Some ?g"
    using p(1) record_packet_exhibits [OF p(2), of shv on i "gen_file g"] lt by (simp add: generator_step_def k)
  moreover have "gen_ready ?g" using p(2) g by (simp add: gen_ready_def exhibits_def)
  moreover have "sent_observations A (Suc n) g = ?ob # sent_observations A n ?g" by (simp add: k)
  moreover have "kinds (gen_ips ?g) = kinds (gen_ips g)" using lt by (simp add: kinds_def map_update list_update_same_conv)
  ultimately show ?thesis using p(2) agent by (intro that [of packet ?g]) simp_all
qed

lemma recorded_Cons:
  "recorded show_v6 on (Suc i) obs (recorded show_v6 on i [ob] r) = recorded show_v6 on i (ob # obs) r"
proof (cases "on \<and> i < RECORD_LIMIT")
  case True
  then obtain n where n: "RECORD_LIMIT - i = Suc n" "RECORD_LIMIT - Suc i = n" by (cases "RECORD_LIMIT - i") auto
  then show ?thesis using True by (cases ob) (auto simp: recorded_def Let_def)
qed (auto simp: recorded_def)

lemma generator_run_ok:
  assumes A: "choice_law A" and "gen_ready g" "\<forall>d \<in> set ds. draw_ok d"
  shows "\<exists>g' packets. generator_run A P show_v6 on i ds g = Some g' \<and>
    list_all2 exhibits packets (sent_observations A (length ds) g) \<and>
    gen_producer g' = fold (p_push P) (concat (map (\<lambda>p. [p, p]) packets)) (gen_producer g) \<and>
    gen_file g' = recorded show_v6 on i (sent_observations A (length ds) g) (gen_file g) \<and>
    (\<forall>p \<in> set packets. agent_packet (kinds (gen_ips g)) p)"
  using assms(2,3)
proof (induction ds arbitrary: i g)
  case Nil
  have "recorded show_v6 on i [] r = r" for r by (cases r) (auto simp: recorded_def Let_def)
  then show ?case by simp
next
  case (Cons d ds)
  let ?ob = "hd (sent_observations A 1 g)"
  have "draw_ok d" using Cons.prems(2) by simp
  with A Cons.prems(1) obtain packet g1 where step: "exhibits packet ?ob" "generator_step A P show_v6 on i d g = Some g1"
    "gen_ready g1" "sent_observations A (Suc (length ds)) g = ?ob # sent_observations A (length ds) g1"
    "gen_file g1 = recorded show_v6 on i [?ob] (gen_file g)"
    "gen_producer g1 = fold (p_push P) [packet, packet] (gen_producer g)"
    "agent_packet (kinds (gen_ips g)) packet" "kinds (gen_ips g1) = kinds (gen_ips g)"
    by (rule generator_step_ok [where P = P and shv = show_v6 and on = on and i = i and n = "length ds"])
  from Cons.IH [OF step(3), of "Suc i"] Cons.prems(2) obtain g' packets where
    run: "generator_run A P show_v6 on (Suc i) ds g1 = Some g'" "list_all2 exhibits packets (sent_observations A (length ds) g1)"
    "gen_producer g' = fold (p_push P) (concat (map (\<lambda>p. [p, p]) packets)) (gen_producer g1)"
    "gen_file g' = recorded show_v6 on (Suc i) (sent_observations A (length ds) g1) (gen_file g1)"
    "\<forall>p \<in> set packets. agent_packet (kinds (gen_ips g1)) p"
    by auto
  have "generator_run A P show_v6 on i (d # ds) g = Some g'" using step(2) run(1) by simp
  moreover have "list_all2 exhibits (packet # packets) (sent_observations A (length (d # ds)) g)"
    using step(1,4) run(2) by (simp del: observations.simps)
  moreover have "gen_producer g' = fold (p_push P) (concat (map (\<lambda>p. [p, p]) (packet # packets))) (gen_producer g)"
    using run(3) step(6) by simp
  moreover have "gen_file g' = recorded show_v6 on i (sent_observations A (length (d # ds)) g) (gen_file g)"
    using run(4) step(4,5) by (simp add: recorded_Cons del: observations.simps)
  moreover have "\<forall>p \<in> set (packet # packets). agent_packet (kinds (gen_ips g)) p" using run(5) step(7,8) by simp
  ultimately show ?case by blast
qed

text \<open>A thread that finds a template packet and valid distributions is ready.\<close>

lemma generator_start_ready:
  assumes "template = Some packet" "length (packet_buffer packet) = 1232" "\<forall>mean. lognormal_new A mean (Fin 2) \<noteq> None"
  obtains g where "generator_start A template thread fresh q = Some g" "gen_ready g" "gen_producer g = q"
    "gen_file g = recorder_new"
    "kinds (gen_ips g) = [(Ipv4Addr 1 1 1 1, False), (Ipv4Addr 2 2 2 2, False), (Ipv4Addr 7 7 7 7, True)]"
proof -
  obtain f1 f2 f3 where fresh: "fresh = (f1, f2, f3)" by (metis prod_cases3)
  obtain d1 d2 where d: "lognormal_new A (f32_ln A (Fin 400000)) (Fin 2) = Some d1"
    "lognormal_new A (f32_ln A (Fin 100000)) (Fin 2) = Some d2" using assms(3) by blast
  show ?thesis
    by (rule that [of "the (generator_start A template thread fresh q)"])
      (simp_all add: generator_start_def generator_ips_def ip_new_def ip_new_bad_def signer_new_def fresh d assms(1,2)
        gen_ready_def kinds_def)
qed

section \<open>Properties\<close>

text \<open>
  C19. A generator thread whose template and distributions are valid starts, and then never panics or leaves
  its packet buffer, whatever its random sources yield; it sends every packet it makes exactly twice, in
  order, each showing the price drawn by the chosen agent and that agent's address. Of a recording thread
  the analysis recovers, for every address, exactly the prices of the first four million packets sent from
  it, and once that many were made the file is on disk.\<close>

theorem generator_recording_recovered:
  assumes "choice_law A" and "template = Some packet" "length (packet_buffer packet) = 1232"
    and "\<forall>mean. lognormal_new A mean (Fin 2) \<noteq> None" and "\<forall>d \<in> set ds. draw_ok d"
  shows "\<exists>g0 g packets. generator_start A template thread fresh q = Some g0 \<and>
    generator_run A P show_v6 True 0 ds g0 = Some g \<and>
    gen_producer g = fold (p_push P) (concat (map (\<lambda>p. [p, p]) packets)) q \<and>
    list_all2 exhibits packets (sent_observations A (length ds) g0) \<and>
    ip_values [Some (rec_written (gen_file g))] (show_ipv4 ip) =
      values_for (take RECORD_LIMIT (sent_observations A (length ds) g0)) ip \<and>
    (RECORD_LIMIT \<le> length ds \<longrightarrow> rec_flushed (gen_file g) = rec_written (gen_file g))"
proof -
  obtain g0 where g0: "generator_start A template thread fresh q = Some g0" "gen_ready g0" "gen_producer g0 = q"
    "gen_file g0 = recorder_new" by (rule generator_start_ready [OF assms(2-4)])
  from generator_run_ok [OF assms(1) g0(2) assms(5), of P show_v6 True 0] obtain g packets where g:
    "generator_run A P show_v6 True 0 ds g0 = Some g" "list_all2 exhibits packets (sent_observations A (length ds) g0)"
    "gen_producer g = fold (p_push P) (concat (map (\<lambda>p. [p, p]) packets)) q"
    "gen_file g = recorded show_v6 True 0 (sent_observations A (length ds) g0) recorder_new"
    using g0(3,4) by auto
  have obs: "length (observations A n ips rng) = n" for n ips rng
    by (induction n arbitrary: ips rng) (auto split: prod.splits)
  let ?obs = "take RECORD_LIMIT (sent_observations A (length ds) g0)"
  have w: "rec_written (gen_file g) = recording show_v6 ?obs"
    by (simp add: g(4) recorded_def recorder_new_def Let_def)
  have "ip_values [Some (recording show_v6 ?obs)] (show_ipv4 ip) = values_for ?obs ip"
    using values_for_map_key [OF show_ipv4_inj, of ?obs ip] ip_values_recordings [of show_v6 "[?obs]"] by simp
  moreover have "0 < RECORD_LIMIT" by (simp add: RECORD_LIMIT_def)
  then have "RECORD_LIMIT \<le> length ds \<longrightarrow> rec_flushed (gen_file g) = rec_written (gen_file g)"
    by (simp add: g(4) recorded_def recorder_new_def obs Let_def)
  ultimately show ?thesis
    using g0(1) g(1-3) w by (intro exI [of _ g0] exI [of _ g] exI [of _ packets]) (simp del: observations.simps)
qed

definition demo_draw :: gen_draw where
  "demo_draw = \<lparr>draw_blockhash = replicate 32 5, draw_signature = replicate 64 6\<rparr>"

definition demo_fresh :: "(u64 \<times> u8) \<times> (u64 \<times> u8) \<times> (u64 \<times> u8)" where
  "demo_fresh = ((1, 1), (2, 2), (3, 3))"

lemma demo_agents_laws: "choice_law demo_agents" "\<forall>mean. lognormal_new demo_agents mean (Fin 2) \<noteq> None" "draw_ok demo_draw"
  by (simp_all add: choice_law_def demo_agents_def draw_ok_def demo_draw_def)

lemma demo_observations:
  assumes "generator_start demo_agents template thread demo_fresh q = Some g0"
  shows "sent_observations demo_agents 2 g0 = [(Ipv4Addr 1 1 1 1, 400000), (Ipv4Addr 2 2 2 2, 100000)]"
proof -
  have [simp]: "next_price demo_agents \<lparr>ip_addr = a, ip_signer = \<lparr>keypair = k, log_mean = m, std = s,
      cu_price_distribution = Fin q\<rparr>, ip_rng = r, ip_bad = b\<rparr> = price_of_sample (Fin q)" for a k m s q r b
    by (simp add: next_price_def sample_cu_price_def demo_agents_def)
  have [simp]: "price_of_sample (Fin 400000) = 400000" "price_of_sample (Fin 100000) = 100000"
    by (simp_all add: price_of_sample_def float_min_def f64_to_u64_def)
  from assms have "gen_rng g0 = \<lparr>rng_state = 0\<rparr>" and "\<exists>r1 r2 r3 k1 k2 k3 m1 m2 m3 s1 s2 s3. gen_ips g0 =
      [\<lparr>ip_addr = Ipv4Addr 1 1 1 1, ip_signer = \<lparr>keypair = k1, log_mean = m1, std = s1, cu_price_distribution = Fin 400000\<rparr>, ip_rng = r1, ip_bad = False\<rparr>,
       \<lparr>ip_addr = Ipv4Addr 2 2 2 2, ip_signer = \<lparr>keypair = k2, log_mean = m2, std = s2, cu_price_distribution = Fin 100000\<rparr>, ip_rng = r2, ip_bad = False\<rparr>,
       \<lparr>ip_addr = Ipv4Addr 7 7 7 7, ip_signer = \<lparr>keypair = k3, log_mean = m3, std = s3, cu_price_distribution = Fin 100000\<rparr>, ip_rng = r3, ip_bad = True\<rparr>]"
    by (auto simp: generator_start_def generator_ips_def ip_new_def ip_new_bad_def signer_new_def demo_fresh_def
        demo_agents_def rng_new_def split: Option.bind_splits)
  then show ?thesis by (auto simp: numeral_2_eq_2 demo_agents_def [THEN arg_cong, of choose_index] next_agent_def)
qed

theorem generator_recording_recovered_witness:
  "\<exists>g0 g. generator_start demo_agents (null_transfer_transaction_with_compute_unit_price demo_sdk demo_keys) 1 demo_fresh [] = Some g0 \<and>
     generator_run demo_agents demo_producer (\<lambda>_. []) True 0 [demo_draw, demo_draw] g0 = Some g \<and>
     ip_values [Some (rec_written (gen_file g))] ''1.1.1.1'' = Some [400000]"
proof -
  obtain packet where p: "null_transfer_transaction_with_compute_unit_price demo_sdk demo_keys = Some packet"
    "length (packet_buffer packet) = 1232" using template_price [OF demo_sdk_laws demo_keys] by blast
  have ok: "\<forall>d \<in> set [demo_draw, demo_draw]. draw_ok d" using demo_agents_laws(3) by simp
  have len: "length [demo_draw, demo_draw] = 2" by simp
  have lim: "take RECORD_LIMIT [a, b] = [a, b]" for a b :: observation
    by (rule take_all) (simp add: RECORD_LIMIT_def)
  obtain g0 g where start: "generator_start demo_agents (null_transfer_transaction_with_compute_unit_price demo_sdk demo_keys) 1
      demo_fresh [] = Some g0"
    and "generator_run demo_agents demo_producer (\<lambda>_. []) True 0 [demo_draw, demo_draw] g0 = Some g"
    and "ip_values [Some (rec_written (gen_file g))] (show_ipv4 (Ipv4Addr 1 1 1 1)) =
      values_for (take RECORD_LIMIT (sent_observations demo_agents 2 g0)) (Ipv4Addr 1 1 1 1)"
    using generator_recording_recovered [OF demo_agents_laws(1) p demo_agents_laws(2) ok, of 1 demo_fresh "[]" demo_producer
        "\<lambda>_. []" "Ipv4Addr 1 1 1 1"] unfolding len by blast
  moreover have "show_ipv4 (Ipv4Addr 1 1 1 1) = ''1.1.1.1''" by code_simp
  ultimately show ?thesis unfolding demo_observations [OF start] lim by (auto simp: values_for_def simp del: generator_run.simps)
qed

end
