(* ===== verification/Mpsc.thy ===== *)
theory Mpsc
  imports Text_Format
begin

text \<open>
  The crate \<open>mpsc\<close> (mpsc/src/lib.rs): several single-producer queues whose consumer ends are held by one
  consumer. The queues are those of the external crate \<open>que\<close>, parameters of the model: \<open>qpop\<close> is the
  \<open>pop\<close> of one queue, and opening the shared memory is a function of the shared-memory world.
  \<open>queue_law\<close> states what is documented of a queue that nobody writes to meanwhile: it yields its
  pending messages in order.

  The lemmas show which queue \<open>pop\<close> serves, that draining loses and duplicates nothing, and that
  \<open>bounded\<close> gives every producer a shared-memory object of its own.
\<close>

section \<open>The consumer\<close>

record 'c Consumer =
  consumers :: "'c list"
  last_idx :: nat

text \<open>
  \<open>iter.find_map(|consumer| { visited += 1; consumer.pop() })\<close>: the first message, the queues after
  the pops, and the number of queues visited.
\<close>

fun find_map_pop :: "('c \<Rightarrow> 'a option \<times> 'c) \<Rightarrow> 'c list \<Rightarrow> 'a option \<times> 'c list \<times> nat" where
  "find_map_pop qpop [] = (None, [], 0)"
| "find_map_pop qpop (c # cs) =
     (case qpop c of
        (Some x, c') \<Rightarrow> (Some x, c' # cs, 1)
      | (None, c') \<Rightarrow> (case find_map_pop qpop cs of (opt, cs', visited) \<Rightarrow> (opt, c' # cs', Suc visited)))"

text \<open>
  \<open>pop\<close>; \<open>None\<close> is a panic, of \<open>split_at_mut\<close> beyond the end or of the remainder by zero. The chained
  iteration visits the queues before the split point first, that is, in index order.
\<close>

definition mpsc_pop :: "('c \<Rightarrow> 'a option \<times> 'c) \<Rightarrow> 'c Consumer \<Rightarrow> ('a option \<times> 'c Consumer) option" where
  "mpsc_pop qpop C =
     (let len = length (consumers C)
      in if len < last_idx C then None
         else let right = take (last_idx C) (consumers C); left = drop (last_idx C) (consumers C);
                (opt, cs', visited) = find_map_pop qpop (right @ left)
              in if len = 0 then None
                 else Some (opt, C\<lparr>consumers := cs', last_idx := (last_idx C + visited) mod len\<rparr>))"

section \<open>Opening the queues\<close>

text \<open>\<open>format!("{base_name}_{i:03}")\<close>: decimal digits padded with zeros to three.\<close>

definition pad3 :: "string \<Rightarrow> string" where
  "pad3 s = replicate (3 - length s) (CHR ''0'') @ s"

definition shmem_id :: "string \<Rightarrow> nat \<Rightarrow> string" where
  "shmem_id base_name i = base_name @ ''_'' @ pad3 (decimal i)"

text \<open>The loop of \<open>bounded\<close>; \<open>join_p\<close> and \<open>join_c\<close> act on the shared-memory world \<open>'w\<close>.\<close>

fun open_channels ::
  "(string \<Rightarrow> 'w \<Rightarrow> ('e + 'p) \<times> 'w) \<Rightarrow> (string \<Rightarrow> 'w \<Rightarrow> ('e + 'c) \<times> 'w) \<Rightarrow> string \<Rightarrow> nat list \<Rightarrow> 'w \<Rightarrow>
     ('e + 'p list \<times> 'c list) \<times> 'w" where
  "open_channels join_p join_c base_name [] w = (Inr ([], []), w)"
| "open_channels join_p join_c base_name (i # idxs) w =
     (case join_p (shmem_id base_name i) w of
        (Inl e, w) \<Rightarrow> (Inl e, w)
      | (Inr p, w) \<Rightarrow>
          (case join_c (shmem_id base_name i) w of
             (Inl e, w) \<Rightarrow> (Inl e, w)
           | (Inr c, w) \<Rightarrow>
               (case open_channels join_p join_c base_name idxs w of
                  (Inl e, w) \<Rightarrow> (Inl e, w)
                | (Inr (ps, cs), w) \<Rightarrow> (Inr (p # ps, c # cs), w))))"

definition bounded ::
  "(string \<Rightarrow> 'w \<Rightarrow> ('e + 'p) \<times> 'w) \<Rightarrow> (string \<Rightarrow> 'w \<Rightarrow> ('e + 'c) \<times> 'w) \<Rightarrow> nat \<Rightarrow> string \<Rightarrow> 'w \<Rightarrow>
     ('e + 'p list \<times> 'c Consumer) \<times> 'w" where
  "bounded join_p join_c senders base_name w =
     (case open_channels join_p join_c base_name [0..<senders] w of
        (Inl e, w) \<Rightarrow> (Inl e, w)
      | (Inr (producers, cs), w) \<Rightarrow> (Inr (producers, \<lparr>consumers = cs, last_idx = 0\<rparr>), w))"

section \<open>Which queue a pop serves\<close>

definition queue_law :: "('c \<Rightarrow> 'a option \<times> 'c) \<Rightarrow> ('c \<Rightarrow> 'a list) \<Rightarrow> bool" where
  "queue_law qpop pending \<longleftrightarrow>
     (\<forall>c. fst (qpop c) = first_or (pending c) None \<and> pending (snd (qpop c)) = tl (pending c))"

text \<open>All pending messages in the order in which they will be delivered.\<close>

definition backlog :: "('c \<Rightarrow> 'a list) \<Rightarrow> 'c Consumer \<Rightarrow> 'a list" where
  "backlog pending C = concat (map pending (consumers C))"

lemma queue_lawD:
  assumes "queue_law qpop pending" and "qpop c = (opt, c')"
  shows "opt = first_or (pending c) None \<and> pending c' = tl (pending c)"
  using assms unfolding queue_law_def by (metis fst_conv snd_conv)

lemma find_map_pop_length: "find_map_pop qpop cs = (opt, cs', n) \<Longrightarrow> length cs' = length cs \<and> n \<le> length cs"
  by (induction cs arbitrary: opt cs' n) (auto split: prod.splits option.splits)

lemma find_map_pop_backlog:
  assumes law: "queue_law qpop pending" and "find_map_pop qpop cs = (opt, cs', n)"
  shows "opt = first_or (concat (map pending cs)) None \<and> concat (map pending cs') = tl (concat (map pending cs))"
  using assms(2)
proof (induction cs arbitrary: opt cs' n)
  case (Cons c cs)
  obtain r c' where q: "qpop c = (r, c')" by fastforce
  with queue_lawD [OF law q] Cons show ?case
    by (cases "pending c") (auto split: prod.splits)
qed simp

lemma mpsc_pop_eq:
  assumes "last_idx C < length (consumers C)"
    and "find_map_pop qpop (consumers C) = (opt, cs', n)"
  shows "mpsc_pop qpop C = Some (opt, \<lparr>consumers = cs', last_idx = (last_idx C + n) mod length (consumers C)\<rparr>)"
  using assms by (cases C) (auto simp: mpsc_pop_def)

lemma mpsc_pop_ok:
  assumes "last_idx C < length (consumers C)"
  obtains opt C' where "mpsc_pop qpop C = Some (opt, C')" "last_idx C' < length (consumers C')"
    "length (consumers C') = length (consumers C)"
    "\<And>pending. queue_law qpop pending \<Longrightarrow>
       opt = first_or (backlog pending C) None \<and> backlog pending C' = tl (backlog pending C)"
proof -
  obtain opt cs' n where f: "find_map_pop qpop (consumers C) = (opt, cs', n)" by (metis prod_cases3)
  show thesis
    by (rule that [OF mpsc_pop_eq [OF assms f]])
       (use find_map_pop_length [OF f] find_map_pop_backlog [OF _ f] assms in \<open>auto simp: backlog_def intro!: mod_less_divisor\<close>)
qed

text \<open>Popping \<open>k\<close> times.\<close>

fun mpsc_pops :: "('c \<Rightarrow> 'a option \<times> 'c) \<Rightarrow> nat \<Rightarrow> 'c Consumer \<Rightarrow> ('a option list \<times> 'c Consumer) option" where
  "mpsc_pops qpop 0 C = Some ([], C)"
| "mpsc_pops qpop (Suc k) C = do {
     (opt, C) \<leftarrow> mpsc_pop qpop C;
     (opts, C) \<leftarrow> mpsc_pops qpop k C;
     Some (opt # opts, C)
   }"

lemma mpsc_pops_ok:
  assumes "queue_law qpop pending" and "last_idx C < length (consumers C)"
  shows "\<exists>C'. mpsc_pops qpop k C =
      Some (map Some (take k (backlog pending C)) @ replicate (k - length (backlog pending C)) None, C') \<and>
    backlog pending C' = drop k (backlog pending C)"
  using assms(2)
proof (induction k arbitrary: C)
  case (Suc k)
  from Suc.prems obtain opt C' where C': "mpsc_pop qpop C = Some (opt, C')" "last_idx C' < length (consumers C')"
    and "\<And>pending. queue_law qpop pending \<Longrightarrow>
       opt = first_or (backlog pending C) None \<and> backlog pending C' = tl (backlog pending C)"
    by (rule mpsc_pop_ok [where qpop = qpop]) blast
  with assms(1) have "opt = first_or (backlog pending C) None" "backlog pending C' = tl (backlog pending C)" by blast+
  with Suc.IH [OF C'(2)] C'(1) show ?case by (cases "backlog pending C") auto
qed simp

section \<open>Names of the shared-memory objects\<close>

lemma decimal_value_pad3: "decimal_value (pad3 s) = decimal_value s"
proof -
  have "foldl (\<lambda>a c. 10 * a + digit_value c) 0 (replicate n (CHR ''0'')) = 0" for n
    by (induction n) (simp_all add: digit_value_def)
  then show ?thesis by (simp add: decimal_value_def pad3_def)
qed

lemma shmem_id_inj: "shmem_id b i = shmem_id b j \<Longrightarrow> i = j"
  unfolding shmem_id_def by (metis append_same_eq decimal_value_decimal decimal_value_pad3 same_append_eq)

text \<open>Every endpoint that \<open>open_channels\<close> returns comes from opening the object of its own index.\<close>

lemma open_channels_ok:
  assumes "open_channels join_p join_c base_name idxs w = (Inr (ps, cs), w')"
  shows "list_all2 (\<lambda>i p. \<exists>u. fst (join_p (shmem_id base_name i) u) = Inr p) idxs ps \<and>
    list_all2 (\<lambda>i c. \<exists>u. fst (join_c (shmem_id base_name i) u) = Inr c) idxs cs"
  using assms
proof (induction join_p join_c base_name idxs w arbitrary: ps cs w' rule: open_channels.induct)
  case (2 join_p join_c base_name i idxs w)
  from "2.prems" obtain p w1 c w2 ps' cs' where
    "join_p (shmem_id base_name i) w = (Inr p, w1)" "join_c (shmem_id base_name i) w1 = (Inr c, w2)"
    "open_channels join_p join_c base_name idxs w2 = (Inr (ps', cs'), w')" "ps = p # ps'" "cs = c # cs'"
    by (auto split: prod.splits sum.splits)
  with "2.IH" [of _ w1 p _ w2 c ps' cs' w'] show ?case by (auto intro: exI [of _ w] exI [of _ w1])
qed simp

text \<open>
  A successful \<open>bounded\<close> returns one producer and one consumer per sender, the \<open>i\<close>-th pair opened on
  the shared-memory object named after \<open>i\<close>; different senders get different names, for any number of
  them; and the first pop is in range.\<close>

lemma bounded_pairs_channels:
  assumes "bounded join_p join_c senders base_name w = (Inr (ps, C), w')"
  shows "length ps = senders \<and> length (consumers C) = senders \<and> last_idx C = 0 \<and>
    (\<forall>i < senders. (\<exists>u. fst (join_p (shmem_id base_name i) u) = Inr (ps ! i)) \<and>
       (\<exists>u. fst (join_c (shmem_id base_name i) u) = Inr (consumers C ! i)) \<and>
       (\<forall>j<i. shmem_id base_name j \<noteq> shmem_id base_name i))"
proof -
  from assms obtain cs where "open_channels join_p join_c base_name [0..<senders] w = (Inr (ps, cs), w')"
    "C = \<lparr>consumers = cs, last_idx = 0\<rparr>"
    by (auto simp: bounded_def split: prod.splits sum.splits)
  with open_channels_ok [of join_p join_c base_name "[0..<senders]" w ps cs w'] show ?thesis
    by (auto simp: list_all2_conv_all_nth dest: shmem_id_inj)
qed

section \<open>Properties\<close>

text \<open>
  C34. Draining: with no concurrent writers, any number \<open>k\<close> of pops delivers exactly the first \<open>k\<close> pending
  messages, lower-numbered queues first and each queue in its own order, then reports emptiness for
  the rest; no message is lost or delivered twice, no pop panics.\<close>

theorem mpsc_pops_deliver:
  assumes "queue_law qpop pending" and "last_idx C < length (consumers C)"
  shows "\<exists>C'. mpsc_pops qpop k C =
      Some (map Some (take k (backlog pending C)) @ replicate (k - length (backlog pending C)) None, C') \<and>
    backlog pending C' = drop k (backlog pending C)"
  by (rule mpsc_pops_ok [OF assms])

definition list_pop :: "nat list \<Rightarrow> nat option \<times> nat list" where
  "list_pop q = (first_or q None, tl q)"

lemma list_pop_law: "queue_law list_pop (\<lambda>q. q)"
  by (simp add: queue_law_def list_pop_def)

theorem mpsc_pops_deliver_witness:
  "\<exists>C'. mpsc_pops list_pop 4 \<lparr>consumers = [[], [7, 8], [9]], last_idx = 2\<rparr> = Some ([Some 7, Some 8, Some 9, None], C')"
  using mpsc_pops_deliver [OF list_pop_law, of "\<lparr>consumers = [[], [7, 8], [9]], last_idx = 2\<rparr>" 4]
  by (auto simp: backlog_def)

text \<open>
  The cursor \<open>last\<close> does not influence which message is popped: for any two positions within range,
  \<open>pop\<close> returns the same message and leaves the same queues, since the queues before the split point
  are chained in front of those after it.\<close>

lemma mpsc_pop_ignores_last:
  assumes "a < length cs" and "b < length cs"
  shows "map_option (\<lambda>(opt, C). (opt, consumers C)) (mpsc_pop qpop \<lparr>consumers = cs, last_idx = a\<rparr>) =
    map_option (\<lambda>(opt, C). (opt, consumers C)) (mpsc_pop qpop \<lparr>consumers = cs, last_idx = b\<rparr>)"
proof -
  obtain opt cs' n where f: "find_map_pop qpop cs = (opt, cs', n)" by (metis prod_cases3)
  with assms show ?thesis
    using mpsc_pop_eq [of "\<lparr>consumers = cs, last_idx = a\<rparr>" qpop opt cs' n]
      mpsc_pop_eq [of "\<lparr>consumers = cs, last_idx = b\<rparr>" qpop opt cs' n] by simp
qed

lemma mpsc_pop_ignores_last_witness:
  "map_option (\<lambda>(opt, C). (opt, consumers C)) (mpsc_pop list_pop \<lparr>consumers = [[5], [6]], last_idx = 1\<rparr>) =
    Some (Some 5, [[], [6]])"
  using mpsc_pop_ignores_last [of 1 "[[5], [6]]" 0 list_pop] by (simp add: mpsc_pop_def list_pop_def)

definition demo_join :: "string \<Rightarrow> string list \<Rightarrow> (unit + string) \<times> string list" where
  "demo_join name w = (Inr name, name # w)"

lemma demo_bounded:
  "bounded demo_join demo_join 2 ''tpu'' [] =
     (Inr ([''tpu_000'', ''tpu_001''], \<lparr>consumers = [''tpu_000'', ''tpu_001''], last_idx = 0\<rparr>),
      [''tpu_001'', ''tpu_001'', ''tpu_000'', ''tpu_000''])"
  by code_simp

lemma bounded_pairs_channels_witness:
  "\<exists>u. fst (demo_join (shmem_id ''tpu'' 1) u) = Inr ''tpu_001''"
  using bounded_pairs_channels [OF demo_bounded] by (auto dest!: spec [of _ 1])

text \<open>
  With zero senders \<open>bounded\<close> still succeeds, but the consumer it returns panics on its first \<open>pop\<close>
  (a remainder by zero).\<close>

lemma zero_senders_pop_panics:
  "\<exists>C. bounded join_p join_c 0 base_name w = (Inr ([], C), w) \<and> mpsc_pop qpop C = None"
  by (simp add: bounded_def mpsc_pop_def)

end
