(* ===== verification/Engine_Ipc.thy ===== *)
theory Engine_Ipc
  imports Packet_Generator Mpsc QoS_Main
begin

text \<open>
  The mock validator around the QoS process: the engine (engine/src/lib.rs), which funnels the packets of
  its generator threads into a channel of the QoS process, and the mock signature verification and
  scheduler (engine-ipc/src/main.rs), which answers the packets that the QoS process sends.

  The queues are those of the external crate \<open>que\<close>: the calls made to them are parameters. Clock
  readings and heartbeats are inputs. A panic is \<open>None\<close>.
\<close>

section \<open>Engine statistics\<close>

record EngineStats =
  tpu_sends :: usize
  fwd_sends :: usize
  sigverify_recvs :: usize
  sigverify_sends :: usize
  scheduler_sends :: usize

definition engine_stats_load :: "EngineStats \<Rightarrow> usize list" where
  "engine_stats_load st = [tpu_sends st, fwd_sends st, sigverify_recvs st, sigverify_sends st, scheduler_sends st]"

section \<open>The engine\<close>

datatype 'e EngineError = QueError 'e

record ('c, 'q) Engine =
  eng_consumer :: "'c Consumer"
  eng_spsc :: 'q

text \<open>
  \<open>initialize\<close>: the queues between the generator threads and the funnel, then the channel to the QoS
  process. The producers go to the generator threads and are returned here.
\<close>

text \<open>The base name of the queues of the generator threads is fixed.\<close>

definition initialize_generator_threads ::
  "(string \<Rightarrow> 'w \<Rightarrow> ('e + 'p) \<times> 'w) \<Rightarrow> (string \<Rightarrow> 'w \<Rightarrow> ('e + 'c) \<times> 'w) \<Rightarrow> nat \<Rightarrow> 'w
     \<Rightarrow> ('e + 'p list \<times> 'c Consumer) \<times> 'w" where
  "initialize_generator_threads join_p join_c generators w = bounded join_p join_c generators ''tpu_engine'' w"

definition engine_initialize ::
  "(string \<Rightarrow> 'w \<Rightarrow> ('e + 'p) \<times> 'w) \<Rightarrow> (string \<Rightarrow> 'w \<Rightarrow> ('e + 'c) \<times> 'w) \<Rightarrow> (string \<Rightarrow> 'w \<Rightarrow> ('e + 'q) \<times> 'w)
     \<Rightarrow> string \<Rightarrow> nat \<Rightarrow> 'w \<Rightarrow> ('e EngineError + 'p list \<times> ('c, 'q) Engine) \<times> 'w" where
  "engine_initialize join_p join_c join_s name generators w =
     (case initialize_generator_threads join_p join_c generators w of
        (Inl e, w) \<Rightarrow> (Inl (QueError e), w)
      | (Inr (producers, consumer), w) \<Rightarrow>
          (case join_s name w of
             (Inl e, w) \<Rightarrow> (Inl (QueError e), w)
           | (Inr spsc, w) \<Rightarrow> (Inr (producers, \<lparr>eng_consumer = consumer, eng_spsc = spsc\<rparr>), w)))"

section \<open>The funnel\<close>

fun funnel_pops ::
  "('c \<Rightarrow> Packet option \<times> 'c) \<Rightarrow> 'q producer_ops \<Rightarrow> nat \<Rightarrow> ('c, 'q) Engine \<Rightarrow> usize \<Rightarrow> (('c, 'q) Engine \<times> usize) option" where
  "funnel_pops qpop P 0 eng sends = Some (eng, sends)"
| "funnel_pops qpop P (Suc n) eng sends = do {
     (opt, consumer) \<leftarrow> mpsc_pop qpop (eng_consumer eng);
     let eng = eng\<lparr>eng_consumer := consumer\<rparr>;
     case opt of
       Some packet \<Rightarrow> funnel_pops qpop P n (eng\<lparr>eng_spsc := p_push P packet (eng_spsc eng)\<rparr>) (sends + 1)
     | None \<Rightarrow> funnel_pops qpop P n eng sends
   }"

definition funnel_round ::
  "('c \<Rightarrow> Packet option \<times> 'c) \<Rightarrow> 'q producer_ops \<Rightarrow> bool \<Rightarrow> ('c, 'q) Engine \<Rightarrow> EngineStats
     \<Rightarrow> (('c, 'q) Engine \<times> EngineStats) option" where
  "funnel_round qpop P fwd eng stats = do {
     (eng, sends) \<leftarrow> funnel_pops qpop P 16 eng 0;
     let spsc = p_sync P (eng_spsc eng);
     let spsc = p_beat P spsc;
     Some (eng\<lparr>eng_spsc := spsc\<rparr>,
       if fwd then stats\<lparr>fwd_sends := fwd_sends stats + sends\<rparr> else stats\<lparr>tpu_sends := tpu_sends stats + sends\<rparr>)
   }"

text \<open>
  What one turn of the loop observes: the counter readings of its two possible calls of
  \<open>elapsed_ms\<close>, and the heartbeat of the consumer.
\<close>

type_synonym funnel_input = "u64 \<times> u64 \<times> bool"

text \<open>The loop; the flag of the result says whether it was left because the consumer is gone.\<close>

fun funnel_loop ::
  "('c \<Rightarrow> Packet option \<times> 'c) \<Rightarrow> 'q producer_ops \<Rightarrow> u64 \<Rightarrow> bool \<Rightarrow> Timer \<Rightarrow> funnel_input list
     \<Rightarrow> u64 \<Rightarrow> ('c, 'q) Engine \<Rightarrow> EngineStats \<Rightarrow> (bool \<times> ('c, 'q) Engine \<times> EngineStats) option" where
  "funnel_loop qpop P ticks fwd timer [] last_check eng stats = Some (False, eng, stats)"
| "funnel_loop qpop P ticks fwd timer ((now, now', heartbeat) # inputs) last_check eng stats = do {
     ms \<leftarrow> elapsed_ms ticks now timer;
     if last_check < ms div 5000 then do {
       ms' \<leftarrow> elapsed_ms ticks now' timer;
       if \<not> heartbeat then Some (True, eng, stats)
       else do {
         (eng, stats) \<leftarrow> funnel_round qpop P fwd eng stats;
         funnel_loop qpop P ticks fwd timer inputs (ms' div 5000) eng stats
       }
     }
     else do {
       (eng, stats) \<leftarrow> funnel_round qpop P fwd eng stats;
       funnel_loop qpop P ticks fwd timer inputs last_check eng stats
     }
   }"

text \<open>
  \<open>funnel_into_ipc\<close>: wait for the first heartbeat, then loop. \<open>waits\<close> are the heartbeats seen while
  waiting; the process is still waiting if none of them is true.
\<close>

definition funnel_into_ipc ::
  "('c \<Rightarrow> Packet option \<times> 'c) \<Rightarrow> 'q producer_ops \<Rightarrow> u64 \<Rightarrow> bool \<Rightarrow> bool list \<Rightarrow> Timer \<Rightarrow> funnel_input list
     \<Rightarrow> ('c, 'q) Engine \<Rightarrow> EngineStats \<Rightarrow> (bool \<times> ('c, 'q) Engine \<times> EngineStats) option" where
  "funnel_into_ipc qpop P ticks fwd waits timer inputs eng stats =
     (if True \<in> set waits then funnel_loop qpop P ticks fwd timer inputs 0 eng stats
      else Some (False, eng, stats))"

section \<open>The mock signature verification and scheduler\<close>

record ('a, 'q) out_ops =
  out_push :: "'a \<Rightarrow> 'q \<Rightarrow> 'q"
  out_sync :: "'q \<Rightarrow> 'q"

record ('v, 'tx, 'sv, 'sc, 'rs) mock_env =
  mock_view :: "('v, 'tx) view_ops"
  mock_view_signatures :: "'v \<Rightarrow> u8 list list"
  mock_hash :: "u8 list \<Rightarrow> u64"
  mock_sig_ops :: "(Packet, 'sv) out_ops"
  mock_sch_ops :: "(unit QoSRemainingMeta, 'sc) out_ops"
  mock_recent_ops :: "(u8 list, 'rs) out_ops"
  mock_write_to_file :: bool
  mock_show_v6 :: "u16 list \<Rightarrow> string"

record ('sv, 'sc, 'rs) mock_state =
  sig_qos_producer :: 'sv
  sch_qos_producer :: 'sc
  recent_producer :: 'rs
  mock_received :: usize
  mock_failed :: usize
  mock_sched :: usize
  mock_file :: recorder
  mock_i :: nat
  mock_stats :: EngineStats

definition SCHED_MASK :: u64 where "SCHED_MASK = 1024 * 1024 - 1"

definition execution_nanos_for :: "u64 \<Rightarrow> u64" where
  "execution_nanos_for h = (h AND SCHED_MASK) + 1"

definition mock_packet :: "('v, 'tx, 'sv, 'sc, 'rs) mock_env \<Rightarrow> Packet \<Rightarrow> ('sv, 'sc, 'rs) mock_state
    \<Rightarrow> ('sv, 'sc, 'rs) mock_state option" where
  "mock_packet E packet s = do {
     let s = s\<lparr>mock_received := mock_received s + 1\<rparr>;
     h \<leftarrow> packet_hash (mock_hash E) packet;
     if packet_buffer packet = [] then None
     else
       let sig = (last (packet_buffer packet) = 0);
           sch = (ucast h :: u8)
       in if \<not> sig then
            Some (s\<lparr>sig_qos_producer := out_push (mock_sig_ops E) packet (sig_qos_producer s),
                    mock_failed := mock_failed s + 1\<rparr>)
          else do {
            data \<leftarrow> packet_data (mock_view E) packet;
            tx_view \<leftarrow> try_new_unsanitized (mock_view E) data;
            let remaining_meta = \<lparr>rm_packet_hash = h, rm_execution_nanos = 0, rm_additional_metadata = ()\<rparr>;
            if sch < 192 then
              Some (s\<lparr>sch_qos_producer := out_push (mock_sch_ops E) remaining_meta (sch_qos_producer s)\<rparr>)
            else do {
              let remaining_meta = remaining_meta\<lparr>rm_execution_nanos := execution_nanos_for h\<rparr>;
              let s = s\<lparr>sch_qos_producer := out_push (mock_sch_ops E) remaining_meta (sch_qos_producer s),
                        mock_sched := mock_sched s + 1\<rparr>;
              signature \<leftarrow> slice_get (mock_view_signatures E tx_view) 0;
              let s = s\<lparr>recent_producer := out_push (mock_recent_ops E) signature (recent_producer s)\<rparr>;
              Some (s\<lparr>sch_qos_producer := out_sync (mock_sch_ops E) (sch_qos_producer s),
                      recent_producer := out_sync (mock_recent_ops E) (recent_producer s)\<rparr>)
            }
          }
   }"

definition mock_flush :: "('sv, 'sc, 'rs) mock_state \<Rightarrow> ('sv, 'sc, 'rs) mock_state" where
  "mock_flush s =
     (if mock_received s AND (32 * 1024 - 1) = 0 then
        let st = mock_stats s
        in s\<lparr>mock_stats := st\<lparr>sigverify_recvs := sigverify_recvs st + mock_received s,
               sigverify_sends := sigverify_sends st + mock_failed s,
               scheduler_sends := scheduler_sends st + mock_sched s\<rparr>,
             mock_received := 0, mock_failed := 0, mock_sched := 0\<rparr>
      else s)"

definition mock_record :: "('v, 'tx, 'sv, 'sc, 'rs) mock_env \<Rightarrow> Packet \<Rightarrow> ('sv, 'sc, 'rs) mock_state
    \<Rightarrow> ('sv, 'sc, 'rs) mock_state option" where
  "mock_record E packet s = do {
     r \<leftarrow> record_packet (mock_show_v6 E) (mock_write_to_file E) (mock_i s) packet (mock_file s);
     Some (s\<lparr>mock_file := r, mock_i := mock_i s + 1\<rparr>)
   }"

text \<open>One turn of the loop; the argument is what the consumer popped.\<close>

definition mock_banking_step :: "('v, 'tx, 'sv, 'sc, 'rs) mock_env \<Rightarrow> Packet option \<Rightarrow> ('sv, 'sc, 'rs) mock_state
    \<Rightarrow> ('sv, 'sc, 'rs) mock_state option" where
  "mock_banking_step E popped s =
     (case popped of
        Some packet \<Rightarrow> do {
          s \<leftarrow> mock_packet E packet s;
          s \<leftarrow> mock_record E packet s;
          Some (mock_flush s)
        }
      | None \<Rightarrow> Some (mock_flush s))"

section \<open>Lemmas on the funnel\<close>

lemma funnel_pops_ok:
  assumes law: "queue_law qpop pending" and "last_idx (eng_consumer eng) < length (consumers (eng_consumer eng))"
  shows "\<exists>eng'. funnel_pops qpop P n eng sends =
      Some (eng', sends + of_nat (min n (length (backlog pending (eng_consumer eng))))) \<and>
    backlog pending (eng_consumer eng') = drop n (backlog pending (eng_consumer eng)) \<and>
    last_idx (eng_consumer eng') < length (consumers (eng_consumer eng')) \<and>
    eng_spsc eng' = fold (p_push P) (take n (backlog pending (eng_consumer eng))) (eng_spsc eng)"
  using assms(2)
proof (induction n arbitrary: eng sends)
  case (Suc n)
  from Suc.prems obtain opt C' where C': "mpsc_pop qpop (eng_consumer eng) = Some (opt, C')"
    "last_idx C' < length (consumers C')" and pop: "\<And>pending. queue_law qpop pending \<Longrightarrow>
       opt = first_or (backlog pending (eng_consumer eng)) None \<and>
       backlog pending C' = tl (backlog pending (eng_consumer eng))"
    by (rule mpsc_pop_ok [where qpop = qpop]) blast
  note pop = pop [OF law]
  show ?case
  proof (cases "backlog pending (eng_consumer eng)")
    case Nil
    with Suc.IH [of "eng\<lparr>eng_consumer := C'\<rparr>" sends] C' pop show ?thesis by simp
  next
    case (Cons packet rest)
    with Suc.IH [of "eng\<lparr>eng_consumer := C', eng_spsc := p_push P packet (eng_spsc eng)\<rparr>" "sends + 1"] C' pop
    show ?thesis by (simp add: algebra_simps)
  qed
qed simp

lemma funnel_round_ok:
  assumes "queue_law qpop pending" and "last_idx (eng_consumer eng) < length (consumers (eng_consumer eng))"
  shows "\<exists>eng'. funnel_round qpop P fwd eng stats =
      Some (eng', let sends = of_nat (min 16 (length (backlog pending (eng_consumer eng)))) in
        if fwd then stats\<lparr>fwd_sends := fwd_sends stats + sends\<rparr> else stats\<lparr>tpu_sends := tpu_sends stats + sends\<rparr>) \<and>
    backlog pending (eng_consumer eng') = drop 16 (backlog pending (eng_consumer eng)) \<and>
    last_idx (eng_consumer eng') < length (consumers (eng_consumer eng')) \<and>
    eng_spsc eng' = p_beat P (p_sync P (fold (p_push P) (take 16 (backlog pending (eng_consumer eng))) (eng_spsc eng)))"
  using funnel_pops_ok [OF assms, of P 16 0] by (auto simp: funnel_round_def Let_def)


text \<open>What \<open>n\<close> rounds hand to the channel: batches of at most sixteen, each followed by a publication.\<close>

fun funnel_out :: "'q producer_ops \<Rightarrow> nat \<Rightarrow> Packet list \<Rightarrow> 'q \<Rightarrow> 'q" where
  "funnel_out P 0 packets q = q"
| "funnel_out P (Suc n) packets q =
     funnel_out P n (drop 16 packets) (p_beat P (p_sync P (fold (p_push P) (take 16 packets) q)))"

definition sends_of :: "bool \<Rightarrow> EngineStats \<Rightarrow> usize" where
  "sends_of fwd stats = (if fwd then fwd_sends stats else tpu_sends stats)"

lemma funnel_loop_ok:
  assumes law: "queue_law qpop pending" and ticks: "ticks \<noteq> 0"
    and "last_idx (eng_consumer eng) < length (consumers (eng_consumer eng))"
    and "\<forall>(_, _, heartbeat) \<in> set inputs. heartbeat"
  shows "\<exists>eng' stats'. funnel_loop qpop P ticks fwd (RDTSC t) inputs last_check eng stats = Some (False, eng', stats') \<and>
    backlog pending (eng_consumer eng') = drop (16 * length inputs) (backlog pending (eng_consumer eng)) \<and>
    eng_spsc eng' = funnel_out P (length inputs) (backlog pending (eng_consumer eng)) (eng_spsc eng) \<and>
    sends_of fwd stats' = sends_of fwd stats +
      of_nat (min (16 * length inputs) (length (backlog pending (eng_consumer eng)))) \<and>
    sends_of (\<not> fwd) stats' = sends_of (\<not> fwd) stats"
  using assms(3,4)
proof (induction inputs arbitrary: last_check eng stats)
  case (Cons i inputs)
  obtain now now' where i: "i = (now, now', True)" using Cons.prems(2) by (cases i) auto
  let ?B = "backlog pending (eng_consumer eng)"
  obtain eng1 stats1 where round: "funnel_round qpop P fwd eng stats = Some (eng1, stats1)"
    "backlog pending (eng_consumer eng1) = drop 16 ?B"
    "last_idx (eng_consumer eng1) < length (consumers (eng_consumer eng1))"
    "eng_spsc eng1 = p_beat P (p_sync P (fold (p_push P) (take 16 ?B) (eng_spsc eng)))"
    "sends_of fwd stats1 = sends_of fwd stats + of_nat (min 16 (length ?B))"
    "sends_of (\<not> fwd) stats1 = sends_of (\<not> fwd) stats"
    using funnel_round_ok [OF law Cons.prems(1), of P fwd stats] by (auto simp: sends_of_def Let_def)
  have "\<forall>(_, _, heartbeat) \<in> set inputs. heartbeat" using Cons.prems(2) by auto
  note ih = Cons.IH [OF round(3) this, of _ stats1]
  have min: "min (16 * length (i # inputs)) (length ?B) = min 16 (length ?B) + min (16 * length inputs) (length ?B - 16)"
    by auto
  show ?case
    using ih [of last_check] ih [of "((now' - t) div ticks) div 5000"] round ticks
    unfolding min by (auto simp: i elapsed_ms_def algebra_simps)
qed (simp add: sends_of_def)

section \<open>Lemmas on the mock validator\<close>

lemma execution_nanos_bounds: "1 \<le> unat (execution_nanos_for h) \<and> unat (execution_nanos_for h) \<le> 2 ^ 20"
proof -
  have "h AND SCHED_MASK \<le> SCHED_MASK" by (rule word_and_le1)
  then have "unat (h AND SCHED_MASK) < 2 ^ 20" by (simp add: SCHED_MASK_def word_le_nat_alt)
  moreover from this have "unat ((h AND SCHED_MASK) + 1) = unat (h AND SCHED_MASK) + 1"
    by (subst unat_add_lem [THEN iffD1]) simp_all
  ultimately show ?thesis by (simp add: execution_nanos_for_def)
qed

lemma mock_flush_queues [simp]:
  "sig_qos_producer (mock_flush s) = sig_qos_producer s" "sch_qos_producer (mock_flush s) = sch_qos_producer s"
  "recent_producer (mock_flush s) = recent_producer s" "mock_file (mock_flush s) = mock_file s"
  "mock_i (mock_flush s) = mock_i s"
  by (simp_all add: mock_flush_def Let_def)

lemma record_packet_total:
  assumes "length (packet_buffer packet) = PACKET_DATA_SIZE"
  obtains r' where "record_packet show_v6 on i packet r = Some r'"
proof -
  have "record_packet show_v6 on i packet r \<noteq> None"
    using assms by (simp add: record_packet_def read_price_def tx_offsets PACKET_DATA_SIZE_def Let_def)
  then show ?thesis using that by blast
qed

text \<open>Recording and flushing follow every answer; they leave the channels alone.\<close>

lemma mock_step_after_packet:
  assumes "mock_packet E packet s = Some s1" and "length (packet_buffer packet) = PACKET_DATA_SIZE"
  obtains s' where "mock_banking_step E (Some packet) s = Some s'"
    "sig_qos_producer s' = sig_qos_producer s1" "sch_qos_producer s' = sch_qos_producer s1"
    "recent_producer s' = recent_producer s1" "mock_i s' = mock_i s1 + 1"
    "record_packet (mock_show_v6 E) (mock_write_to_file E) (mock_i s1) packet (mock_file s1) = Some (mock_file s')"
proof -
  obtain r where "record_packet (mock_show_v6 E) (mock_write_to_file E) (mock_i s1) packet (mock_file s1) = Some r"
    by (rule record_packet_total [OF assms(2)])
  with assms(1) show ?thesis
    by (intro that [of "mock_flush (s1\<lparr>mock_file := r, mock_i := mock_i s1 + 1\<rparr>)"])
      (simp_all add: mock_banking_step_def mock_record_def)
qed

text \<open>A packet that the QoS process accepted, as the mock validator sees it.\<close>

lemma accepted_facts:
  assumes "view_laws W" "lru_inv N metas" "length (packet_buffer packet) = PACKET_DATA_SIZE"
    and "try_process_packet W T hash N packet recent m metas stats = Some (Inr st, m', metas', stats')"
  obtains d u tx sig h where "packet_data W packet = Some d" "try_new_unsanitized W d = Some u"
    "sanitize W u = Some tx" "slice_get (tx_signatures W tx) 0 = Some sig" "st_sig_key st = u64_key sig"
    "packet_hash hash packet = Some h" "lru_contains metas' h"
  using assms(1-3)
proof (cases rule: process_cases [where T = T and hash = hash and recent = recent and m = m and stats = stats])
  case (scored ip d u tx sig payer ev dup metas1)
  with assms(4) have "metas' = metas1" "st_sig_key st = u64_key sig" by (auto split: if_splits)
  with scored packet_hash_eq [OF scored(2,1), of hash] show ?thesis by (intro that) simp_all
qed (use assms(4) in auto)

text \<open>What the answer to an accepted packet looks like: \<open>metas\<close> is the cache of the QoS process.\<close>

definition mock_answer :: "('v, 'tx, 'sv, 'sc, 'rs) mock_env \<Rightarrow> meta_cache \<Rightarrow> ScoredTransaction \<Rightarrow> Packet
    \<Rightarrow> ('sv, 'sc, 'rs) mock_state \<Rightarrow> ('sv, 'sc, 'rs) mock_state \<Rightarrow> bool" where
  "mock_answer E metas st packet s s' \<longleftrightarrow>
    (if last (packet_buffer packet) \<noteq> 0
     then sig_qos_producer s' = out_push (mock_sig_ops E) packet (sig_qos_producer s) \<and>
       sch_qos_producer s' = sch_qos_producer s
     else \<exists>rm sig. packet_hash (mock_hash E) packet = Some (rm_packet_hash rm) \<and> lru_contains metas (rm_packet_hash rm) \<and> 
       unat (rm_execution_nanos rm) \<le> 2 ^ 20 \<and>
       u64_key sig = st_sig_key st \<and>
       (if rm_execution_nanos rm = 0
        then sch_qos_producer s' = out_push (mock_sch_ops E) rm (sch_qos_producer s) \<and>
          recent_producer s' = recent_producer s
        else sch_qos_producer s' = out_sync (mock_sch_ops E) (out_push (mock_sch_ops E) rm (sch_qos_producer s)) \<and>
          recent_producer s' = out_sync (mock_recent_ops E) (out_push (mock_recent_ops E) sig (recent_producer s))))"

lemma mock_packet_accepted:
  assumes "view_laws W" "lru_inv N metas" "length (packet_buffer packet) = PACKET_DATA_SIZE"
    and "try_process_packet W T hash N packet recent m metas stats = Some (Inr st, m', metas', stats')"
    and "mock_view E = W" "mock_hash E = hash"
    and "\<forall>v tx. sanitize W v = Some tx \<longrightarrow> mock_view_signatures E v = tx_signatures W tx"
  shows "\<exists>s'. mock_packet E packet s = Some s' \<and>
    mock_answer E metas' st packet s s'"
proof -
  from accepted_facts [OF assms(1-4)] obtain d u tx sig h where f:
    "packet_data W packet = Some d" "try_new_unsanitized W d = Some u" "sanitize W u = Some tx"
    "slice_get (tx_signatures W tx) 0 = Some sig" "st_sig_key st = u64_key sig"
    "packet_hash hash packet = Some h" "lru_contains metas' h" by metis
  have ne: "packet_buffer packet \<noteq> []" using assms(3) by (auto simp: PACKET_DATA_SIZE_def)
  have sigs: "mock_view_signatures E u = tx_signatures W tx" using assms(7) f(3) by blast
  note b = execution_nanos_bounds [of h]
  then have pos: "execution_nanos_for h \<noteq> 0" by auto
  let ?rm = "\<lambda>n. \<lparr>rm_packet_hash = h, rm_execution_nanos = n, rm_additional_metadata = ()\<rparr>"
  consider "last (packet_buffer packet) \<noteq> 0" | "last (packet_buffer packet) = 0" "(ucast h :: u8) < 192"
    | "last (packet_buffer packet) = 0" "\<not> (ucast h :: u8) < 192" by blast
  then show ?thesis
  proof cases
    case 2
    with f ne show ?thesis
      by (auto simp: mock_packet_def mock_answer_def assms(5,6) intro!: exI [of _ "?rm 0"] exI [of _ sig])
  next
    case 3
    with f ne sigs b pos show ?thesis
      by (auto simp: mock_packet_def mock_answer_def assms(5,6) intro!: exI [of _ "?rm (execution_nanos_for h)"] exI [of _ sig])
  qed (use f ne in \<open>simp add: mock_packet_def mock_answer_def assms(5,6)\<close>)
qed

lemma mock_step_accepted:
  assumes "view_laws W" "lru_inv N metas" "length (packet_buffer packet) = PACKET_DATA_SIZE"
    and "try_process_packet W T hash N packet recent m metas stats = Some (Inr st, m', metas', stats')"
    and "mock_view E = W" "mock_hash E = hash"
    and "\<forall>v tx. sanitize W v = Some tx \<longrightarrow> mock_view_signatures E v = tx_signatures W tx"
  shows "\<exists>s'. mock_banking_step E (Some packet) s = Some s' \<and>
    mock_answer E metas' st packet s s'"
proof -
  obtain s1 where s1: "mock_packet E packet s = Some s1" and ans: "mock_answer E metas' st packet s s1"
    using mock_packet_accepted [OF assms, of s] by blast
  obtain s' where "mock_banking_step E (Some packet) s = Some s'"
    "sig_qos_producer s' = sig_qos_producer s1" "sch_qos_producer s' = sch_qos_producer s1"
    "recent_producer s' = recent_producer s1"
    by (rule mock_step_after_packet [OF s1 assms(3)])
  with ans show ?thesis unfolding mock_answer_def by (intro exI [of _ s']) presburger
qed

section \<open>Properties\<close>

text \<open>
  C35. The funnel loses, reorders and duplicates nothing: while the consumer is alive, every turn of the
  loop moves up to sixteen pending packets from the generator queues to the channel, in order, and
  publishes them; after \<open>n\<close> turns the first \<open>16 n\<close> pending packets were sent, the rest is still pending,
  and exactly the counter of this engine grew by the number of packets sent.\<close>

theorem funnel_delivers:
  assumes "queue_law qpop pending" and "ticks \<noteq> 0"
    and "last_idx (eng_consumer eng) < length (consumers (eng_consumer eng))"
    and "\<forall>(_, _, heartbeat) \<in> set inputs. heartbeat"
  shows "\<exists>eng' stats'. funnel_loop qpop P ticks fwd (RDTSC t) inputs last_check eng stats = Some (False, eng', stats') \<and>
    backlog pending (eng_consumer eng') = drop (16 * length inputs) (backlog pending (eng_consumer eng)) \<and>
    eng_spsc eng' = funnel_out P (length inputs) (backlog pending (eng_consumer eng)) (eng_spsc eng) \<and>
    sends_of fwd stats' = sends_of fwd stats +
      of_nat (min (16 * length inputs) (length (backlog pending (eng_consumer eng)))) \<and>
    sends_of (\<not> fwd) stats' = sends_of (\<not> fwd) stats"
  by (rule funnel_loop_ok [OF assms])

definition packet_list_pop :: "Packet list \<Rightarrow> Packet option \<times> Packet list" where
  "packet_list_pop q = (first_or q None, tl q)"

lemma packet_list_pop_law: "queue_law packet_list_pop (\<lambda>q. q)"
  by (simp add: queue_law_def packet_list_pop_def)

definition zero_engine_stats :: EngineStats where
  "zero_engine_stats = \<lparr>tpu_sends = 0, fwd_sends = 0, sigverify_recvs = 0, sigverify_sends = 0, scheduler_sends = 0\<rparr>"

definition demo_eng :: "(Packet list, Packet list) Engine" where
  "demo_eng = \<lparr>eng_consumer = \<lparr>consumers = [[], [demo_packet [7] (Ipv4Addr 10 0 0 1) 80]], last_idx = 1\<rparr>, eng_spsc = []\<rparr>"

lemma demo_eng_facts:
  "last_idx (eng_consumer demo_eng) < length (consumers (eng_consumer demo_eng))"
  "backlog (\<lambda>q. q) (eng_consumer demo_eng) = [demo_packet [7] (Ipv4Addr 10 0 0 1) 80]"
  "p_beat demo_producer q = q" "p_sync demo_producer q = q" "p_push demo_producer p q = q @ [p]" "eng_spsc demo_eng = []"
  "sends_of fwd zero_engine_stats = 0"
  by (simp_all add: demo_eng_def backlog_def demo_producer_def sends_of_def zero_engine_stats_def)

theorem funnel_delivers_witness:
  "\<exists>eng' stats'. funnel_loop packet_list_pop demo_producer 1000 True (RDTSC 0) [(1, 2, True), (9000000, 9000001, True)] 0
     demo_eng zero_engine_stats = Some (False, eng', stats') \<and> sends_of True stats' = 1 \<and>
     eng_spsc eng' = [demo_packet [7] (Ipv4Addr 10 0 0 1) 80]"
proof -
  have ticks: "(1000 :: u64) \<noteq> 0" by simp
  have "\<forall>(_, _, heartbeat) \<in> set [(1 :: u64, 2 :: u64, True), (9000000, 9000001, True)]. heartbeat" by simp
  from funnel_delivers [OF packet_list_pop_law ticks demo_eng_facts(1) this, of demo_producer True 0 0 zero_engine_stats]
  show ?thesis unfolding demo_eng_facts(2,7) by (auto simp: demo_eng_facts(3-6) simp del: funnel_loop.simps)
qed

text \<open>
  C40. Two engines share their generator queues: \<open>initialize\<close> always uses the same base name, so when the
  TPU engine and the forward engine are both started (as the mock validator does), the \<open>i\<close>-th producers and
  consumers of both are opened on the same shared-memory object, although each queue is meant for a
  single producer.\<close>

theorem engines_share_queues:
  assumes "engine_initialize join_p join_c join_s name generators w = (Inr (ps, eng), w')"
    and "engine_initialize join_p join_c join_s name' generators v = (Inr (ps', eng'), v')"
    and "i < generators"
  shows "\<exists>q. (\<exists>u. fst (join_p q u) = Inr (ps ! i)) \<and> (\<exists>u. fst (join_p q u) = Inr (ps' ! i)) \<and>
    (\<exists>u. fst (join_c q u) = Inr (consumers (eng_consumer eng) ! i)) \<and>
    (\<exists>u. fst (join_c q u) = Inr (consumers (eng_consumer eng') ! i))"
proof -
  from assms(1,2) obtain w1 v1 where
    "bounded join_p join_c generators ''tpu_engine'' w = (Inr (ps, eng_consumer eng), w1)"
    "bounded join_p join_c generators ''tpu_engine'' v = (Inr (ps', eng_consumer eng'), v1)"
    by (auto simp: engine_initialize_def initialize_generator_threads_def split: prod.splits sum.splits)
  from this [THEN bounded_pairs_channels] assms(3) show ?thesis by blast
qed

lemma demo_engine:
  "engine_initialize demo_join demo_join demo_join ''tpu_to_qos'' 1 [] =
     (Inr ([''tpu_engine_000''], \<lparr>eng_consumer = \<lparr>consumers = [''tpu_engine_000''], last_idx = 0\<rparr>, eng_spsc = ''tpu_to_qos''\<rparr>),
      [''tpu_to_qos'', ''tpu_engine_000'', ''tpu_engine_000''])"
  "engine_initialize demo_join demo_join demo_join ''fwd_to_qos'' 1 [] =
     (Inr ([''tpu_engine_000''], \<lparr>eng_consumer = \<lparr>consumers = [''tpu_engine_000''], last_idx = 0\<rparr>, eng_spsc = ''fwd_to_qos''\<rparr>),
      [''fwd_to_qos'', ''tpu_engine_000'', ''tpu_engine_000''])"
  by code_simp+

theorem engines_share_queues_witness:
  "\<exists>q. (\<exists>u. fst (demo_join q u) = Inr ([''tpu_engine_000''] ! 0)) \<and> (\<exists>u. fst (demo_join q u) = Inr ([''tpu_engine_000''] ! 0))"
  using engines_share_queues [OF demo_engine(1) demo_engine(2), of 0] by auto

text \<open>
  The mock validator answers every packet the QoS process accepted in one turn of its loop, without panicking: a packet marked
  as badly signed goes back on the signature channel; any other gets exactly one execution result whose
  hash is cached by the QoS process, with an execution time of at most \<open>2^20\<close> nanoseconds, and if it was
  scheduled (a positive time) its signature is reported as confirmed.\<close>

lemma mock_answers_accepted:
  assumes "view_laws W" "lru_inv N metas" "length (packet_buffer packet) = PACKET_DATA_SIZE"
    and "try_process_packet W T hash N packet recent m metas stats = Some (Inr st, m', metas', stats')"
    and "mock_view E = W" "mock_hash E = hash"
    and "\<forall>v tx. sanitize W v = Some tx \<longrightarrow> mock_view_signatures E v = tx_signatures W tx"
  shows "\<exists>s'. mock_banking_step E (Some packet) s = Some s' \<and>
    (if last (packet_buffer packet) \<noteq> 0
     then sig_qos_producer s' = out_push (mock_sig_ops E) packet (sig_qos_producer s) \<and>
       sch_qos_producer s' = sch_qos_producer s
     else \<exists>rm sig. packet_hash hash packet = Some (rm_packet_hash rm) \<and> lru_contains metas' (rm_packet_hash rm) \<and> 
       unat (rm_execution_nanos rm) \<le> 2 ^ 20 \<and>
       u64_key sig = st_sig_key st \<and>
       (if rm_execution_nanos rm = 0
        then sch_qos_producer s' = out_push (mock_sch_ops E) rm (sch_qos_producer s) \<and>
          recent_producer s' = recent_producer s
        else sch_qos_producer s' = out_sync (mock_sch_ops E) (out_push (mock_sch_ops E) rm (sch_qos_producer s)) \<and>
          recent_producer s' = out_sync (mock_recent_ops E) (out_push (mock_recent_ops E) sig (recent_producer s))))"
  using mock_step_accepted [OF assms, of s] unfolding mock_answer_def assms(6) .

definition demo_mock :: "(u8 list, u8 list, Packet list, unit QoSRemainingMeta list, u8 list list) mock_env" where
  "demo_mock =
     \<lparr>mock_view = demo_view, mock_view_signatures = tx_signatures demo_view, mock_hash = from_le_bytes,
      mock_sig_ops = \<lparr>out_push = \<lambda>p ps. ps @ [p], out_sync = id\<rparr>,
      mock_sch_ops = \<lparr>out_push = \<lambda>p ps. ps @ [p], out_sync = id\<rparr>,
      mock_recent_ops = \<lparr>out_push = \<lambda>p ps. ps @ [p], out_sync = id\<rparr>,
      mock_write_to_file = True, mock_show_v6 = \<lambda>_. []\<rparr>"

definition demo_mock_state :: "(Packet list, unit QoSRemainingMeta list, u8 list list) mock_state" where
  "demo_mock_state = \<lparr>sig_qos_producer = [], sch_qos_producer = [], recent_producer = [],
     mock_received = 0, mock_failed = 0, mock_sched = 0, mock_file = recorder_new, mock_i = 0,
     mock_stats = zero_engine_stats\<rparr>"

lemma mock_answers_accepted_witness:
  "\<exists>s'. mock_banking_step demo_mock (Some (demo_packet [7] (Ipv4Addr 10 0 0 1) 80)) demo_mock_state = Some s' \<and>
     sch_qos_producer s' \<noteq> []"
proof -
  let ?p = "demo_packet [7] (Ipv4Addr 10 0 0 1) 80"
  have lru: "lru_inv 4 (lru_new 4 :: meta_cache)" by (rule lru_new_inv) simp
  have len: "length (packet_buffer ?p) = PACKET_DATA_SIZE"
    by (rule demo_packet_buffer) (simp add: PACKET_DATA_SIZE_def)
  obtain st m' metas' stats' where run: "try_process_packet demo_view (alist_trees 20) from_le_bytes 4 ?p None
      (model_new (alist_trees 20) [] []) (lru_new 4) Stats_new = Some (Inr st, m', metas', stats')"
    by (rule demo_accepted)
  have E: "mock_view demo_mock = demo_view" "mock_hash demo_mock = from_le_bytes"
    "\<forall>v tx. sanitize demo_view v = Some tx \<longrightarrow> mock_view_signatures demo_mock v = tx_signatures demo_view tx"
    by (auto simp: demo_mock_def demo_view_def split: if_splits)
  have last: "last (packet_buffer ?p) = 0" by (simp add: demo_packet_def PACKET_DATA_SIZE_def)
  from mock_answers_accepted [OF demo_view_laws lru len run E, of demo_mock_state] last show ?thesis
    by (auto simp: demo_mock_def split: if_splits)
qed

end
