(* ===== verification/Mock_Startup.thy ===== *)
theory Mock_Startup
  imports Startup Engine_Ipc
begin

text \<open>
  The start of the mock validator (\<open>main\<close> of engine-ipc/src/main.rs): both engines with their generator
  queues, the channels to and from the QoS process, the block of shared statistics, and the drop of
  privileges. Every failure is a panic, here \<open>None\<close>.
\<close>

section \<open>Opening\<close>

record mock_args =
  ma_threads_per_generator :: nat
  ma_xxhash_seed :: u64
  ma_use_huge_pages :: bool
  ma_write_to_file :: bool

text \<open>\<open>Engine::initialize\<close> over the shared-memory calls of the operating system; the generator queues hold 8192 packets.\<close>

definition engine_open :: "('e, 'h, 'w) os_env \<Rightarrow> PageSize \<Rightarrow> usize \<Rightarrow> string \<Rightarrow> nat \<Rightarrow> 'w
    \<Rightarrow> ('e EngineError + 'h list \<times> ('h, 'h) Engine) \<times> 'w" where
  "engine_open os page_size cap name generators w =
     engine_initialize (\<lambda>n. os_join_or_create os (PacketMsg, n, 8192) Standard) (\<lambda>n. os_join_shmem os (PacketMsg, n, 8192) Standard)
       (\<lambda>n. os_join_or_create os (PacketMsg, n, cap) page_size) name generators w"

record ('h, 's) mock_handles =
  mh_tpu :: "'h list \<times> ('h, 'h) Engine"
  mh_fwd :: "'h list \<times> ('h, 'h) Engine"
  mh_recent_signatures :: 'h
  mh_shared_stats :: 's
  mh_banking_consumer :: 'h
  mh_sig_qos_producer :: 'h
  mh_sch_qos_producer :: 'h

definition mock_main :: "('e, 'h, 'w) os_env \<Rightarrow> (string \<Rightarrow> nat \<Rightarrow> PageSize \<Rightarrow> 'w \<Rightarrow> ('e + 's) \<times> 'w) \<Rightarrow> mock_args \<Rightarrow> 'w
    \<Rightarrow> (('h, 's) mock_handles \<times> 'w) option" where
  "mock_main os open_or_create args w = do {
     let page_size = get_page_size (ma_use_huge_pages args);
     (tpu, w) \<leftarrow> unwrap (engine_open os page_size IPC_TPU_TO_QOS_CAP IPC_TPU_TO_QOS_NAME (ma_threads_per_generator args) w);
     (fwd, w) \<leftarrow> unwrap (engine_open os page_size IPC_FWD_TO_QOS_CAP IPC_FWD_TO_QOS_NAME (ma_threads_per_generator args) w);
     (recent, w) \<leftarrow> unwrap (os_join_or_create os (SignatureMsg, IPC_STATUS_CACHE_NAME, IPC_STATUS_CACHE_CAP) page_size w);
     (stats, w) \<leftarrow> unwrap (open_or_create ''qos_stats'' 2048 Standard w);
     (banking, w) \<leftarrow> unwrap (os_join_shmem os (PacketMsg, IPC_QOS_TO_SIG_NAME, IPC_QOS_TO_SIG_CAP) page_size w);
     (sig, w) \<leftarrow> unwrap (os_join_or_create os (PacketMsg, IPC_SIG_TO_QOS_NAME, IPC_SIG_TO_QOS_CAP) page_size w);
     (sch, w) \<leftarrow> unwrap (os_join_or_create os (MetaMsg, IPC_SCH_TO_QOS_NAME, IPC_SCH_TO_QOS_CAP) page_size w);
     (case checked_drop_privileges (os_sys os) (os_sudo_user os) w of
        (Inl _, _) \<Rightarrow> None
      | (Inr _, w) \<Rightarrow>
          Some (\<lparr>mh_tpu = tpu, mh_fwd = fwd, mh_recent_signatures = recent, mh_shared_stats = stats,
                 mh_banking_consumer = banking, mh_sig_qos_producer = sig, mh_sch_qos_producer = sch\<rparr>, w))
   }"

text \<open>The thread of the mock validator hashes with the seed, and records, as its arguments say.\<close>

definition mock_env_for :: "xx_ops \<Rightarrow> mock_args \<Rightarrow> ('v, 'tx, 'sv, 'sc, 'rs) mock_env \<Rightarrow> ('v, 'tx, 'sv, 'sc, 'rs) mock_env" where
  "mock_env_for X args M =
     M\<lparr>mock_hash := xx_hash X (initialize_with_seed X (ma_xxhash_seed args)), mock_write_to_file := ma_write_to_file args\<rparr>"

text \<open>Two processes started with the same seed agree on the hash of every packet.\<close>

lemma same_seed_same_hash:
  "ma_xxhash_seed margs = xxhash_seed args \<Longrightarrow>
    mock_hash (mock_env_for X margs M) = env_hash (seeded_env X (xxhash_seed args) E)"
  by (simp add: mock_env_for_def seeded_env_def)

section \<open>Lemmas\<close>

text \<open>Opening keeps the objects that exist and the user of the process.\<close>

lemma open_channels_succeed:
  assumes L: "shmem_laws objects uid_of js jc"
  shows "\<exists>ps cs w'. open_channels (\<lambda>n. jc (PacketMsg, n, 8192) Standard) (\<lambda>n. js (PacketMsg, n, 8192) Standard) base idxs w =
      (Inr (ps, cs), w') \<and> objects w \<subseteq> objects w' \<and> uid_of w' = uid_of w \<and> length ps = length idxs"
proof (induction idxs arbitrary: w)
  case (Cons i idxs)
  let ?c = "(PacketMsg, shmem_id base i, 8192 :: usize)"
  obtain p w1 where 1: "jc ?c Standard w = (Inr p, w1)" "objects w1 = insert (?c, Standard) (objects w)" "uid_of w1 = uid_of w"
    by (rule shmem_createE [OF L])
  then have "(?c, Standard) \<in> objects w1" by simp
  then obtain c w2 where 2: "js ?c Standard w1 = (Inr c, w2)" "objects w2 = objects w1" "uid_of w2 = uid_of w1"
    by (rule shmem_joinE [OF L])
  from Cons.IH [of w2] 1 2 show ?case by auto
qed simp

lemma engine_open_succeeds:
  assumes "shmem_laws objects uid_of (os_join_shmem os) (os_join_or_create os)"
  obtains ps eng w' where "engine_open os page_size cap name generators w = (Inr (ps, eng), w')"
    "objects w \<subseteq> objects w'" "uid_of w' = uid_of w" "length ps = generators"
    "((PacketMsg, name, cap), page_size) \<in> objects w'"
proof -
  obtain ps cs w1 where 1: "open_channels (\<lambda>n. os_join_or_create os (PacketMsg, n, 8192) Standard)
      (\<lambda>n. os_join_shmem os (PacketMsg, n, 8192) Standard) ''tpu_engine'' [0..<generators] w = (Inr (ps, cs), w1)"
    "objects w \<subseteq> objects w1" "uid_of w1 = uid_of w" "length ps = generators"
    using open_channels_succeed [OF assms, of "''tpu_engine''" "[0..<generators]" w] by auto
  obtain h w2 where 2: "os_join_or_create os (PacketMsg, name, cap) page_size w1 = (Inr h, w2)"
    "objects w2 = insert ((PacketMsg, name, cap), page_size) (objects w1)" "uid_of w2 = uid_of w1"
    by (rule shmem_createE [OF assms])
  show ?thesis
    by (rule that [of ps "\<lparr>eng_consumer = \<lparr>consumers = cs, last_idx = 0\<rparr>, eng_spsc = h\<rparr>" w2])
      (use 1 2 in \<open>auto simp: engine_open_def engine_initialize_def initialize_generator_threads_def bounded_def\<close>)
qed

section \<open>Properties\<close>

text \<open>
  C6. The mock validator starts after the command-line tool: started with huge pages by the superuser on
  behalf of a known user, it opens both engines with one producer per generator thread, joins every
  channel, and drops its privileges, without a panic.\<close>

theorem mock_starts_after_cli:
  assumes "shmem_laws objects uid_of (os_join_shmem os) (os_join_or_create os)"
    and "sys_laws uid_of gid_of (os_sys os)" and "uid_of w = 0"
    and "os_sudo_user os = Some user" "CHR 0x00 \<notin> set user" "getpwnam (os_sys os) user = Some (uid, gid)"
    and "\<forall>name len ps v. \<exists>h v'. open_or_create name len ps v = (Inr h, v') \<and> objects v' = objects v \<and> uid_of v' = uid_of v"
    and "ma_use_huge_pages args"
  shows "\<exists>mh w'. mock_main os open_or_create args (cli_main (os_join_or_create os) w) = Some (mh, w') \<and> uid_of w' = uid \<and>
    length (fst (mh_tpu mh)) = ma_threads_per_generator args \<and> length (fst (mh_fwd mh)) = ma_threads_per_generator args"
proof -
  note L = assms(1)
  let ?w = "cli_main (os_join_or_create os) w"
  have cli: "(\<lambda>c. (c, Huge)) ` set cli_channels \<subseteq> objects ?w" "uid_of ?w = 0"
    using initialize_huge_ok [OF L, of cli_channels w] assms(3) by (auto simp: cli_main_def)
  have "(PacketMsg, IPC_QOS_TO_SIG_NAME, IPC_QOS_TO_SIG_CAP) \<in> set cli_channels" by (simp add: cli_channels_def)
  then have qos: "((PacketMsg, IPC_QOS_TO_SIG_NAME, IPC_QOS_TO_SIG_CAP), Huge) \<in> objects ?w" using cli(1) by blast
  obtain ps1 e1 w1 where 1: "engine_open os Huge IPC_TPU_TO_QOS_CAP IPC_TPU_TO_QOS_NAME (ma_threads_per_generator args) ?w =
      (Inr (ps1, e1), w1)" "objects ?w \<subseteq> objects w1" "uid_of w1 = uid_of ?w" "length ps1 = ma_threads_per_generator args"
    by (rule engine_open_succeeds [OF L])
  obtain ps2 e2 w2 where 2: "engine_open os Huge IPC_FWD_TO_QOS_CAP IPC_FWD_TO_QOS_NAME (ma_threads_per_generator args) w1 =
      (Inr (ps2, e2), w2)" "objects w1 \<subseteq> objects w2" "uid_of w2 = uid_of w1" "length ps2 = ma_threads_per_generator args"
    by (rule engine_open_succeeds [OF L])
  obtain h3 w3 where 3: "os_join_or_create os (SignatureMsg, IPC_STATUS_CACHE_NAME, IPC_STATUS_CACHE_CAP) Huge w2 = (Inr h3, w3)"
    "objects w2 \<subseteq> objects w3" "uid_of w3 = uid_of w2"
    using shmem_createE [OF L] by (metis subset_insertI)
  obtain h4 w4 where 4: "open_or_create ''qos_stats'' 2048 Standard w3 = (Inr h4, w4)"
    "objects w4 = objects w3" "uid_of w4 = uid_of w3" using assms(7) by blast
  have "((PacketMsg, IPC_QOS_TO_SIG_NAME, IPC_QOS_TO_SIG_CAP), Huge) \<in> objects w4" using qos 1(2) 2(2) 3(2) 4(2) by blast
  then obtain h5 w5 where 5: "os_join_shmem os (PacketMsg, IPC_QOS_TO_SIG_NAME, IPC_QOS_TO_SIG_CAP) Huge w4 = (Inr h5, w5)"
    "uid_of w5 = uid_of w4" by (rule shmem_joinE [OF L])
  obtain h6 w6 where 6: "os_join_or_create os (PacketMsg, IPC_SIG_TO_QOS_NAME, IPC_SIG_TO_QOS_CAP) Huge w5 = (Inr h6, w6)"
    "uid_of w6 = uid_of w5" by (rule shmem_createE [OF L])
  obtain h7 w7 where 7: "os_join_or_create os (MetaMsg, IPC_SCH_TO_QOS_NAME, IPC_SCH_TO_QOS_CAP) Huge w6 = (Inr h7, w7)"
    "uid_of w7 = uid_of w6" by (rule shmem_createE [OF L])
  have root: "uid_of w7 = 0" using 1(3) 2(3) 3(3) 4(3) 5(2) 6(2) 7(2) cli(2) by simp
  obtain w8 where 8: "checked_drop_privileges (os_sys os) (Some user) w7 = (Inr (), w8)" "uid_of w8 = uid"
    using drop_privileges_succeeds [OF assms(2) root assms(5,6)] by blast
  have "mock_main os open_or_create args ?w =
      Some (\<lparr>mh_tpu = (ps1, e1), mh_fwd = (ps2, e2), mh_recent_signatures = h3, mh_shared_stats = h4,
        mh_banking_consumer = h5, mh_sig_qos_producer = h6, mh_sch_qos_producer = h7\<rparr>, w8)"
    using assms(4,8) by (simp add: mock_main_def get_page_size_def Let_def 1(1) 2(1) 3(1) 4(1) 5(1) 6(1) 7(1) 8(1) unwrap_def)
  with 1(4) 2(4) 8(2) show ?thesis by auto
qed

theorem mock_starts_after_cli_witness:
  "\<exists>mh w'. mock_main demo_os (\<lambda>_ _ _ w. (Inr (), w))
     \<lparr>ma_threads_per_generator = 2, ma_xxhash_seed = 3, ma_use_huge_pages = True, ma_write_to_file = True\<rparr>
     (cli_main (os_join_or_create demo_os) ([], 0, 0)) = Some (mh, w') \<and> fst (snd w') = 1000 \<and> length (fst (mh_tpu mh)) = 2"
proof -
  let ?args = "\<lparr>ma_threads_per_generator = 2, ma_xxhash_seed = 3, ma_use_huge_pages = True, ma_write_to_file = True\<rparr>"
  have 1: "fst (snd ([], 0, 0) :: u32 \<times> u32) = 0" "os_sudo_user demo_os = Some ''sol''" "CHR 0x00 \<notin> set ''sol''"
    "getpwnam (os_sys demo_os) ''sol'' = Some (1000, 1001)"
    by (simp_all add: demo_os_def demo_sys_def)
  have 2: "\<forall>(name :: string) (len :: nat) (ps :: PageSize) (v :: demo_world). \<exists>h v'. (Inr () :: unit + unit, v) = (Inr h, v') \<and>
      set (fst v') = set (fst v) \<and> fst (snd v') = fst (snd v)" by simp
  from mock_starts_after_cli [where w = "([], 0, 0)" and args = ?args, OF demo_os_laws 1 2] show ?thesis by auto
qed

end
