(* ===== verification/Terminal_View.thy ===== *)
theory Terminal_View
  imports Engine_Ipc
begin

text \<open>
  The terminal view of the mock validator (engine-ipc/src/tui.rs): every frame loads the counters of the
  engine (\<open>EngineStats::load\<close>), reads the shared statistics of the QoS process and shows rates in millions
  per second, until the key \<open>q\<close> is pressed.

  Rates are IEEE doubles; subtractions of counters wrap, as in a release build. Terminal and keyboard
  belong to external crates: their results are inputs.
\<close>

section \<open>Keyboard\<close>

datatype key_code = KeyChar char | OtherKey

datatype event = KeyEvent key_code | OtherEvent

text \<open>\<open>should_quit\<close>, on the results of \<open>event::poll\<close> and \<open>event::read\<close>.\<close>

definition should_quit :: "'e + bool \<Rightarrow> 'e + event \<Rightarrow> 'e + bool" where
  "should_quit poll read =
     (case poll of
        Inl e \<Rightarrow> Inl e
      | Inr False \<Rightarrow> Inr False
      | Inr True \<Rightarrow>
          (case read of
             Inl e \<Rightarrow> Inl e
           | Inr (KeyEvent code) \<Rightarrow> Inr (KeyChar (CHR ''q'') = code)
           | Inr OtherEvent \<Rightarrow> Inr False))"

section \<open>One frame\<close>

definition MILLION :: f64 where "MILLION = f64_lit 1000000"

definition per_second :: "f64 \<Rightarrow> usize \<Rightarrow> f64" where
  "per_second time n = f64_div (f64_div (f64_of_u64 n) time) MILLION"

record flow_rates =
  rate_tpu :: f64
  rate_fwd :: f64
  rate_sig :: f64
  rate_sigf :: f64
  rate_ss :: f64
  rate_sch :: f64
  rate_not_sch :: f64
  rate_dedup :: f64
  rate_invalid :: f64
  rate_leaked :: f64
  rate_total :: f64

text \<open>Packets that passed the signature check, and those of them that were not scheduled.\<close>

definition passed_count :: "usize \<Rightarrow> usize \<Rightarrow> usize" where
  "passed_count recvs sends = recvs - sends"

definition not_scheduled_count :: "usize \<Rightarrow> usize \<Rightarrow> usize \<Rightarrow> usize" where
  "not_scheduled_count recvs sends sched = recvs - sends - sched"

definition dedup_count :: "Stats \<Rightarrow> usize" where
  "dedup_count st = duplicate_packets st + recently_processed st + recently_processed_queued st"

definition invalid_count :: "Stats \<Rightarrow> usize" where
  "invalid_count st =
     failed_sanitize st + failed_view st + invalid_meta_size st + invalid_packet_data st + non_ipv4 st + non_transaction_packet st"

definition draw :: "u64 \<Rightarrow> EngineStats \<Rightarrow> Stats \<Rightarrow> flow_rates" where
  "draw ms st qst =
     (let time = f64_div (f64_of_u64 ms) (f64_lit 1000)
      in \<lparr>rate_tpu = per_second time (tpu_sends st),
          rate_fwd = per_second time (fwd_sends st),
          rate_sig = per_second time (sigverify_recvs st),
          rate_sigf = per_second time (sigverify_sends st),
          rate_ss = per_second time (passed_count (sigverify_recvs st) (sigverify_sends st)),
          rate_sch = per_second time (scheduler_sends st),
          rate_not_sch =
            per_second time (not_scheduled_count (sigverify_recvs st) (sigverify_sends st) (scheduler_sends st)),
          rate_dedup = per_second time (dedup_count qst),
          rate_invalid = per_second time (invalid_count qst),
          rate_leaked = per_second time (leaked_priority qst),
          rate_total = per_second time (total_packets qst)\<rparr>)"

text \<open>
  What one turn of the loop sees: the loaded counters, the clock, what other processes did to the shared
  statistics before they are read, and the results of drawing and of the keyboard.
\<close>

record 'e frame_input =
  fi_stats :: EngineStats
  fi_now :: u64
  fi_stats_ops :: "stats_op list"
  fi_draw :: "'e + unit"
  fi_poll :: "'e + bool"
  fi_read :: "'e + event"

text \<open>
  The loop of \<open>run\<close>: the frames shown and how it ended, \<open>None\<close> while it still runs. The outer option is \<open>None\<close>
  for a panic of the clock.
\<close>

fun view_loop :: "u64 \<Rightarrow> Timer \<Rightarrow> 'e frame_input list \<Rightarrow> shared_data \<Rightarrow> (flow_rates list \<times> ('e + unit) option) option" where
  "view_loop ticks timer [] d = Some ([], None)"
| "view_loop ticks timer (i # inputs) d = do {
     ms \<leftarrow> elapsed_ms ticks (fi_now i) timer;
     let d = fold (\<lambda>op d. snd (run_op op d)) (fi_stats_ops i) d;
     let rates = draw ms (fi_stats i) (sh_stats d);
     case fi_draw i of
       Inl e \<Rightarrow> Some ([], Some (Inl e))
     | Inr _ \<Rightarrow>
         (case should_quit (fi_poll i) (fi_read i) of
            Inl e \<Rightarrow> Some ([rates], Some (Inl e))
          | Inr True \<Rightarrow> Some ([rates], Some (Inr ()))
          | Inr False \<Rightarrow> map_option (\<lambda>(frames, r). (rates # frames, r)) (view_loop ticks timer inputs d))
   }"

definition view_run :: "u64 \<Rightarrow> Timer \<Rightarrow> 'e frame_input list \<Rightarrow> shared_data \<Rightarrow> (flow_rates list \<times> ('e + unit) option) option" where
  "view_run ticks timer inputs d = view_loop ticks timer inputs (snd (run_op OpReset d))"

text \<open>The loop ends at the first frame that fails or is left with the key; it shows every frame up to then.\<close>

definition loop_end :: "'e + unit \<Rightarrow> 'e + bool \<Rightarrow> 'e + event \<Rightarrow> ('e + unit) option" where
  "loop_end drawn poll read =
     (case drawn of
        Inl e \<Rightarrow> Some (Inl e)
      | Inr _ \<Rightarrow> (case should_quit poll read of Inl e \<Rightarrow> Some (Inl e) | Inr quit \<Rightarrow> if quit then Some (Inr ()) else None))"

lemma loop_end_cases:
  obtains (not_drawn) e where "drawn = Inl e" "loop_end drawn poll read = Some (Inl e)"
  | (broken) e where "drawn = Inr ()" "should_quit poll read = Inl e" "loop_end drawn poll read = Some (Inl e)"
  | (quit) "drawn = Inr ()" "should_quit poll read = Inr True" "loop_end drawn poll read = Some (Inr ())"
  | (go_on) "drawn = Inr ()" "should_quit poll read = Inr False" "loop_end drawn poll read = None"
proof (cases drawn)
  case (Inr u)
  with that show ?thesis by (cases "should_quit poll read") (auto simp: loop_end_def split: if_splits)
qed (use not_drawn in \<open>simp add: loop_end_def\<close>)

abbreviation frame_end :: "'e frame_input \<Rightarrow> ('e + unit) option" where
  "frame_end i \<equiv> loop_end (fi_draw i) (fi_poll i) (fi_read i)"

lemma view_loop_ends:
  assumes "ticks \<noteq> 0"
  shows "\<exists>frames. view_loop ticks (RDTSC t) inputs d =
      Some (frames, case dropWhile (\<lambda>i. frame_end i = None) inputs of [] \<Rightarrow> None | i # _ \<Rightarrow> frame_end i) \<and>
    length (takeWhile (\<lambda>i. frame_end i = None) inputs) \<le> length frames \<and> length frames \<le> length inputs"
proof (induction inputs arbitrary: d)
  case (Cons i inputs)
  obtain ms where ms: "elapsed_ms ticks (fi_now i) (RDTSC t) = Some ms" using assms by (simp add: elapsed_ms_def)
  show ?case
    by (cases rule: loop_end_cases [of "fi_draw i" "fi_poll i" "fi_read i"])
      (use ms Cons.IH [of "fold (\<lambda>op d. snd (run_op op d)) (fi_stats_ops i) d"] in \<open>auto simp: Let_def\<close>)
qed simp

text \<open>
  \<open>FlowGraph::run\<close>: the results of installing the report handler and of opening the terminal (which panics on
  failure), then the loop, whose failure is unwrapped.
\<close>

datatype view_result = ViewGoesOn | ViewLeft | ViewPanics

definition flow_graph_run ::
  "'e + unit \<Rightarrow> 'e + unit \<Rightarrow> u64 \<Rightarrow> Timer \<Rightarrow> 'e frame_input list \<Rightarrow> shared_data \<Rightarrow> view_result" where
  "flow_graph_run installed opened ticks timer inputs d =
     (case (installed, opened) of
        (Inr _, Inr _) \<Rightarrow>
          (case view_run ticks timer inputs d of
             None \<Rightarrow> ViewPanics
           | Some (_, None) \<Rightarrow> ViewGoesOn
           | Some (_, Some (Inl _)) \<Rightarrow> ViewPanics
           | Some (_, Some (Inr _)) \<Rightarrow> ViewLeft)
      | _ \<Rightarrow> ViewPanics)"

lemma flow_graph_run_panics:
  assumes "ticks \<noteq> 0"
  shows "flow_graph_run installed opened ticks (RDTSC t) inputs d = ViewPanics \<longleftrightarrow>
    installed \<noteq> Inr () \<or> opened \<noteq> Inr () \<or>
    (case dropWhile (\<lambda>i. frame_end i = None) inputs of [] \<Rightarrow> False | i # _ \<Rightarrow> \<exists>e. frame_end i = Some (Inl e))"
proof -
  obtain frames where "view_run ticks (RDTSC t) inputs d =
      Some (frames, case dropWhile (\<lambda>i. frame_end i = None) inputs of [] \<Rightarrow> None | i # _ \<Rightarrow> frame_end i)"
    unfolding view_run_def using view_loop_ends [OF assms, of t inputs "snd (run_op OpReset d)"] by blast
  then show ?thesis
    by (cases installed; cases opened; cases "dropWhile (\<lambda>i. frame_end i = None) inputs")
      (simp_all add: flow_graph_run_def del: dropWhile_eq_Nil_conv split: option.split sum.split)
qed

section \<open>Counting and loading at the same time\<close>

text \<open>
  The thread of the mock validator counts in local variables and adds them to the shared counters one
  after the other; meanwhile the view loads the shared counters one after the other. The funnels add
  to theirs. One access per step, in sequentially consistent memory.
\<close>

datatype phase = Popping | AddRecvs | AddSends | AddSched

datatype outcome = Failed | Scheduled | NotScheduled

record flow_sys =
  fs_stats :: EngineStats
  fs_received :: usize
  fs_failed :: usize
  fs_sched :: usize
  fs_phase :: phase
  fs_loaded :: "usize list"

fun count_packet :: "outcome \<Rightarrow> flow_sys \<Rightarrow> flow_sys" where
  "count_packet Failed s = s\<lparr>fs_received := fs_received s + 1, fs_failed := fs_failed s + 1\<rparr>"
| "count_packet Scheduled s = s\<lparr>fs_received := fs_received s + 1, fs_sched := fs_sched s + 1\<rparr>"
| "count_packet NotScheduled s = s\<lparr>fs_received := fs_received s + 1\<rparr>"

text \<open>\<open>if received & (32 * 1024 - 1) == 0\<close>\<close>

definition after_pop :: "flow_sys \<Rightarrow> flow_sys" where
  "after_pop s = s\<lparr>fs_phase := if fs_received s AND (32 * 1024 - 1) = 0 then AddRecvs else Popping\<rparr>"

text \<open>The three additions, and the variables they clear.\<close>

definition add_recvs :: "flow_sys \<Rightarrow> flow_sys" where
  "add_recvs s = (let st = fs_stats s in
     s\<lparr>fs_stats := st\<lparr>sigverify_recvs := sigverify_recvs st + fs_received s\<rparr>, fs_received := 0, fs_phase := AddSends\<rparr>)"

definition add_sends :: "flow_sys \<Rightarrow> flow_sys" where
  "add_sends s = (let st = fs_stats s in
     s\<lparr>fs_stats := st\<lparr>sigverify_sends := sigverify_sends st + fs_failed s\<rparr>, fs_failed := 0, fs_phase := AddSched\<rparr>)"

definition add_sched :: "flow_sys \<Rightarrow> flow_sys" where
  "add_sched s = (let st = fs_stats s in
     s\<lparr>fs_stats := st\<lparr>scheduler_sends := scheduler_sends st + fs_sched s\<rparr>, fs_sched := 0, fs_phase := Popping\<rparr>)"

lemmas add_defs = add_recvs_def add_sends_def add_sched_def

lemma add_phase [simp]: "fs_phase (add_recvs s) = AddSends" "fs_phase (add_sends s) = AddSched" "fs_phase (add_sched s) = Popping"
  by (simp_all add: add_defs Let_def)

text \<open>A step is labelled with the outcomes of the packets that it counts: one for a packet, none otherwise.\<close>

inductive flow_step :: "outcome list \<Rightarrow> flow_sys \<Rightarrow> flow_sys \<Rightarrow> bool" where
  packet: "fs_phase s = Popping \<Longrightarrow> flow_step [outcome] s (after_pop (count_packet outcome s))"
| no_packet: "fs_phase s = Popping \<Longrightarrow> flow_step [] s (after_pop s)"
| recvs: "fs_phase s = AddRecvs \<Longrightarrow> flow_step [] s (add_recvs s)"
| sends: "fs_phase s = AddSends \<Longrightarrow> flow_step [] s (add_sends s)"
| sched: "fs_phase s = AddSched \<Longrightarrow> flow_step [] s (add_sched s)"
| funnel_tpu: "st = fs_stats s \<Longrightarrow> flow_step [] s (s\<lparr>fs_stats := st\<lparr>tpu_sends := tpu_sends st + n\<rparr>\<rparr>)"
| funnel_fwd: "st = fs_stats s \<Longrightarrow> flow_step [] s (s\<lparr>fs_stats := st\<lparr>fwd_sends := fwd_sends st + n\<rparr>\<rparr>)"
| load: "length (fs_loaded s) < 5 \<Longrightarrow>
    flow_step [] s (s\<lparr>fs_loaded := fs_loaded s @ [engine_stats_load (fs_stats s) ! length (fs_loaded s)]\<rparr>)"
| frame: "length (fs_loaded s) = 5 \<Longrightarrow> flow_step [] s (s\<lparr>fs_loaded := []\<rparr>)"

text \<open>A run, with the outcomes of all its packets in order.\<close>

inductive flow_run :: "outcome list \<Rightarrow> flow_sys \<Rightarrow> flow_sys \<Rightarrow> bool" where
  run_start: "flow_run [] s s"
| run_step: "flow_run outcomes s t \<Longrightarrow> flow_step l t u \<Longrightarrow> flow_run (outcomes @ l) s u"

definition flow_init :: flow_sys where
  "flow_init = \<lparr>fs_stats = zero_engine_stats, fs_received = 0, fs_failed = 0, fs_sched = 0, fs_phase = Popping, fs_loaded = []\<rparr>"

section \<open>The mock validator performs these steps\<close>

definition flow_of :: "('sv, 'sc, 'rs) mock_state \<Rightarrow> usize list \<Rightarrow> flow_sys" where
  "flow_of s loaded = \<lparr>fs_stats = mock_stats s, fs_received = mock_received s, fs_failed = mock_failed s,
     fs_sched = mock_sched s, fs_phase = Popping, fs_loaded = loaded\<rparr>"

lemma mock_packet_counts:
  assumes "mock_packet E packet s = Some s'"
  obtains outcome where "flow_of s' loaded = count_packet outcome (flow_of s loaded)"
proof -
  have "flow_of s' loaded \<in> (\<lambda>k. count_packet k (flow_of s loaded)) ` {Failed, Scheduled, NotScheduled}"
    using assms by (auto simp: mock_packet_def flow_of_def Let_def split: Option.bind_splits if_splits)
  then show ?thesis using that by blast
qed

lemma flow_next: "flow_run outcomes s t \<Longrightarrow> flow_step [] t u \<Longrightarrow> flow_run outcomes s u"
  by (metis append_Nil2 run_step)

lemma flow_first: "flow_step l s t \<Longrightarrow> flow_run l s t"
  using run_step [OF run_start] by fastforce

lemma flow_trans: "flow_run l t u \<Longrightarrow> flow_run outcomes s t \<Longrightarrow> flow_run (outcomes @ l) s u"
proof (induction rule: flow_run.induct)
  case (run_step l1 t u l2 v)
  then show ?case using flow_run.run_step [of "outcomes @ l1" s u l2 v] by simp
qed simp

lemma mock_flush_steps: "flow_run [] (after_pop (flow_of s loaded)) (flow_of (mock_flush s) loaded)"
proof (cases "fs_phase (after_pop (flow_of s loaded)) = AddRecvs")
  case True
  let ?s = "after_pop (flow_of s loaded)"
  from True have flush: "mock_received s AND (32 * 1024 - 1) = 0" by (simp add: after_pop_def flow_of_def split: if_splits)
  have "flow_step [] ?s (add_recvs ?s)" "flow_step [] (add_recvs ?s) (add_sends (add_recvs ?s))"
    "flow_step [] (add_sends (add_recvs ?s)) (add_sched (add_sends (add_recvs ?s)))"
    using True by (simp_all add: flow_step.recvs flow_step.sends flow_step.sched)
  then have "flow_run [] ?s (add_sched (add_sends (add_recvs ?s)))" by (meson flow_next run_start)
  moreover have "add_sched (add_sends (add_recvs ?s)) = flow_of (mock_flush s) loaded"
    unfolding add_defs Let_def mock_flush_def if_P [OF flush] by (simp add: flow_of_def after_pop_def)
  ultimately show ?thesis by simp
next
  case False
  then have "after_pop (flow_of s loaded) = flow_of (mock_flush s) loaded"
    by (simp add: after_pop_def flow_of_def mock_flush_def split: if_splits)
  then show ?thesis by (simp add: run_start)
qed

text \<open>Every turn of the mock validator is such a run, with one outcome when a packet was popped.\<close>

lemma mock_step_flow:
  assumes "mock_banking_step E popped s = Some s'"
  shows "\<exists>outcomes. flow_run outcomes (flow_of s loaded) (flow_of s' loaded) \<and> length outcomes = (if popped = None then 0 else 1)"
proof -
  have pop: "fs_phase (flow_of s loaded) = Popping" by (simp add: flow_of_def)
  show ?thesis
  proof (cases popped)
    case None
    with assms have "flow_run [] (flow_of s loaded) (flow_of s' loaded)"
      using flow_trans [OF mock_flush_steps [of s loaded] flow_first [OF flow_step.no_packet [OF pop]]]
      by (simp add: mock_banking_step_def)
    with None show ?thesis by auto
  next
    case (Some packet)
    with assms obtain s1 s2 where s1: "mock_packet E packet s = Some s1" and s2: "mock_record E packet s1 = Some s2"
      and s': "s' = mock_flush s2"
      by (auto simp: mock_banking_step_def split: Option.bind_splits)
    from s2 have "flow_of s2 loaded = flow_of s1 loaded" by (auto simp: mock_record_def flow_of_def split: Option.bind_splits)
    moreover from s1 obtain outcome where "flow_of s1 loaded = count_packet outcome (flow_of s loaded)"
      by (rule mock_packet_counts)
    ultimately have "flow_run [outcome] (flow_of s loaded) (flow_of s' loaded)"
      using flow_trans [OF mock_flush_steps [of s2 loaded]] flow_first [OF flow_step.packet [OF pop, of outcome]] s' by fastforce
    with Some show ?thesis by auto
  qed
qed

section \<open>Consistency of the shared counters\<close>

lemma batch_test: "r \<le> 32768 \<Longrightarrow> (of_nat r :: usize) AND (32 * 1024 - 1) = 0 \<longleftrightarrow> r = 0 \<or> r = 32768"
proof -
  assume r: "r \<le> 32768"
  have "(of_nat r :: usize) AND (32 * 1024 - 1) = take_bit 15 (of_nat r)"
    by (simp add: take_bit_eq_mask mask_eq_exp_minus_1)
  moreover have "unat (of_nat r :: usize) = r" using r by (simp add: unat_of_nat)
  then have "unat (take_bit 15 (of_nat r :: usize)) = r mod 32768"
    unfolding unsigned_take_bit_eq by (simp add: take_bit_eq_mod)
  ultimately have "(of_nat r :: usize) AND (32 * 1024 - 1) = 0 \<longleftrightarrow> r mod 32768 = 0"
    by (metis unat_eq_zero)
  also have "\<dots> \<longleftrightarrow> r = 0 \<or> r = 32768" using r by auto
  finally show ?thesis .
qed

text \<open>
  The counts behind the machine words: \<open>R\<close> received, \<open>S\<close> failed and \<open>C\<close> scheduled packets were added to the shared
  counters; \<open>r\<close>, \<open>f\<close> and \<open>c\<close> wait in the local variables.
\<close>

definition flow_counts :: "flow_sys \<Rightarrow> nat \<Rightarrow> nat \<Rightarrow> nat \<Rightarrow> nat \<Rightarrow> nat \<Rightarrow> nat \<Rightarrow> bool" where
  "flow_counts s R S C r f c \<longleftrightarrow>
     sigverify_recvs (fs_stats s) = of_nat R \<and> sigverify_sends (fs_stats s) = of_nat S \<and>
     scheduler_sends (fs_stats s) = of_nat C \<and> fs_received s = of_nat r \<and> fs_failed s = of_nat f \<and> fs_sched s = of_nat c \<and>
     (case fs_phase s of
        Popping \<Rightarrow> S + C \<le> R \<and> f + c \<le> r \<and> r < 32768
      | AddRecvs \<Rightarrow> S + C \<le> R \<and> f + c \<le> r \<and> r \<le> 32768
      | AddSends \<Rightarrow> r = 0 \<and> S + C + f + c \<le> R
      | AddSched \<Rightarrow> r = 0 \<and> f = 0 \<and> S + C + c \<le> R)"

text \<open>With the outcomes of the run so far: every packet is in a shared counter or in a local variable, exactly once.\<close>

definition flow_inv :: "outcome list \<Rightarrow> flow_sys \<Rightarrow> bool" where
  "flow_inv outcomes s \<longleftrightarrow> (\<exists>R S C r f c. flow_counts s R S C r f c \<and> R + r = length outcomes \<and>
     S + f = count_list outcomes Failed \<and> C + c = count_list outcomes Scheduled)"

lemma flow_invI:
  "flow_counts s R S C r f c \<Longrightarrow> R + r = length outcomes \<Longrightarrow> S + f = count_list outcomes Failed \<Longrightarrow>
    C + c = count_list outcomes Scheduled \<Longrightarrow> flow_inv outcomes s"
  unfolding flow_inv_def by blast

lemma flow_invE:
  assumes "flow_inv outcomes s"
  obtains R S C r f c where "flow_counts s R S C r f c" "R + r = length outcomes" "S + f = count_list outcomes Failed"
    "C + c = count_list outcomes Scheduled"
  using assms unfolding flow_inv_def by blast

lemma after_pop_counts:
  assumes "flow_counts (s\<lparr>fs_phase := AddRecvs\<rparr>) R S C r f c"
  shows "flow_counts (after_pop s) R S C r f c"
proof -
  have "r \<le> 32768" "fs_received s = of_nat r" using assms by (simp_all add: flow_counts_def)
  with assms batch_test [of r] show ?thesis by (auto simp: flow_counts_def after_pop_def)
qed

lemma count_packet_counts:
  assumes "flow_counts s R S C r f c" and "fs_phase s = Popping"
  shows "flow_counts ((count_packet outcome s)\<lparr>fs_phase := AddRecvs\<rparr>) R S C (Suc r)
    (if outcome = Failed then Suc f else f) (if outcome = Scheduled then Suc c else c)"
  using assms by (cases outcome) (simp_all add: flow_counts_def)

lemma flow_inv_step: "flow_step l s s' \<Longrightarrow> flow_inv outcomes s \<Longrightarrow> flow_inv (outcomes @ l) s'"
proof (induction rule: flow_step.induct)
  case (packet s outcome)
  from packet.prems obtain R S C r f c where c: "flow_counts s R S C r f c" "R + r = length outcomes"
    "S + f = count_list outcomes Failed" "C + c = count_list outcomes Scheduled" by (rule flow_invE)
  from after_pop_counts [OF count_packet_counts [OF c(1) packet.hyps]] show ?case
    by (rule flow_invI) (use c(2-4) in simp_all)
next
  case (no_packet s)
  from no_packet.prems obtain R S C r f c where c: "flow_counts s R S C r f c" "R + r = length outcomes"
    "S + f = count_list outcomes Failed" "C + c = count_list outcomes Scheduled" by (rule flow_invE)
  have "flow_counts (s\<lparr>fs_phase := AddRecvs\<rparr>) R S C r f c" using c(1) no_packet.hyps by (simp add: flow_counts_def)
  from after_pop_counts [OF this] show ?case by (rule flow_invI) (use c(2-4) in simp_all)
next
  case (recvs s)
  from recvs.prems obtain R S C r f c where c: "flow_counts s R S C r f c" "R + r = length outcomes"
    "S + f = count_list outcomes Failed" "C + c = count_list outcomes Scheduled" by (rule flow_invE)
  have "flow_counts (add_recvs s) (R + r) S C 0 f c" using c(1) recvs.hyps by (simp add: flow_counts_def add_defs Let_def)
  then show ?case by (rule flow_invI) (use c(2-4) in simp_all)
next
  case (sends s)
  from sends.prems obtain R S C r f c where c: "flow_counts s R S C r f c" "R + r = length outcomes"
    "S + f = count_list outcomes Failed" "C + c = count_list outcomes Scheduled" by (rule flow_invE)
  have "flow_counts (add_sends s) R (S + f) C r 0 c" using c(1) sends.hyps by (simp add: flow_counts_def add_defs Let_def)
  then show ?case by (rule flow_invI) (use c(2-4) in simp_all)
next
  case (sched s)
  from sched.prems obtain R S C r f c where c: "flow_counts s R S C r f c" "R + r = length outcomes"
    "S + f = count_list outcomes Failed" "C + c = count_list outcomes Scheduled" by (rule flow_invE)
  have "flow_counts (add_sched s) R S (C + c) r f 0" using c(1) sched.hyps by (simp add: flow_counts_def add_defs Let_def)
  then show ?case by (rule flow_invI) (use c(2-4) in simp_all)
qed (auto simp: flow_inv_def flow_counts_def)

lemma flow_inv_reachable: "flow_run outcomes s0 s \<Longrightarrow> s0 = flow_init \<Longrightarrow> flow_inv outcomes s"
proof (induction rule: flow_run.induct)
  case (run_start s)
  then have "flow_counts s 0 0 0 0 0 0" by (simp add: flow_counts_def flow_init_def zero_engine_stats_def)
  then show ?case by (rule flow_invI) simp_all
qed (use flow_inv_step in blast)

text \<open>Below \<open>2^64\<close> packets no counter wraps.\<close>

lemma flow_counts_exact:
  assumes "flow_counts s R S C r f c" "R + r < 2 ^ 64"
  shows "unat (sigverify_recvs (fs_stats s)) = R" "unat (sigverify_sends (fs_stats s)) = S"
    "unat (scheduler_sends (fs_stats s)) = C" "unat (fs_received s) = r" "unat (fs_failed s) = f" "unat (fs_sched s) = c"
    "S + C \<le> R" "r \<le> 32768"
proof -
  have b: "S + C \<le> R" "f + c \<le> R + r" "r \<le> 32768" using assms(1) by (auto simp: flow_counts_def split: phase.splits)
  then show "S + C \<le> R" "r \<le> 32768" by blast+
  have "unat (of_nat k :: usize) = k" if "k \<le> R + r" for k using that assms(2) by (simp add: unat_of_nat)
  then show "unat (sigverify_recvs (fs_stats s)) = R" "unat (sigverify_sends (fs_stats s)) = S"
    "unat (scheduler_sends (fs_stats s)) = C" "unat (fs_received s) = r" "unat (fs_failed s) = f" "unat (fs_sched s) = c"
    using assms(1) b by (simp_all add: flow_counts_def)
qed

section \<open>A frame in the middle of an update\<close>

lemma many_packets:
  assumes "flow_run outcomes flow_init s" "fs_phase s = Popping" "fs_received s = of_nat k" "k + n < 32768"
  shows "flow_run (outcomes @ replicate n NotScheduled) flow_init (s\<lparr>fs_received := of_nat (k + n)\<rparr>)"
  using assms(4)
proof (induction n)
  case 0
  have "s\<lparr>fs_received := of_nat (k + 0)\<rparr> = s" using assms(3) by (cases s) simp
  then show ?case using assms(1) by simp
next
  case (Suc n)
  let ?s = "s\<lparr>fs_received := of_nat (k + n)\<rparr>"
  have "after_pop (count_packet NotScheduled ?s) = s\<lparr>fs_received := of_nat (k + Suc n)\<rparr>"
    using batch_test [of "k + Suc n"] Suc.prems assms(2) by (simp add: after_pop_def algebra_simps)
  moreover have "flow_step [NotScheduled] ?s (after_pop (count_packet NotScheduled ?s))"
    by (rule flow_step.packet) (simp add: assms(2))
  ultimately have "flow_run ((outcomes @ replicate n NotScheduled) @ [NotScheduled]) flow_init (s\<lparr>fs_received := of_nat (k + Suc n)\<rparr>)"
    using run_step [OF Suc.IH] Suc.prems by simp
  then show ?case by (simp add: replicate_append_same)
qed

text \<open>One batch with a single failed packet, added after the view has loaded three counters.\<close>

definition one_batch :: flow_sys where
  "one_batch = \<lparr>fs_stats = zero_engine_stats\<lparr>sigverify_recvs := 32768, sigverify_sends := 1\<rparr>, fs_received = 0,
     fs_failed = 0, fs_sched = 0, fs_phase = Popping, fs_loaded = [0, 0, 0]\<rparr>"

lemma one_batch_reachable: "flow_run (Failed # replicate 32767 NotScheduled) flow_init one_batch"
proof -
  let ?z = zero_engine_stats
  let ?s = "\<lambda>r f ph l. \<lparr>fs_stats = ?z, fs_received = r, fs_failed = f, fs_sched = 0, fs_phase = ph, fs_loaded = l\<rparr>"
  have z: "engine_stats_load ?z = [0, 0, 0, 0, 0]" by (simp add: engine_stats_load_def zero_engine_stats_def)
  have "flow_run [] flow_init (?s 0 0 Popping [])" unfolding flow_init_def by (rule run_start)
  from flow_next [OF this flow_step.load] have "flow_run [] flow_init (?s 0 0 Popping [0])" by (simp add: z)
  from flow_next [OF this flow_step.load] have "flow_run [] flow_init (?s 0 0 Popping [0, 0])" by (simp add: z)
  from flow_next [OF this flow_step.load] have "flow_run [] flow_init (?s 0 0 Popping [0, 0, 0])" by (simp add: z)
  from run_step [OF this flow_step.packet [of _ Failed]] have "flow_run [Failed] flow_init (?s 1 1 Popping [0, 0, 0])"
    by (simp add: after_pop_def)
  from many_packets [OF this, of 1 32766]
  have "flow_run (Failed # replicate 32766 NotScheduled) flow_init (?s 32767 1 Popping [0, 0, 0])" by simp
  from run_step [OF this flow_step.packet [of _ NotScheduled]]
  have "flow_run (Failed # replicate (Suc 32766) NotScheduled) flow_init (?s 32768 1 AddRecvs [0, 0, 0])"
    unfolding replicate_Suc by (simp add: after_pop_def replicate_append_same)
  from flow_next [OF flow_next [OF flow_next [OF this flow_step.recvs] flow_step.sends] flow_step.sched]
  have "flow_run (Failed # replicate (Suc 32766) NotScheduled) flow_init
      (add_sched (add_sends (add_recvs (?s 32768 1 AddRecvs [0, 0, 0]))))" by simp
  moreover have "Suc 32766 = 32767" by simp
  ultimately show ?thesis by (simp only:) (simp add: add_defs zero_engine_stats_def one_batch_def)
qed

section \<open>Properties\<close>

text \<open>
  C27. The shared counters are exact and consistent at every moment: in every interleaving of the mock validator,
  the funnels and the view, and as long as fewer than \<open>2^64\<close> packets were popped, each packet is counted
  once, either in the shared counters or in the local variables that wait for the end of the batch, according to
  its outcome; never more packets are shown failed and scheduled than received; and the two differences drawn from
  counters loaded at one moment are the true ones, without wrap-around.\<close>

theorem flow_counters_consistent:
  assumes "flow_run outcomes flow_init s" and "length outcomes < 2 ^ 64"
  shows "(let recvs = sigverify_recvs (fs_stats s); sends = sigverify_sends (fs_stats s); sched = scheduler_sends (fs_stats s) in
    unat recvs + unat (fs_received s) = length outcomes \<and>
    unat sends + unat (fs_failed s) = count_list outcomes Failed \<and>
    unat sched + unat (fs_sched s) = count_list outcomes Scheduled \<and>
    unat (fs_received s) \<le> 32768 \<and> unat sends + unat sched \<le> unat recvs \<and>
    unat (passed_count recvs sends) = unat recvs - unat sends \<and>
    unat (not_scheduled_count recvs sends sched) = unat recvs - unat sends - unat sched)"
proof -
  from flow_inv_reachable [OF assms(1) refl] obtain R S C r f c where c: "flow_counts s R S C r f c"
    "R + r = length outcomes" "S + f = count_list outcomes Failed" "C + c = count_list outcomes Scheduled"
    by (rule flow_invE)
  note e = flow_counts_exact [OF c(1) assms(2) [folded c(2)]]
  let ?r = "sigverify_recvs (fs_stats s)" and ?s = "sigverify_sends (fs_stats s)" and ?c = "scheduler_sends (fs_stats s)"
  have "?s \<le> ?r" using e(1,2,7) by (simp add: word_le_nat_alt)
  then have d: "unat (?r - ?s) = R - S" using e(1,2) by (simp add: unat_sub)
  then have "?c \<le> ?r - ?s" using e(3,7) by (simp add: word_le_nat_alt)
  then have "unat (?r - ?s - ?c) = R - S - C" using d e(3) by (simp add: unat_sub)
  with d e c(2-4) show ?thesis by (simp add: passed_count_def not_scheduled_count_def Let_def)
qed

theorem flow_counters_consistent_witness:
  "flow_run (Failed # replicate 32767 NotScheduled) flow_init one_batch \<and>
   unat (sigverify_recvs (fs_stats one_batch)) = 32768 \<and>
   unat (passed_count (sigverify_recvs (fs_stats one_batch)) (sigverify_sends (fs_stats one_batch))) = 32767"
proof -
  have "length (Failed # replicate 32767 NotScheduled) < 2 ^ 64" by simp
  from flow_counters_consistent [OF one_batch_reachable this] show ?thesis
    using one_batch_reachable by (simp add: Let_def) (simp add: one_batch_def)
qed

text \<open>
  A frame can show nonsense: \<open>load\<close> reads the received packets before the failed ones, while the mock
  validator adds them in the same order. When one batch is added between the two loads, the loaded
  counters say that more packets failed than were received, and the difference wraps to almost \<open>2^64\<close>.\<close>

lemma view_difference_wraps:
  "\<exists>outcomes s. flow_run outcomes flow_init s \<and> fs_loaded s = [0, 0, 0, 1, 0] \<and>
     unat (passed_count (fs_loaded s ! 2) (fs_loaded s ! 3)) = 2 ^ 64 - 1"
proof (intro exI conjI)
  let ?t = one_batch and ?o = "Failed # replicate 32767 NotScheduled"
  from flow_next [OF one_batch_reachable flow_step.load] have "flow_run ?o flow_init (?t\<lparr>fs_loaded := [0, 0, 0, 1]\<rparr>)"
    by (simp add: engine_stats_load_def one_batch_def)
  from flow_next [OF this flow_step.load] show "flow_run ?o flow_init (?t\<lparr>fs_loaded := [0, 0, 0, 1, 0]\<rparr>)"
    by (simp add: engine_stats_load_def zero_engine_stats_def one_batch_def)
qed (simp_all add: passed_count_def unsigned_minus_1_eq_mask mask_eq_exp_minus_1)

end
