(* ===== verification/Thread_Start.thy ===== *)
theory Thread_Start
  imports Mock_Startup Terminal_View
begin

text \<open>
  The threads of the mock validator (the end of \<open>main\<close> in engine-ipc/src/main.rs, and the beginning of the
  generator threads in engine/src/lib.rs): the generators and the mock signature verification wait for the
  flag \<open>START\<close> and then open their recordings in the directory \<open>packet-data\<close>, which the main thread creates
  before it sets the flag; the main thread finally waits for the two funnels and for the mock signature
  verification. In between it runs the terminal view, if that is compiled in.

  Threads are interleaved on sequentially consistent memory. The file system is the directory and
  nothing else: a file can be created in it if it exists.
\<close>

section \<open>States and steps\<close>

datatype main_pc = MakeDir | SetStart | InView | JoinTpu | JoinFwd | JoinBanking | Exited | MainPanicked | ViewPanicked

datatype thread_pc = Waiting | Opening | Looping | Panicked | Ended

record boot =
  bt_main :: main_pc
  bt_dir :: bool
  bt_start :: bool
  bt_generators :: "thread_pc list"
  bt_tpu :: thread_pc
  bt_fwd :: thread_pc
  bt_banking :: thread_pc

definition boot_init :: "bool \<Rightarrow> nat \<Rightarrow> boot" where
  "boot_init dir generators =
     \<lparr>bt_main = MakeDir, bt_dir = dir, bt_start = False, bt_generators = replicate (2 * generators) Waiting,
      bt_tpu = Looping, bt_fwd = Looping, bt_banking = Waiting\<rparr>"

text \<open>
  The start of a recording thread: it spins on the flag, then creates its file if it records, and panics
  if that fails.
\<close>

definition recording_thread :: "bool \<Rightarrow> boot \<Rightarrow> thread_pc \<Rightarrow> thread_pc \<Rightarrow> bool" where
  "recording_thread write_to_file s pc pc' \<longleftrightarrow>
     (pc = Waiting \<and> bt_start s \<and> pc' = Opening) \<or>
     (pc = Opening \<and> pc' = (if write_to_file \<and> \<not> bt_dir s then Panicked else Looping))"

text \<open>\<open>join().unwrap()\<close>: where the main thread goes when the thread it waits for has ended or panicked.\<close>

definition join_to :: "thread_pc \<Rightarrow> main_pc \<Rightarrow> main_pc option" where
  "join_to pc next = (case pc of Ended \<Rightarrow> Some next | Panicked \<Rightarrow> Some MainPanicked | _ \<Rightarrow> None)"

text \<open>The terminal view runs only with the feature \<open>demo\<close>; without it the main thread goes on at once.\<close>

definition main_view ::
  "bool \<Rightarrow> 'e + unit \<Rightarrow> 'e + unit \<Rightarrow> u64 \<Rightarrow> Timer \<Rightarrow> 'e frame_input list \<Rightarrow> shared_data \<Rightarrow> view_result" where
  "main_view demo installed opened ticks timer inputs d =
     (if demo then flow_graph_run installed opened ticks timer inputs d else ViewLeft)"

text \<open>
  \<open>mkdir\<close> says whether the directory can be created; the failure is ignored. A funnel ends when its consumer is
  gone. \<open>view\<close> is the result of the terminal view (\<open>main_view\<close>): it is left by the user, goes on, or panics, and with it
  the main thread. \<open>fails\<close> says whether the loop of some thread can panic: a funnel without an invariant time-stamp
  counter or without generators does (\<open>fallback_timer_panics\<close>, \<open>zero_senders_pop_panics\<close>), the others do not on
  the traffic of the generators (\<open>generated_traffic_safe\<close>).

  A panic of the main thread ends the process. The other threads may still step afterwards, which only
  adds states.
\<close>

inductive boot_step :: "bool \<Rightarrow> bool \<Rightarrow> bool \<Rightarrow> view_result \<Rightarrow> boot \<Rightarrow> boot \<Rightarrow> bool" for mkdir write_to_file fails view where
  make_dir: "bt_main s = MakeDir \<Longrightarrow> boot_step mkdir write_to_file fails view s (s\<lparr>bt_main := SetStart, bt_dir := bt_dir s \<or> mkdir\<rparr>)"
| set_start: "bt_main s = SetStart \<Longrightarrow> boot_step mkdir write_to_file fails view s (s\<lparr>bt_main := InView, bt_start := True\<rparr>)"
| leave_view: "bt_main s = InView \<Longrightarrow> view = ViewLeft \<Longrightarrow> boot_step mkdir write_to_file fails view s (s\<lparr>bt_main := JoinTpu\<rparr>)"
| view_panics: "bt_main s = InView \<Longrightarrow> view = ViewPanics \<Longrightarrow> boot_step mkdir write_to_file fails view s (s\<lparr>bt_main := ViewPanicked\<rparr>)"
| join_tpu: "bt_main s = JoinTpu \<Longrightarrow> join_to (bt_tpu s) JoinFwd = Some pc \<Longrightarrow> boot_step mkdir write_to_file fails view s (s\<lparr>bt_main := pc\<rparr>)"
| join_fwd: "bt_main s = JoinFwd \<Longrightarrow> join_to (bt_fwd s) JoinBanking = Some pc \<Longrightarrow> boot_step mkdir write_to_file fails view s (s\<lparr>bt_main := pc\<rparr>)"
| join_banking: "bt_main s = JoinBanking \<Longrightarrow> join_to (bt_banking s) Exited = Some pc \<Longrightarrow> boot_step mkdir write_to_file fails view s (s\<lparr>bt_main := pc\<rparr>)"
| generator: "i < length (bt_generators s) \<Longrightarrow> recording_thread write_to_file s (bt_generators s ! i) pc \<Longrightarrow>
    boot_step mkdir write_to_file fails view s (s\<lparr>bt_generators := (bt_generators s)[i := pc]\<rparr>)"
| banking: "recording_thread write_to_file s (bt_banking s) pc \<Longrightarrow> boot_step mkdir write_to_file fails view s (s\<lparr>bt_banking := pc\<rparr>)"
| tpu_ends: "bt_tpu s = Looping \<Longrightarrow> boot_step mkdir write_to_file fails view s (s\<lparr>bt_tpu := Ended\<rparr>)"
| fwd_ends: "bt_fwd s = Looping \<Longrightarrow> boot_step mkdir write_to_file fails view s (s\<lparr>bt_fwd := Ended\<rparr>)"
| tpu_panics: "fails \<Longrightarrow> bt_tpu s = Looping \<Longrightarrow> boot_step mkdir write_to_file fails view s (s\<lparr>bt_tpu := Panicked\<rparr>)"
| fwd_panics: "fails \<Longrightarrow> bt_fwd s = Looping \<Longrightarrow> boot_step mkdir write_to_file fails view s (s\<lparr>bt_fwd := Panicked\<rparr>)"
| banking_panics: "fails \<Longrightarrow> bt_banking s = Looping \<Longrightarrow> boot_step mkdir write_to_file fails view s (s\<lparr>bt_banking := Panicked\<rparr>)"
| generator_panics: "fails \<Longrightarrow> i < length (bt_generators s) \<Longrightarrow> bt_generators s ! i = Looping \<Longrightarrow>
    boot_step mkdir write_to_file fails view s (s\<lparr>bt_generators := (bt_generators s)[i := Panicked]\<rparr>)"

abbreviation boot_reaches :: "bool \<Rightarrow> bool \<Rightarrow> bool \<Rightarrow> view_result \<Rightarrow> boot \<Rightarrow> boot \<Rightarrow> bool" where
  "boot_reaches mkdir write_to_file fails view \<equiv> (boot_step mkdir write_to_file fails view)\<^sup>*\<^sup>*"

section \<open>The invariant\<close>

definition recorders :: "boot \<Rightarrow> thread_pc set" where
  "recorders s = insert (bt_banking s) (set (bt_generators s))"

definition joined :: "boot \<Rightarrow> thread_pc set" where
  "joined s = {bt_tpu s, bt_fwd s, bt_banking s}"

text \<open>
  The flag is set only after the attempt to create the directory, recording threads leave their first
  state only after the flag, and they never end; funnels panic only if loops can.
\<close>

definition boot_inv :: "bool \<Rightarrow> bool \<Rightarrow> bool \<Rightarrow> bool \<Rightarrow> view_result \<Rightarrow> boot \<Rightarrow> bool" where
  "boot_inv dir mkdir write_to_file fails view s \<longleftrightarrow>
     (bt_dir s \<longleftrightarrow> (if bt_main s = MakeDir then dir else dir \<or> mkdir)) \<and>
     (bt_start s \<longleftrightarrow> bt_main s \<noteq> MakeDir \<and> bt_main s \<noteq> SetStart) \<and>
     (\<not> bt_start s \<longrightarrow> recorders s \<subseteq> {Waiting}) \<and> Ended \<notin> recorders s \<and>
     (Panicked \<in> recorders s \<longrightarrow> fails \<or> write_to_file \<and> \<not> dir \<and> \<not> mkdir) \<and>
     (Looping \<in> recorders s \<longrightarrow> \<not> write_to_file \<or> dir \<or> mkdir) \<and>
     bt_tpu s \<in> {Looping, Ended} \<union> {pc. fails \<and> pc = Panicked} \<and> bt_fwd s \<in> {Looping, Ended} \<union> {pc. fails \<and> pc = Panicked} \<and>
     (bt_main s = MainPanicked \<longrightarrow> Panicked \<in> joined s) \<and> bt_main s \<noteq> Exited \<and>
     (bt_main s = ViewPanicked \<longrightarrow> view = ViewPanics)"

lemma join_to_simps [simp]:
  "join_to Ended next = Some next" "join_to Panicked next = Some MainPanicked"
  "join_to Waiting next = None" "join_to Opening next = None" "join_to Looping next = None"
  by (simp_all add: join_to_def)

lemma recorders_update:
  "recorders (s\<lparr>bt_generators := (bt_generators s)[i := pc]\<rparr>) \<subseteq> insert pc (recorders s)"
  "recorders (s\<lparr>bt_banking := pc\<rparr>) \<subseteq> insert pc (recorders s)"
  using set_update_subset_insert [of "bt_generators s" i pc] by (auto simp: recorders_def)

lemma joined_main [simp]: "joined (s\<lparr>bt_main := pc\<rparr>) = joined s" "joined (s\<lparr>bt_main := pc, bt_dir := d\<rparr>) = joined s"
  "joined (s\<lparr>bt_main := pc, bt_start := f\<rparr>) = joined s"
  by (simp_all add: joined_def)

lemma joined_grows:
  assumes "bt_tpu s = Panicked \<longrightarrow> bt_tpu s' = Panicked" "bt_fwd s = Panicked \<longrightarrow> bt_fwd s' = Panicked"
    "bt_banking s = Panicked \<longrightarrow> bt_banking s' = Panicked" "Panicked \<in> joined s"
  shows "Panicked \<in> joined s'"
  using assms by (auto simp: joined_def)

text \<open>A step of a recording thread keeps what the invariant says of all of them.\<close>

lemma boot_invD:
  assumes "boot_inv dir mkdir write_to_file fails view s"
  shows "bt_dir s \<longleftrightarrow> (if bt_main s = MakeDir then dir else dir \<or> mkdir)"
    "bt_start s \<longleftrightarrow> bt_main s \<noteq> MakeDir \<and> bt_main s \<noteq> SetStart"
    "\<not> bt_start s \<Longrightarrow> recorders s \<subseteq> {Waiting}" "Ended \<notin> recorders s"
    "Panicked \<in> recorders s \<Longrightarrow> fails \<or> write_to_file \<and> \<not> dir \<and> \<not> mkdir"
    "Looping \<in> recorders s \<Longrightarrow> \<not> write_to_file \<or> dir \<or> mkdir"
    "bt_tpu s \<in> {Looping, Ended} \<union> {pc. fails \<and> pc = Panicked}" "bt_fwd s \<in> {Looping, Ended} \<union> {pc. fails \<and> pc = Panicked}"
    "bt_main s = MainPanicked \<Longrightarrow> Panicked \<in> joined s" "bt_main s \<noteq> Exited"
    "bt_main s = ViewPanicked \<Longrightarrow> view = ViewPanics"
  using assms unfolding boot_inv_def by blast+

lemma recorder_step:
  assumes inv: "boot_inv dir mkdir write_to_file fails view s" and "pc0 \<in> recorders s" "recording_thread write_to_file s pc0 pc"
  shows "bt_start s" "pc \<noteq> Ended" "pc \<noteq> Waiting" "pc = Panicked \<Longrightarrow> fails \<or> write_to_file \<and> \<not> dir \<and> \<not> mkdir"
    "pc = Looping \<Longrightarrow> \<not> write_to_file \<or> dir \<or> mkdir"
proof -
  from assms(3) consider (first) "bt_start s" "pc = Opening"
    | (second) "pc0 = Opening" "pc = (if write_to_file \<and> \<not> bt_dir s then Panicked else Looping)"
    unfolding recording_thread_def by blast
  then have "bt_start s \<and> pc \<noteq> Ended \<and> pc \<noteq> Waiting \<and> (pc = Panicked \<longrightarrow> fails \<or> write_to_file \<and> \<not> dir \<and> \<not> mkdir) \<and>
    (pc = Looping \<longrightarrow> \<not> write_to_file \<or> dir \<or> mkdir)"
  proof cases
    case second
    have start: "bt_start s" using boot_invD(3) [OF inv] assms(2) second(1) by blast
    then have "bt_dir s \<longleftrightarrow> dir \<or> mkdir" using boot_invD(1,2) [OF inv] by simp
    with start second(2) show ?thesis by simp
  qed simp
  then show "bt_start s" "pc \<noteq> Ended" "pc \<noteq> Waiting" "pc = Panicked \<Longrightarrow> fails \<or> write_to_file \<and> \<not> dir \<and> \<not> mkdir"
    "pc = Looping \<Longrightarrow> \<not> write_to_file \<or> dir \<or> mkdir" by blast+
qed

text \<open>So does the panic of a loop, if loops can panic.\<close>

lemma boot_inv_recorder:
  assumes "boot_inv dir mkdir write_to_file fails view s"
    and r: "bt_start s" "pc \<noteq> Ended" "pc = Panicked \<Longrightarrow> fails \<or> write_to_file \<and> \<not> dir \<and> \<not> mkdir"
      "pc = Looping \<Longrightarrow> \<not> write_to_file \<or> dir \<or> mkdir"
    and s': "recorders s' \<subseteq> insert pc (recorders s)" "bt_main s' = bt_main s" "bt_dir s' = bt_dir s" "bt_start s' = bt_start s"
      "bt_tpu s' = bt_tpu s" "bt_fwd s' = bt_fwd s" "bt_banking s = Panicked \<Longrightarrow> bt_banking s' = Panicked"
  shows "boot_inv dir mkdir write_to_file fails view s'"
proof -
  note inv = boot_invD [OF assms(1)]
  have "Ended \<notin> recorders s'" using inv(4) r(2) s'(1) by blast
  moreover have "Panicked \<in> recorders s' \<longrightarrow> fails \<or> write_to_file \<and> \<not> dir \<and> \<not> mkdir" using inv(5) r(3) s'(1) by blast
  moreover have "Looping \<in> recorders s' \<longrightarrow> \<not> write_to_file \<or> dir \<or> mkdir" using inv(6) r(4) s'(1) by blast
  ultimately show ?thesis using inv(1,2,7-11) r(1) s' by (auto simp: boot_inv_def joined_def)
qed

lemma boot_inv_step:
  assumes "boot_step mkdir write_to_file fails view s s'" and inv: "boot_inv dir mkdir write_to_file fails view s"
  shows "boot_inv dir mkdir write_to_file fails view s'"
  using assms(1)
proof (cases rule: boot_step.cases)
  case (generator i pc)
  have "bt_generators s ! i \<in> recorders s" using generator by (simp add: recorders_def)
  note r = recorder_step [OF inv this generator(3)]
  from boot_inv_recorder [OF inv r(1,2,4,5)] show ?thesis
    using recorders_update(1) by (simp add: generator(1))
next
  case (banking pc)
  have "bt_banking s \<in> recorders s" by (simp add: recorders_def)
  note r = recorder_step [OF inv this banking(2)]
  have "bt_banking s \<noteq> Panicked" using banking(2) by (auto simp: recording_thread_def)
  with boot_inv_recorder [OF inv r(1,2,4,5)] show ?thesis
    using recorders_update(2) by (simp add: banking(1))
next
  case banking_panics
  then have "bt_start s" using boot_invD(3) [OF inv] by (auto simp: recorders_def)
  from boot_inv_recorder [OF inv this, of Panicked] banking_panics(2) show ?thesis
    using recorders_update(2) by (simp add: banking_panics(1))
next
  case (generator_panics i)
  then have "Looping \<in> recorders s" by (metis insertCI nth_mem recorders_def)
  then have "bt_start s" using boot_invD(3) [OF inv] by blast
  from boot_inv_recorder [OF inv this, of Panicked] generator_panics(2) show ?thesis
    using recorders_update(1) by (simp add: generator_panics(1))
next
  case (join_banking pc)
  have "bt_banking s \<noteq> Ended" using boot_invD(4) [OF inv] by (auto simp: recorders_def)
  with join_banking have "pc = MainPanicked" "bt_banking s = Panicked" by (cases "bt_banking s"; simp)+
  moreover from this(2) have "Panicked \<in> joined s" by (simp add: joined_def)
  ultimately show ?thesis using inv join_banking(1,2) by (simp add: boot_inv_def recorders_def)
next
  case (join_tpu pc)
  then consider "pc = JoinFwd" | "pc = MainPanicked" "Panicked \<in> joined s"
    by (cases "bt_tpu s") (simp_all add: joined_def)
  then show ?thesis by cases (use inv join_tpu(1,2) in \<open>simp_all add: boot_inv_def recorders_def\<close>)
next
  case (join_fwd pc)
  then consider "pc = JoinBanking" | "pc = MainPanicked" "Panicked \<in> joined s"
    by (cases "bt_fwd s") (simp_all add: joined_def)
  then show ?thesis by cases (use inv join_fwd(1,2) in \<open>simp_all add: boot_inv_def recorders_def\<close>)
qed (use inv joined_grows [of s s'] in \<open>simp_all add: boot_inv_def recorders_def\<close>)

lemma boot_init_inv: "boot_inv dir mkdir write_to_file fails view (boot_init dir generators)"
  by (auto simp: boot_inv_def boot_init_def recorders_def joined_def)

lemma boot_reaches_inv:
  assumes "boot_reaches mkdir write_to_file fails view (boot_init dir generators) s"
  shows "boot_inv dir mkdir write_to_file fails view s"
  using assms by induction (auto intro: boot_init_inv boot_inv_step)

lemma main_view_panics:
  assumes "ticks \<noteq> 0" and "main_view demo installed opened ticks (RDTSC t) inputs d = ViewPanics"
  shows "demo \<and> (installed \<noteq> Inr () \<or> opened \<noteq> Inr () \<or> (\<exists>i\<in>set inputs. \<exists>e. frame_end i = Some (Inl e)))"
proof -
  from assms(2) have "demo" "flow_graph_run installed opened ticks (RDTSC t) inputs d = ViewPanics"
    by (simp_all add: main_view_def split: if_splits)
  moreover have "i \<in> set inputs" if "dropWhile P inputs = i # is" for P i "is"
    using set_dropWhileD [of i P inputs] that by simp
  ultimately show ?thesis unfolding flow_graph_run_panics [OF assms(1)] by (fastforce split: list.splits)
qed

lemma waits_for_banking:
  assumes "bt_main s = JoinBanking" "bt_banking s \<noteq> Panicked" "bt_banking s \<noteq> Ended"
    and "boot_step mkdir write_to_file fails view s s'"
  shows "bt_main s' = JoinBanking"
  using assms(4,1-3) by (cases rule: boot_step.cases) (auto simp: join_to_def split: thread_pc.splits)

section \<open>Properties\<close>

text \<open>
  C7. The recordings are opened after their directory exists: with any number of generator threads and under
  every interleaving, once the directory exists or can be created, a thread of the mock validator that is past its
  wait loop finds the flag set and the directory in place, and no such thread panics unless its loop does.
  If the directory is missing and cannot be created, which the main thread ignores, a recording thread that
  opens its file panics.\<close>

theorem recordings_opened_in_directory:
  assumes "boot_reaches mkdir write_to_file fails view (boot_init dir generators) s"
  shows "(dir \<or> mkdir \<longrightarrow> (Panicked \<in> recorders s \<longrightarrow> fails) \<and> (recorders s \<subseteq> {Waiting} \<or> bt_start s \<and> bt_dir s)) \<and>
    (\<not> dir \<and> \<not> mkdir \<and> write_to_file \<longrightarrow> Looping \<notin> recorders s)"
proof -
  note inv = boot_invD [OF boot_reaches_inv [OF assms]]
  have "dir \<or> mkdir \<longrightarrow> Panicked \<in> recorders s \<longrightarrow> fails" using inv(5) by blast
  moreover have "recorders s \<subseteq> {Waiting} \<or> bt_start s" using inv(3) by blast
  moreover have "bt_start s \<longrightarrow> (bt_dir s \<longleftrightarrow> dir \<or> mkdir)" using inv(1,2) by simp
  moreover have "\<not> dir \<and> \<not> mkdir \<and> write_to_file \<longrightarrow> Looping \<notin> recorders s" using inv(6) by blast
  ultimately show ?thesis by blast
qed

text \<open>
  C39. The mock validator never exits by itself: the main thread joins the mock signature verification, whose loop
  has no exit. When the main thread ends, it has panicked: in the terminal view, with that compiled in, because the
  report handler, the terminal, the clock, the drawing or the keyboard failed; or at a join, and then one of the
  three threads it joins has panicked (in its loop, or without a directory for its recording). Otherwise, once the
  view is left and the funnels have ended, no step of the process moves it any more.\<close>

theorem mock_never_exits:
  assumes "boot_reaches mkdir write_to_file fails (main_view demo installed opened ticks (RDTSC t) inputs d) (boot_init dir generators) s"
    and "ticks \<noteq> 0"
  shows "bt_main s \<noteq> Exited \<and>
    (bt_main s = MainPanicked \<longrightarrow> Panicked \<in> joined s) \<and>
    (Panicked \<in> joined s \<longrightarrow> fails \<or> write_to_file \<and> \<not> dir \<and> \<not> mkdir) \<and>
    (bt_main s = ViewPanicked \<longrightarrow> demo \<and> (installed \<noteq> Inr () \<or> opened \<noteq> Inr () \<or>
       (\<exists>i\<in>set inputs. \<exists>e. frame_end i = Some (Inl e)))) \<and>
    (bt_main s = JoinBanking \<and> bt_banking s \<noteq> Panicked \<longrightarrow>
       (\<forall>s'. boot_step mkdir write_to_file fails (main_view demo installed opened ticks (RDTSC t) inputs d) s s' \<longrightarrow>
          bt_main s' = JoinBanking))"
proof -
  let ?view = "main_view demo installed opened ticks (RDTSC t) inputs d"
  note inv = boot_invD [OF boot_reaches_inv [OF assms(1)]]
  have "Panicked \<in> joined s \<longrightarrow> fails \<or> write_to_file \<and> \<not> dir \<and> \<not> mkdir"
    using inv(5,7,8) by (auto simp: joined_def recorders_def)
  moreover have "bt_main s = ViewPanicked \<longrightarrow> demo \<and> (installed \<noteq> Inr () \<or> opened \<noteq> Inr () \<or>
      (\<exists>i\<in>set inputs. \<exists>e. frame_end i = Some (Inl e)))"
    using main_view_panics [OF assms(2)] inv(11) by blast
  moreover have "bt_main s' = JoinBanking"
    if "bt_main s = JoinBanking" "bt_banking s \<noteq> Panicked" "boot_step mkdir write_to_file fails ?view s s'" for s'
    using waits_for_banking [OF that(1,2) _ that(3)] inv(4) by (auto simp: recorders_def)
  ultimately show ?thesis using inv(9,10) by blast
qed

lemma boot_reaches_step:
  "boot_reaches mkdir on fails view start s \<Longrightarrow> boot_step mkdir on fails view s s' \<Longrightarrow> s' = t \<Longrightarrow> boot_reaches mkdir on fails view start t"
  by (simp add: rtranclp.rtrancl_into_rtrancl)

lemma demo_boot:
  "boot_reaches True True False ViewLeft (boot_init False 1)
     \<lparr>bt_main = JoinBanking, bt_dir = True, bt_start = True, bt_generators = [Looping, Waiting], bt_tpu = Ended,
      bt_fwd = Ended, bt_banking = Looping\<rparr>"
proof -
  let ?s = "\<lambda>m d f g t w b. \<lparr>bt_main = m, bt_dir = d, bt_start = f, bt_generators = [g, Waiting], bt_tpu = t, bt_fwd = w, bt_banking = b\<rparr>"
  let ?R = "boot_reaches True True False ViewLeft (boot_init False 1)"
  note step = boot_reaches_step and thread = recording_thread_def
  have "boot_init False 1 = ?s MakeDir False False Waiting Looping Looping Waiting"
    by (simp add: boot_init_def numeral_2_eq_2)
  then have "?R (?s MakeDir False False Waiting Looping Looping Waiting)" by (metis rtranclp.rtrancl_refl)
  then have "?R (?s SetStart True False Waiting Looping Looping Waiting)" by (rule step [OF _ make_dir]) simp_all
  then have "?R (?s InView True True Waiting Looping Looping Waiting)" by (rule step [OF _ set_start]) simp_all
  then have "?R (?s InView True True Opening Looping Looping Waiting)"
    by (rule step [OF _ generator [of 0 _ _ Opening]]) (simp_all add: thread)
  then have "?R (?s InView True True Looping Looping Looping Waiting)"
    by (rule step [OF _ generator [of 0 _ _ Looping]]) (simp_all add: thread)
  then have "?R (?s InView True True Looping Looping Looping Opening)"
    by (rule step [OF _ banking [of _ _ Opening]]) (simp_all add: thread)
  then have "?R (?s InView True True Looping Looping Looping Looping)"
    by (rule step [OF _ banking [of _ _ Looping]]) (simp_all add: thread)
  then have "?R (?s JoinTpu True True Looping Looping Looping Looping)" by (rule step [OF _ leave_view]) simp_all
  then have "?R (?s JoinTpu True True Looping Ended Looping Looping)" by (rule step [OF _ tpu_ends]) simp_all
  then have "?R (?s JoinTpu True True Looping Ended Ended Looping)" by (rule step [OF _ fwd_ends]) simp_all
  then have "?R (?s JoinFwd True True Looping Ended Ended Looping)" by (rule step [OF _ join_tpu]) simp_all
  then show ?thesis by (rule step [OF _ join_fwd]) simp_all
qed

theorem recordings_opened_in_directory_witness:
  "Panicked \<notin> recorders \<lparr>bt_main = JoinBanking, bt_dir = True, bt_start = True, bt_generators = [Looping, Waiting], bt_tpu = Ended,
      bt_fwd = Ended, bt_banking = Looping\<rparr>"
  using recordings_opened_in_directory [OF demo_boot] by simp

text \<open>The view is left with the key in its first frame; then the main thread waits for ever.\<close>

definition quit_frame :: "unit frame_input" where
  "quit_frame = \<lparr>fi_stats = zero_engine_stats, fi_now = 0, fi_stats_ops = [], fi_draw = Inr (), fi_poll = Inr True,
     fi_read = Inr (KeyEvent (KeyChar (CHR ''q'')))\<rparr>"

abbreviation quit_view :: view_result where
  "quit_view \<equiv> main_view True (Inr ()) (Inr ()) 1 (RDTSC 0) [quit_frame] demo_data"

lemma quit_view: "quit_view = ViewLeft"
  by (simp add: main_view_def flow_graph_run_def view_run_def quit_frame_def elapsed_ms_def should_quit_def Let_def)

theorem mock_never_exits_witness:
  "\<exists>s. boot_reaches True True False quit_view (boot_init False 1) s \<and>
     bt_tpu s = Ended \<and> bt_fwd s = Ended \<and> bt_main s = JoinBanking \<and>
     (\<forall>s'. boot_step True True False quit_view s s' \<longrightarrow> bt_main s' = JoinBanking)"
proof (intro exI conjI)
  show b: "boot_reaches True True False quit_view (boot_init False 1)
      \<lparr>bt_main = JoinBanking, bt_dir = True, bt_start = True, bt_generators = [Looping, Waiting],
        bt_tpu = Ended, bt_fwd = Ended, bt_banking = Looping\<rparr>"
    unfolding quit_view by (rule demo_boot)
  show "\<forall>s'. boot_step True True False quit_view
      \<lparr>bt_main = JoinBanking, bt_dir = True, bt_start = True, bt_generators = [Looping, Waiting],
        bt_tpu = Ended, bt_fwd = Ended, bt_banking = Looping\<rparr> s' \<longrightarrow> bt_main s' = JoinBanking"
    using mock_never_exits [OF b] by simp
qed simp_all

end
