(* ===== verification/Ip_Signer_Stake_Model.thy ===== *)
theory Ip_Signer_Stake_Model
  imports Ip_Signer_Model
begin

text \<open>
  The stake-weighted model of model/src/models/ip_signer_stake.rs. It repeats the code of the
  product model line by line and adds a stake lookup table: the record extends that of the product
  model, its table operations have the same bodies (shown equal below), and the score of a
  transaction is \<open>(ip_score + signer_score) * stake_score\<close>.
\<close>

section \<open>Model\<close>

record ('ms, 'mi, 'vs, 'vi) IpSignerStakeModel = "('ms, 'mi, 'vs, 'vi) IpSignerModel" +
  stake_lookup :: "u32 \<rightharpoonup> u64"
  total_stake :: u64

definition stake_model_new :: "('ms, 'mi, 'vs, 'vi) model_trees \<Rightarrow> (u32 \<times> f64) list \<Rightarrow> (pubkey \<times> f64) list
    \<Rightarrow> (u32 \<rightharpoonup> u64) \<Rightarrow> u64 \<Rightarrow> ('ms, 'mi, 'vs, 'vi) IpSignerStakeModel" where
  "stake_model_new T ip_scores signer_scores lookup total_st =
     (let (signer_score, signer_score_inverse) =
            load_scores (signer_tree T) (signer_inverse_tree T) signer_scores;
          (ip_score, ip_score_inverse) = load_scores (ip_tree T) (ip_inverse_tree T) ip_scores
      in \<lparr>signer_score = signer_score, ip_score = ip_score,
          signer_score_inverse = signer_score_inverse, ip_score_inverse = ip_score_inverse,
          stake_lookup = lookup, total_stake = total_st\<rparr>)"

definition stake_score :: "u64 \<Rightarrow> u64 \<Rightarrow> f64" where
  "stake_score stake total_st = f64_div (f64_of_u64 (stake + total_st)) (f64_of_u64 total_st)"

definition stake_of :: "('ms, 'mi, 'vs, 'vi) IpSignerStakeModel \<Rightarrow> u32 \<Rightarrow> u64" where
  "stake_of m ip = (case stake_lookup m ip of Some stake \<Rightarrow> stake | None \<Rightarrow> 0)"

definition stake_forward ::
  "('ms, 'mi, 'vs, 'vi) model_trees \<Rightarrow> ('ms, 'mi, 'vs, 'vi) IpSignerStakeModel \<Rightarrow> u32 \<Rightarrow> pubkey \<Rightarrow> f64" where
  "stake_forward T m ip signer =
     f64_mul (f64_add (ip_score_or_median T m ip) (signer_score_or_median T m signer))
       (stake_score (stake_of m ip) (total_stake m))"

definition stake_prune :: "('ms, 'mi, 'vs, 'vi) model_trees \<Rightarrow> nat \<Rightarrow> nat
    \<Rightarrow> ('ms, 'mi, 'vs, 'vi) IpSignerStakeModel \<Rightarrow> ('ms, 'mi, 'vs, 'vi) IpSignerStakeModel option" where
  "stake_prune T num_ips num_signers m = do {
     ti \<leftarrow> prune_scores (ip_tree T) (ip_inverse_tree T) num_ips (ips m);
     ts \<leftarrow> prune_scores (signer_tree T) (signer_inverse_tree T) num_signers (signers m);
     Some (set_signers ts (set_ips ti m))
   }"

definition stake_add_ip_score :: "('ms, 'mi, 'vs, 'vi) model_trees \<Rightarrow> u32 \<Rightarrow> f64
    \<Rightarrow> ('ms, 'mi, 'vs, 'vi) IpSignerStakeModel \<Rightarrow> ('ms, 'mi, 'vs, 'vi) IpSignerStakeModel" where
  "stake_add_ip_score T ip score m =
     set_ips (add_score (ip_tree T) (ip_inverse_tree T) ip score (ips m)) m"

definition stake_add_signer_score :: "('ms, 'mi, 'vs, 'vi) model_trees \<Rightarrow> pubkey \<Rightarrow> f64
    \<Rightarrow> ('ms, 'mi, 'vs, 'vi) IpSignerStakeModel \<Rightarrow> ('ms, 'mi, 'vs, 'vi) IpSignerStakeModel" where
  "stake_add_signer_score T signer score m =
     set_signers (add_score (signer_tree T) (signer_inverse_tree T) signer score (signers m)) m"

definition stake_ip_feedback :: "('ms, 'mi, 'vs, 'vi) model_trees \<Rightarrow> u32
    \<Rightarrow> ('ms, 'mi, 'vs, 'vi) IpSignerStakeModel \<Rightarrow> ('ms, 'mi, 'vs, 'vi) IpSignerStakeModel" where
  "stake_ip_feedback T ip m = set_ips (feedback_score (ip_tree T) (ip_inverse_tree T) ip (ips m)) m"

definition stake_update_model :: "('ms, 'mi, 'vs, 'vi) model_trees \<Rightarrow> 'a QoSTransactionMeta list
    \<Rightarrow> nat \<Rightarrow> nat \<Rightarrow> u64 \<times> (u32 \<rightharpoonup> u64)
    \<Rightarrow> ('ms, 'mi, 'vs, 'vi) IpSignerStakeModel \<Rightarrow> ('ms, 'mi, 'vs, 'vi) IpSignerStakeModel option" where
  "stake_update_model T transactions prune_signers prune_ips = (\<lambda>(total_st, lookup) m.
     let (signer_cands, ip_cands) = collect_candidates transactions;
         m = set_ips (update_scores (ip_tree T) (ip_inverse_tree T) ip_cands (ips m)) m;
         m = set_signers (update_scores (signer_tree T) (signer_inverse_tree T) signer_cands (signers m)) m
     in map_option (\<lambda>m. m\<lparr>total_stake := total_st, stake_lookup := lookup\<rparr>)
          (stake_prune T prune_ips prune_signers m))"

definition stake_trait_update_model :: "('ms, 'mi, 'vs, 'vi) model_trees \<Rightarrow> 'a QoSTransactionMeta list
    \<Rightarrow> u64 \<times> (u32 \<rightharpoonup> u64)
    \<Rightarrow> ('ms, 'mi, 'vs, 'vi) IpSignerStakeModel \<Rightarrow> ('ms, 'mi, 'vs, 'vi) IpSignerStakeModel option" where
  "stake_trait_update_model T transactions update_meta m =
     stake_update_model T transactions 5 5 update_meta m"

section \<open>Same table operations as the product model\<close>

lemma stake_ops_eq:
  "stake_prune = prune" "stake_add_ip_score = add_ip_score"
  "stake_add_signer_score = add_signer_score" "stake_ip_feedback = ip_feedback"
  by (simp_all add: fun_eq_iff stake_prune_def prune_def stake_add_ip_score_def add_ip_score_def
      stake_add_signer_score_def add_signer_score_def stake_ip_feedback_def ip_feedback_def)

lemma stake_update_model_eq:
  "stake_update_model T txs n_sg n_ip (total_st, lookup) m =
     map_option (\<lambda>m. m\<lparr>total_stake := total_st, stake_lookup := lookup\<rparr>)
       (prune T n_ip n_sg (update_tables T txs m))"
  by (simp add: stake_update_model_def update_tables_def stake_ops_eq Let_def split: prod.splits)

lemma set_tables_keep_stake [simp]:
  fixes m :: "('ms, 'mi, 'vs, 'vi) IpSignerStakeModel"
  shows "total_stake (set_ips t m) = total_stake m" "stake_lookup (set_ips t m) = stake_lookup m"
    "total_stake (set_signers u m) = total_stake m" "stake_lookup (set_signers u m) = stake_lookup m"
  by (simp_all add: set_ips_def set_signers_def)

section \<open>The stake multiplier\<close>

lemma round_mag_double:
  assumes "1 \<le> x"
  shows "round_mag (2 * x) = 2 * round_mag x"
proof -
  note b = floor_log2_bounds [of x]
  have "floor_log2 (2 * x) = floor_log2 x + 1"
    using b assms by (intro floor_log2_unique) (simp_all add: power_int_add)
  moreover have "0 \<le> floor_log2 x"
    using floor_log2_mono [of 1 x] floor_log2_unique [of 0 1] assms by simp
  ultimately have "ulp_exp (2 * x) = ulp_exp x + 1" by (simp add: ulp_exp_def)
  then show ?thesis using assms by (simp add: round_mag_def power_int_add)
qed

lemma stake_score_bounds:
  assumes total_st: "0 < total_st" and stake: "stake \<le> total_st" and nowrap: "unat stake + unat total_st < 2 ^ 64"
  shows "Fin 1 \<le> stake_score stake total_st" and "in_range 2 (stake_score stake total_st)"
proof -
  define s t where "s = unat stake" and "t = unat total_st"
  have ineq: "1 \<le> t" "s \<le> t" and sum: "unat (stake + total_st) = s + t"
    using total_st stake nowrap unat_plus_if' [of stake total_st]
    by (auto simp: s_def t_def word_less_nat_alt word_le_nat_alt)
  let ?s = "of_nat s :: rat" and ?t = "of_nat t :: rat"
  have t1: "1 \<le> ?t" and st: "?s \<le> ?t" using ineq by simp_all
  let ?a = "round_mag (?s + ?t)" and ?b = "round_mag ?t"
  have b: "1 \<le> ?b"
    using round_mag_mono [of 1 ?t] t1 round_mag_representable [of 1] representable_pow2 [of 0] by simp
  have ab: "?b \<le> ?a" using t1 by (intro round_mag_mono) simp_all
  have "?a \<le> round_mag (2 * ?t)" using st t1 by (intro round_mag_mono) simp_all
  then have a2: "?a \<le> 2 * ?b" by (simp add: round_mag_double [OF t1])
  have eq: "stake_score stake total_st = round_f64 (?a / ?b)"
    using b by (simp add: stake_score_def f64_of_u64_value sum flip: t_def)
  have "representable 1" "representable 2"
    using representable_pow2 [of 0] representable_pow2 [of 1] by simp_all
  moreover have "1 \<le> ?a / ?b" "?a / ?b \<le> 2" using ab a2 b by (simp_all add: pos_le_divide_eq pos_divide_le_eq)
  ultimately obtain r where "round_f64 (?a / ?b) = Fin r" "1 \<le> r" "r \<le> 2" "representable r"
    using round_between [of 1 "?a / ?b" 2] by auto
  then show "Fin 1 \<le> stake_score stake total_st" "in_range 2 (stake_score stake total_st)"
    by (simp_all add: eq)
qed

text \<open>Without any stake the multiplier of an address with no stake is not a number.\<close>

lemma stake_score_zero_total: "stake_score 0 0 = NaN"
  by (simp add: stake_score_def f64_of_u64_def f64_of_nat_def round_f64_def round_mag_def inf_of_sign_def)

lemma f64_mul_NaN [simp]: "f64_mul x NaN = NaN"
  by (cases x) simp_all

section \<open>The model implements the trait\<close>

definition stakes_ok :: "u64 \<times> (u32 \<rightharpoonup> u64) \<Rightarrow> bool" where
  "stakes_ok = (\<lambda>(total_st, lookup).
     0 < total_st \<and> unat total_st < 2 ^ 63 \<and> (\<forall>stake \<in> ran lookup. stake \<le> total_st))"

definition stake_model_ok :: "nat \<Rightarrow> nat \<Rightarrow> nat \<Rightarrow> int \<Rightarrow> ('ms, 'mi, 'vs, 'vi) tree_oks
    \<Rightarrow> ('ms, 'mi, 'vs, 'vi) model_trees \<Rightarrow> ('ms, 'mi, 'vs, 'vi) IpSignerStakeModel \<Rightarrow> bool" where
  "stake_model_ok NS NI S K Ok T m \<longleftrightarrow>
     model_ok NS NI S K Ok T m \<and> stakes_ok (total_stake m, stake_lookup m)"

lemma model_ok_set_stake [simp]:
  "model_ok NS NI S K Ok T (m\<lparr>total_stake := total_st, stake_lookup := lookup\<rparr>) \<longleftrightarrow>
   model_ok NS NI S K Ok T (m :: ('ms, 'mi, 'vs, 'vi) IpSignerStakeModel)"
  by (simp add: model_ok_def model_inv_def)

lemma stake_of_bounds:
  assumes "stakes_ok (total_stake m, stake_lookup m)"
  shows "Fin 1 \<le> stake_score (stake_of m ip) (total_stake m)"
    and "in_range 2 (stake_score (stake_of m ip) (total_stake m))"
proof -
  have "stake_of m ip \<le> total_stake m"
    using assms by (auto simp: stakes_ok_def stake_of_def ran_def split: option.splits)
  moreover from this have "unat (stake_of m ip) + unat (total_stake m) < 2 ^ 64"
    using assms by (auto simp: stakes_ok_def word_le_nat_alt)
  moreover have "0 < total_stake m" using assms by (simp add: stakes_ok_def)
  ultimately show "Fin 1 \<le> stake_score (stake_of m ip) (total_stake m)"
    "in_range 2 (stake_score (stake_of m ip) (total_stake m))"
    by (simp_all add: stake_score_bounds)
qed

lemma add_mono_left:
  assumes "in_range A x" "in_range A y" "in_range B z" "x \<le> y" "representable (A + B)"
  shows "f64_add x z \<le> f64_add y z"
proof -
  from assms obtain a b c where abc: "x = Fin a" "y = Fin b" "z = Fin c" "0 \<le> a" "a \<le> b" "b \<le> A"
    "0 \<le> c" "c \<le> B" by (auto simp: in_range_iff)
  then have le: "0 \<le> a + c" "a + c \<le> b + c" "b + c \<le> A + B" by auto
  obtain r where r: "round_f64 (b + c) = Fin r" "r = round_mag (b + c)"
    using round_between [OF order_refl representable_0 order_trans [OF le(1,2)] le(3) assms(5)] by metis
  obtain s where s: "round_f64 (a + c) = Fin s" "s = round_mag (a + c)"
    using round_between [OF order_refl representable_0 le(1) order_trans [OF le(2,3)] assms(5)] by metis
  show ?thesis using abc r s round_mag_mono [OF le(1,2)] by simp
qed

lemma doubled_powi: "2 powi K + 2 powi K = (2::rat) powi (K + 1)"
  by (simp add: power_int_add)

lemma quadrupled_powi: "2 powi (K + 1) * 2 = (2::rat) powi (K + 2)"
  by (simp add: power_int_add)

lemma score_sum_in_range:
  assumes "model_ok NS NI S K Ok T m"
  shows "in_range (2 powi (K + 1)) (f64_add (ip_score_or_median T m ip) (signer_score_or_median T m signer))"
  using add_in_range [OF lookups_in_range(1) [OF assms] lookups_in_range(2) [OF assms], of ip signer]
    model_okD(1,2) [OF assms] representable_pow2 [of "K + 1"] by (simp add: doubled_powi)

lemma stake_forward_in_range:
  assumes "stake_model_ok NS NI S K Ok T m"
  shows "in_range (2 powi (K + 2)) (stake_forward T m ip signer)"
proof -
  from assms have ok: "model_ok NS NI S K Ok T m" and st: "stakes_ok (total_stake m, stake_lookup m)"
    by (simp_all add: stake_model_ok_def)
  have "representable (2 powi (K + 1) * 2)"
    unfolding quadrupled_powi using model_okD(1,2) [OF ok] by (intro representable_pow2) simp_all
  from mul_in_range [OF score_sum_in_range [OF ok] stake_of_bounds(2) [OF st] this]
  show ?thesis by (simp add: stake_forward_def quadrupled_powi)
qed

lemma stake_feedback_lowers_forward:
  assumes "stake_model_ok NS NI S K Ok T m" and known: "ip \<in> dom (ip_score_map T m)"
  shows "stake_forward T (ip_feedback T ip m) ip signer \<le> stake_forward T m ip signer"
proof -
  from assms have ok: "model_ok NS NI S K Ok T m" and st: "stakes_ok (total_stake m, stake_lookup m)"
    by (simp_all add: stake_model_ok_def)
  note fb = feedback_lookup [OF ok known] and ok' = ip_feedback_model_ok [OF ok, of ip]
  have stake: "stake_of (ip_feedback T ip m) ip = stake_of m ip"
    "total_stake (ip_feedback T ip m) = total_stake m"
    by (simp_all add: stake_of_def ip_feedback_def)
  have rep: "representable (2 powi K + 2 powi K)" "representable (2 powi (K + 1) * 2)"
    unfolding quadrupled_powi doubled_powi using model_okD(1,2) [OF ok]
    by (simp_all add: representable_pow2)
  have "f64_add (ip_score_or_median T (ip_feedback T ip m) ip) (signer_score_or_median T m signer) \<le>
      f64_add (ip_score_or_median T m ip) (signer_score_or_median T m signer)"
    by (rule add_mono_left [OF lookups_in_range(1) [OF ok'] lookups_in_range(1) [OF ok]
          lookups_in_range(2) [OF ok] fb(1) rep(1)])
  from mul_mono_left [OF score_sum_in_range [OF ok', of ip signer, unfolded fb(2)]
      score_sum_in_range [OF ok] stake_of_bounds(2) [OF st] this rep(2)]
  show ?thesis by (simp add: stake_forward_def fb(2) stake)
qed

interpretation ip_signer_stake: qos_model "stake_forward T" "stake_trait_update_model T" "stake_ip_feedback T"
  "stake_model_ok NS NI S K Ok T" "batch_fits NS NI S K" stakes_ok "\<lambda>m ip. ip \<in> dom (ip_score_map T m)"
  "2 powi (K + 2)"
  for T NS NI S K Ok
proof
  fix m :: "('a, 'b, 'c, 'd) IpSignerStakeModel" and ip ip' signer
  assume sok: "stake_model_ok NS NI S K Ok T m"
  then have ok: "model_ok NS NI S K Ok T m" by (simp add: stake_model_ok_def)
  show "in_range (2 powi (K + 2)) (stake_forward T m ip signer)"
    using sok by (rule stake_forward_in_range)
  show "stake_model_ok NS NI S K Ok T (stake_ip_feedback T ip m)"
    using sok ip_feedback_model_ok [OF ok] by (simp add: stake_model_ok_def stake_ops_eq) (simp add: ip_feedback_def)
  show "ip' \<in> dom (ip_score_map T (stake_ip_feedback T ip m)) \<longleftrightarrow> ip' \<in> dom (ip_score_map T m)"
    unfolding stake_ops_eq by (simp only: feedback_dom [OF ok])
  show "stake_forward T (stake_ip_feedback T ip m) ip signer \<le> stake_forward T m ip signer"
    if "ip \<in> dom (ip_score_map T m)"
    unfolding stake_ops_eq using sok that by (rule stake_feedback_lowers_forward)
next
  fix m :: "('a, 'b, 'c, 'd) IpSignerStakeModel" and txs :: "'e QoSTransactionMeta list"
    and u :: "u64 \<times> (u32 \<rightharpoonup> u64)"
  assume sok: "stake_model_ok NS NI S K Ok T m" and fits: "batch_fits NS NI S K txs" and u: "stakes_ok u"
  obtain total_st lookup where ueq: "u = (total_st, lookup)" by force
  from sok have ok: "model_ok NS NI S K Ok T m" by (simp add: stake_model_ok_def)
  from prune_update_model_ok [OF ok fits model_okD(4) [OF ok] model_okD(4) [OF ok]] obtain m' where
    "prune T 5 5 (update_tables T txs m) = Some m'" "model_ok NS NI S K Ok T m'" by blast
  with u ueq show "\<exists>m'. stake_trait_update_model T txs u m = Some m' \<and> stake_model_ok NS NI S K Ok T m'"
    by (simp add: stake_trait_update_model_def stake_update_model_eq stake_model_ok_def)
qed

section \<open>Properties\<close>

text \<open>
  The stake multiplier lies between one and two, as its comment says, whenever the total stake
  is positive, the stake is a part of it and their sum fits into 64 bits.
\<close>

lemma stake_multiplier_bounds:
  assumes "0 < total_st" "stake \<le> total_st" "unat stake + unat total_st < 2 ^ 64"
  shows "Fin 1 \<le> stake_score stake total_st \<and> stake_score stake total_st \<le> Fin 2"
  using stake_score_bounds [OF assms] by (auto simp: in_range_iff)

lemma stake_multiplier_bounds_witness:
  "Fin 1 \<le> stake_score 3 7 \<and> stake_score 3 7 \<le> Fin 2"
  by (rule stake_multiplier_bounds) simp_all

text \<open>
  With a total stake of zero the multiplier is \<open>0/0\<close>: every transaction of an address without
  stake is scored NaN, which the order of \<open>OrderedFloat\<close> puts above all finite scores.
\<close>

lemma zero_total_stake_scores_nan:
  assumes "total_stake m = 0" and "stake_lookup m ip = None"
  shows "stake_forward T m ip signer = NaN \<and> Fin q < stake_forward T m ip signer"
  using assms stake_score_zero_total by (simp add: stake_forward_def stake_of_def)

lemma zero_total_stake_scores_nan_witness:
  "Fin 5 < stake_forward (alist_trees 4) (stake_model_new (alist_trees 4) [] [] Map.empty 0) 9 [1]"
  using zero_total_stake_scores_nan [of "stake_model_new (alist_trees 4) [] [] Map.empty 0" 9 "alist_trees 4" "[1]" 5]
  by (simp add: stake_model_new_def split: prod.splits)

text \<open>
  C21. The stake-weighted model under every sequence of feedback and of batches that carry a consistent stake table
  (total positive and below \<open>2 ^ 63\<close>, no stake above the total; \<open>zero_total_stake_scores_nan\<close> shows that the
  condition is needed), that fit into the trees and whose values lie in \<open>[0, 2 ^ K]\<close>, from scores in that range
  and such a table: no panic, and every score is a finite number between zero and \<open>2 ^ (K + 2)\<close>.
\<close>

theorem stake_model_events_bounded:
  assumes "stake_model_ok NS NI S K Ok T m"
    and "list_all (event_ok (batch_fits NS NI S K) stakes_ok) events"
  shows "\<exists>m'. run_events (stake_trait_update_model T) (stake_ip_feedback T) events m = Some m' \<and>
    stake_model_ok NS NI S K Ok T m' \<and>
    (\<forall>ip signer. in_range (2 powi (K + 2)) (stake_forward T m' ip signer))"
  using assms by (rule ip_signer_stake.run_events_total)

lemma stake_model_new_tables:
  "ips (stake_model_new T ipl sgl lookup total_st) = ips (model_new T ipl sgl)"
  "signers (stake_model_new T ipl sgl lookup total_st) = signers (model_new T ipl sgl)"
  "total_stake (stake_model_new T ipl sgl lookup total_st) = total_st"
  "stake_lookup (stake_model_new T ipl sgl lookup total_st) = lookup"
  by (simp_all add: stake_model_new_def model_new_def split: prod.splits)

theorem stake_model_events_bounded_witness:
  "\<exists>m'. run_events (stake_trait_update_model (alist_trees 20)) (stake_ip_feedback (alist_trees 20))
       [Feedback 9, Batch demo_batch (10, [9 \<mapsto> 4])]
       (stake_model_new (alist_trees 20) [(9, Fin 3)] [] [9 \<mapsto> 2] 5) = Some m' \<and>
     (\<forall>ip signer. in_range (2 powi (64 + 2)) (stake_forward (alist_trees 20) m' ip signer))"
proof -
  have "model_ok 20 20 5 64 (alist_oks 20) (alist_trees 20) (stake_model_new (alist_trees 20) [(9, Fin 3)] [] [9 \<mapsto> 2] 5)"
    using demo_ok stake_model_new_tables [of "alist_trees 20" "[(9, Fin 3)]" "[]" "[9 \<mapsto> 2]" 5]
    by (simp add: model_ok_def model_inv_def)
  then have "stake_model_ok 20 20 5 64 (alist_oks 20) (alist_trees 20)
      (stake_model_new (alist_trees 20) [(9, Fin 3)] [] [9 \<mapsto> 2] 5)"
    by (simp add: stake_model_ok_def stake_model_new_tables stakes_ok_def)
  moreover have "batch_fits 20 20 5 64 demo_batch"
    using value_in_range [of 1 7 "[1]" 2 "()"] by (simp add: batch_fits_def demo_batch_def)
  then have "list_all (event_ok (batch_fits 20 20 5 64) stakes_ok) [Feedback 9, Batch demo_batch (10, [9 \<mapsto> 4])]"
    by (simp add: stakes_ok_def)
  ultimately show ?thesis using stake_model_events_bounded by blast
qed

text \<open>
  C24. One update of the stake-weighted model, for any batch that fits, changes both score tables as the update of
  the product model does: each remaining score is the old one moved by the exponential average, or the mean for a new
  key with enough values, exactly \<open>min\<close> of the updated and the requested number of scores remain, and the inverse trees
  stay exact mirrors; then the new total and stake table are installed.
\<close>

theorem stake_update_correct:
  assumes "model_laws NS NI Ok T" and "model_inv Ok T m" and "room_for T NS NI txs m"
  shows "\<exists>m'. stake_update_model T txs prune_signers prune_ips (total_st, lookup) m = Some m' \<and>
    model_inv Ok T m' \<and> total_stake m' = total_st \<and> stake_lookup m' = lookup \<and>
    ip_score_map T m' \<subseteq>\<^sub>m updated_scores (approximate_median_ip_score T m)
      (batch_candidates tm_ip tm_value txs) (ip_score_map T m) \<and>
    signer_score_map T m' \<subseteq>\<^sub>m updated_scores (approximate_median_signer_score T m)
      (batch_candidates tm_signer tm_value txs) (signer_score_map T m) \<and>
    map_size (ip_score_map T m') = min (map_size (updated_scores (approximate_median_ip_score T m)
      (batch_candidates tm_ip tm_value txs) (ip_score_map T m))) prune_ips \<and>
    map_size (signer_score_map T m') = min (map_size (updated_scores (approximate_median_signer_score T m)
      (batch_candidates tm_signer tm_value txs) (signer_score_map T m))) prune_signers"
proof -
  note up = update_tables_ok [OF assms]
  obtain m' where m': "prune T prune_ips prune_signers (update_tables T txs m) = Some m'"
    "model_inv Ok T m'" "ip_score_map T m' \<subseteq>\<^sub>m ip_score_map T (update_tables T txs m)"
    "map_size (ip_score_map T m') = min (map_size (ip_score_map T (update_tables T txs m))) prune_ips"
    "signer_score_map T m' \<subseteq>\<^sub>m signer_score_map T (update_tables T txs m)"
    "map_size (signer_score_map T m') = min (map_size (signer_score_map T (update_tables T txs m))) prune_signers"
    using prune_ok [OF assms(1) up(1), of prune_ips prune_signers] by metis
  then show ?thesis
    unfolding stake_update_model_eq up(2,3) by (auto simp: model_inv_def)
qed

lemma demo_batch_ip: "t \<in> set demo_batch \<Longrightarrow> tm_ip t = 7"
proof -
  have "tm_ip (new_for_tests ip sg fee ns a) = ip" for ip sg fee ns a by (simp add: new_for_tests_def)
  then show "t \<in> set demo_batch \<Longrightarrow> tm_ip t = 7" by (auto simp: demo_batch_def)
qed

lemma demo_scores_nonempty: "min (map_size (updated_scores med (batch_candidates tm_ip tm_value demo_batch) [9 \<mapsto> Fin 3])) 1 = 1"
proof -
  define up where "up = updated_scores med (batch_candidates tm_ip tm_value demo_batch) [9 \<mapsto> Fin 3]"
  have other: "up k = None" if "k \<noteq> 9" "k \<noteq> 7" for k
  proof -
    have "filter (\<lambda>t. tm_ip t = k) demo_batch = []" unfolding filter_empty_conv using that(2) demo_batch_ip by blast
    then have "batch_candidates tm_ip tm_value demo_batch k = None" by (simp only: batch_candidates_def list.map candidate_of.simps)
    then show ?thesis using that(1) by (simp only: up_def updated_scores_def fun_upd_other option.case not_False_eq_True)
  qed
  have "up 9 \<noteq> None" by (simp only: up_def updated_scores_def fun_upd_same option.case option.distinct not_False_eq_True)
  then have "9 \<in> dom up" by (rule domIff [THEN iffD2])
  moreover have "dom up \<subseteq> {9, 7}" by (intro subsetI) (metis domIff insertCI other)
  then have "finite (dom up)" by (rule finite_subset) simp
  ultimately have "0 < card (dom up)" using card_gt_0_iff by blast
  then show ?thesis unfolding up_def by linarith
qed

theorem stake_update_correct_witness:
  "\<exists>m'. stake_update_model (alist_trees 6) demo_batch 5 1 (10, [9 \<mapsto> 4])
       (stake_model_new (alist_trees 6) [(9, Fin 3)] [] Map.empty 5) = Some m' \<and>
     total_stake m' = 10 \<and> map_size (ip_score_map (alist_trees 6) m') = 1"
proof -
  let ?m = "stake_model_new (alist_trees 6) [(9, Fin 3)] [] Map.empty 5"
  note new = model_new_ok [OF alist_model_laws, of "[(9, Fin 3)]" 6 "[]"]
    stake_model_new_tables [of "alist_trees 6" "[(9, Fin 3)]" "[]" Map.empty 5]
  have ok: "model_inv (alist_oks 6) (alist_trees 6) ?m"
    "ip_score_map (alist_trees 6) ?m = [9 \<mapsto> Fin 3]" "signer_score_map (alist_trees 6) ?m = Map.empty"
    using new by (simp_all add: model_inv_def)
  have room: "room_for (alist_trees 6) 6 6 demo_batch ?m"
    unfolding room_for_def ok(2,3) by (simp add: new_keys_def demo_batch_def)
  from stake_update_correct [OF alist_model_laws ok(1) room, of 5 1 10 "[9 \<mapsto> 4]", unfolded ok(2) demo_scores_nonempty]
  show ?thesis by blast
qed

end
