(* ===== verification/Feedback_Loop.thy ===== *)
theory Feedback_Loop
  imports Engine_Ipc
begin

text \<open>
  The loop through all processes: a packet accepted by the QoS process is answered by the mock
  validator, and the answer finds the entry that the QoS process kept for the packet, although other packets
  (and duplicates of it) were processed in between.
\<close>

section \<open>The entry of a packet\<close>

text \<open>What the QoS process remembers of a packet that it can score.\<close>

definition packet_entry :: "('v, 'tx) view_ops \<Rightarrow> Packet \<Rightarrow> QoSPartialMeta option" where
  "packet_entry W packet =
     (case meta_addr (packet_meta packet) of
        V4 ip \<Rightarrow> do {
          d \<leftarrow> packet_data W packet;
          u \<leftarrow> try_new_unsanitized W d;
          tx \<leftarrow> sanitize W u;
          payer \<leftarrow> fee_payer W tx;
          Some (meta_for W ip payer tx)
        }
      | V6 _ \<Rightarrow> None)"

text \<open>Processing a packet leaves the cache alone or stores the entry of the packet under its hash.\<close>

lemma process_stores_entry:
  assumes "view_laws W" "lru_inv N metas" "length (packet_buffer packet) = PACKET_DATA_SIZE"
    and run: "try_process_packet W T hash N packet recent m metas stats = Some (r, m', metas', stats')"
  shows "(metas' = metas \<and> (\<exists>e. r = Inl e)) \<or>
    (\<exists>h pm res. packet_hash hash packet = Some h \<and> packet_entry W packet = Some pm \<and>
      lru_put N h pm metas = Some (res, metas') \<and>
      (\<forall>st. r = Inr st \<longrightarrow> st_ipv4 st = pm_ip pm \<and>
        st_score st = packet_score (model_forward T m (pm_ip pm) (pm_signer pm)) pm))"
  using assms(1-3)
proof (cases rule: process_cases [where T = T and hash = hash and recent = recent and m = m and stats = stats])
  case (scored ip d u tx sig payer ev dup metas1)
  have "packet_entry W packet = Some (meta_for W ip payer tx)" using scored by (simp add: packet_entry_def)
  moreover have "packet_hash hash packet = Some (hash (preimage_of packet ip))"
    by (rule packet_hash_eq [OF scored(2,1)])
  moreover have "pm_ip (meta_for W ip payer tx) = ip_key ip" "pm_signer (meta_for W ip payer tx) = payer"
    by (simp_all add: meta_for_def partial_meta_new_def)
  ultimately show ?thesis using scored(9,13) run by (auto split: if_splits)
qed (use run in auto)

lemma consume_packet_entry:
  assumes "view_laws (env_view E)" "lru_inv LRU_CAP (qos_tx_partial_metas s)"
    and "length (packet_buffer packet) = PACKET_DATA_SIZE"
    and "consume_packet E (packet, now, now') s = Some s'"
  shows "qos_tx_complete_metas s' = qos_tx_complete_metas s \<and>
    (qos_tx_partial_metas s' = qos_tx_partial_metas s \<or>
     (\<exists>h pm res. packet_hash (env_hash E) packet = Some h \<and> packet_entry (env_view E) packet = Some pm \<and>
       lru_put LRU_CAP h pm (qos_tx_partial_metas s) = Some (res, qos_tx_partial_metas s')))"
proof -
  from assms(4) obtain r m metas stats where run: "try_process_packet (env_view E) (env_trees E) (env_hash E) LRU_CAP
      packet (Some (qos_recent_signatures s)) (qos_model_st s) (qos_tx_partial_metas s) (qos_stats s) =
      Some (r, m, metas, stats)"
    and "qos_tx_partial_metas s' = metas" "qos_tx_complete_metas s' = qos_tx_complete_metas s"
    by (auto simp: consume_packet_def Let_def split: Option.bind_splits sum.splits)
  with process_stores_entry [OF assms(1-3) run] show ?thesis by blast
qed

text \<open>
  The entry survives while fewer than \<open>LRU_CAP\<close> packets follow: each of them is either the packet again,
  which renews the entry, or has another hash.
\<close>

lemma consume_packet_keep:
  assumes "view_laws (env_view E)" "packet_hash (env_hash E) packet = Some h" "packet_entry (env_view E) packet = Some pm"
    and r: "lru.recent LRU_CAP h pm U (qos_tx_partial_metas s)" and card: "Suc (card U) < LRU_CAP"
    and q: "length (packet_buffer q) = PACKET_DATA_SIZE" "q = packet \<or> packet_hash (env_hash E) q \<noteq> Some h"
    and "consume_packet E (q, now, now') s = Some s'"
  obtains U' where "lru.recent LRU_CAP h pm U' (qos_tx_partial_metas s')" "card U' \<le> Suc (card U)"
proof -
  have inv: "lru_inv LRU_CAP (qos_tx_partial_metas s)" using r by (simp add: lru.recent_def)
  from consume_packet_entry [OF assms(1) inv q(1) assms(8)] consider
    "qos_tx_partial_metas s' = qos_tx_partial_metas s"
  | h' pm' res where "packet_hash (env_hash E) q = Some h'" "packet_entry (env_view E) q = Some pm'"
    "lru_put LRU_CAP h' pm' (qos_tx_partial_metas s) = Some (res, qos_tx_partial_metas s')" by blast
  then show ?thesis
  proof cases
    case 1
    with r show ?thesis by (intro that [of U]) auto
  next
    case (2 h' pm' res)
    show ?thesis
    proof (cases "q = packet")
      case True
      with 2 assms(2,3) lru.recent_start [OF inv 2(3)] show ?thesis by (intro that [of "{}"]) auto
    next
      case False
      have le: "card (insert h' U) \<le> Suc (card U)" by (rule card_insert_le_m1) simp_all
      with False q(2) 2 card have "lru.recent LRU_CAP h pm (insert h' U) (qos_tx_partial_metas s')"
        by (intro lru.recent_put [OF r _ _ 2(3)]) auto
      with le show ?thesis by (intro that)
    qed
  qed
qed

lemma consume_packets_keep:
  assumes "view_laws (env_view E)" "packet_hash (env_hash E) packet = Some h" "packet_entry (env_view E) packet = Some pm"
    and "lru.recent LRU_CAP h pm U (qos_tx_partial_metas s)" "card U + length arrivals < LRU_CAP"
    and "\<forall>(q, _) \<in> set arrivals. length (packet_buffer q) = PACKET_DATA_SIZE \<and>
      (q = packet \<or> packet_hash (env_hash E) q \<noteq> Some h)"
    and "consume_packets E n arrivals s = Some (rest, s')"
  shows "(\<exists>U. lru.recent LRU_CAP h pm U (qos_tx_partial_metas s')) \<and>
    qos_tx_complete_metas s' = qos_tx_complete_metas s"
  using assms(4-)
proof (induction arrivals arbitrary: n s U)
  case Nil
  then show ?case by (cases n) auto
next
  case (Cons a arrivals)
  obtain q now now' where a: "a = (q, now, now')" by (cases a) auto
  show ?case
  proof (cases n)
    case (Suc k)
    with Cons.prems(4) obtain s1 where
      s1: "consume_packet E a s = Some s1" "consume_packets E k arrivals s1 = Some (rest, s')"
      by (auto split: Option.bind_splits)
    have q: "length (packet_buffer q) = PACKET_DATA_SIZE" "q = packet \<or> packet_hash (env_hash E) q \<noteq> Some h"
      and inv: "lru_inv LRU_CAP (qos_tx_partial_metas s)"
      using Cons.prems(1,3) by (auto simp: a lru.recent_def)
    have tail: "\<forall>(q, _) \<in> set arrivals. length (packet_buffer q) = PACKET_DATA_SIZE \<and>
        (q = packet \<or> packet_hash (env_hash E) q \<noteq> Some h)" using Cons.prems(3) by auto
    obtain U' where "lru.recent LRU_CAP h pm U' (qos_tx_partial_metas s1)" "card U' \<le> Suc (card U)"
      by (rule consume_packet_keep [OF assms(1-3) Cons.prems(1) _ q s1(1) [unfolded a]])
        (use Cons.prems(2) in auto)
    from Cons.IH [OF this(1) _ tail s1(2)] this(2) Cons.prems(2)
      consume_packet_entry [OF assms(1) inv q(1) s1(1) [unfolded a]]
    show ?thesis by auto
  qed (use Cons.prems in auto)
qed

text \<open>
  \<open>entry_completed E s rm pm s'\<close>: the answer \<open>rm\<close> completes the entry \<open>pm\<close>, which leaves the cache and
  joins the batch or, as its 401st entry, the next model update.
\<close>

definition entry_completed :: "('ms, 'mi, 'vs, 'vi, 'v, 'tx, 'h, 'p) qos_env \<Rightarrow> ('ms, 'mi, 'vs, 'vi, 'h, 'p) qos_state
    \<Rightarrow> unit QoSRemainingMeta \<Rightarrow> QoSPartialMeta \<Rightarrow> ('ms, 'mi, 'vs, 'vi, 'h, 'p) qos_state \<Rightarrow> bool" where
  "entry_completed E s rm pm s' \<longleftrightarrow>
     consume_remaining_metas E [rm] s = Some ([], s') \<and>
     \<not> lru_contains (qos_tx_partial_metas s') (rm_packet_hash rm) \<and>
     completed (qos_stats s') = completed (qos_stats s) + 1 \<and>
     (let batch = qos_tx_complete_metas s @ [complete_entry pm rm]
      in if length (qos_tx_complete_metas s) < 400 then qos_tx_complete_metas s' = batch \<and> qos_model_st s' = qos_model_st s
         else qos_tx_complete_metas s' = [] \<and>
           update_model (env_trees E) batch (arg_max_signers E) (arg_max_ips E) (qos_model_st s) = Some (qos_model_st s'))"

lemma answer_completes:
  assumes E: "env_ok S Ok hok content E" and s: "qos_inv S Ok hok content E s"
    and hit: "map_of (entries (qos_tx_partial_metas s)) (rm_packet_hash rm) = Some pm"
  obtains s' where "entry_completed E s rm pm s'"
proof -
  let ?batch = "qos_tx_complete_metas s @ [complete_entry pm rm]"
  obtain rest s2 where run: "consume_remaining_metas E [rm] s = Some (rest, s2)"
    using consume_remaining_metas_ok [OF E s] by blast
  let ?um = "update_model (env_trees E) ?batch (arg_max_signers E) (arg_max_ips E) (qos_model_st s)"
  let ?step = "\<lambda>s'. if length (qos_tx_complete_metas s) < 400 then consume_remaining_metas E [] s'
    else map_option (\<lambda>model. ([], s'\<lparr>qos_model_st := model, qos_tx_complete_metas := [],
      qos_files := save_ip_scores (env_disk E) (env_trees E) model ''scores'' (qos_files s)\<rparr>)) ?um"
  from completed_entry_step [OF qos_invD(2) [OF s] hit, of E "[]"] obtain metas' s' where
    gone: "\<not> lru_contains metas' (rm_packet_hash rm)"
    and s': "s' = s\<lparr>qos_tx_partial_metas := metas', qos_tx_complete_metas := ?batch,
      qos_stats := (qos_stats s)\<lparr>completed := completed (qos_stats s) + 1\<rparr>\<rparr>"
    and step: "consume_remaining_metas E [rm] s = ?step s'"
    unfolding Let_def by blast
  show ?thesis
  proof (cases "length (qos_tx_complete_metas s) < 400")
    case True
    with step have "consume_remaining_metas E [rm] s = Some ([], s')" by (simp only: if_True consume_remaining_metas.simps)
    then show ?thesis by (intro that [of s'] entry_completed_def [THEN iffD2]) (simp add: True gone s' del: consume_remaining_metas.simps)
  next
    case False
    from step run have "?step s' = Some (rest, s2)" by (rule subst)
    then obtain model where model: "?um = Some model"
      unfolding if_not_P [OF False] map_option_eq_Some by blast
    with step False have "consume_remaining_metas E [rm] s = Some ([], s'\<lparr>qos_model_st := model, qos_tx_complete_metas := [],
      qos_files := save_ip_scores (env_disk E) (env_trees E) model ''scores'' (qos_files s)\<rparr>)"
      by (simp only: if_False option.map)
    then show ?thesis
      by (intro that [of "s'\<lparr>qos_model_st := model, qos_tx_complete_metas := [],
      qos_files := save_ip_scores (env_disk E) (env_trees E) model ''scores'' (qos_files s)\<rparr>"] entry_completed_def [THEN iffD2])
        (simp add: False gone s' model del: consume_remaining_metas.simps)
  qed
qed

text \<open>The entry of an accepted packet survives fewer than \<open>2^20\<close> further packets.\<close>

lemma entry_survives:
  assumes E: "env_ok S Ok hok content E" and s: "qos_inv S Ok hok content E s"
    and len: "length (packet_buffer packet) = PACKET_DATA_SIZE"
    and acc: "try_process_packet (env_view E) (env_trees E) (env_hash E) LRU_CAP packet (Some (qos_recent_signatures s))
      (qos_model_st s) (qos_tx_partial_metas s) (qos_stats s) = Some (Inr st, m', metas', stats')"
    and few: "length later < LRU_CAP"
    and later: "\<forall>(q, _) \<in> set later. length (packet_buffer q) = PACKET_DATA_SIZE \<and>
      (q = packet \<or> packet_hash (env_hash E) q \<noteq> packet_hash (env_hash E) packet)"
  obtains s1 h pm U where "consume_packets E (Suc (length later)) ((packet, now, now') # later) s = Some ([], s1)"
    "qos_inv S Ok hok content E s1" "packet_hash (env_hash E) packet = Some h" "packet_entry (env_view E) packet = Some pm"
    "st_ipv4 st = pm_ip pm"
    "st_score st = packet_score (model_forward (env_trees E) (qos_model_st s) (pm_ip pm) (pm_signer pm)) pm"
    "lru.recent LRU_CAP h pm U (qos_tx_partial_metas s1)"
proof -
  have W: "view_laws (env_view E)" using E by (simp add: env_ok_def)
  note inv = qos_invD(2) [OF s]
  from process_stores_entry [OF W inv len acc] obtain h pm res where e:
    "packet_hash (env_hash E) packet = Some h" "packet_entry (env_view E) packet = Some pm"
    "lru_put LRU_CAP h pm (qos_tx_partial_metas s) = Some (res, metas')" "st_ipv4 st = pm_ip pm"
    "st_score st = packet_score (model_forward (env_trees E) (qos_model_st s) (pm_ip pm) (pm_signer pm)) pm" by auto
  obtain s0 where s0: "consume_packet E (packet, now, now') s = Some s0" "qos_inv S Ok hok content E s0"
    using consume_packet_ok [OF E s len] by blast
  have metas0: "qos_tx_partial_metas s0 = metas'"
    using s0(1) acc by (auto simp: consume_packet_def Let_def split: Option.bind_splits)
  obtain s1 where s1: "consume_packets E (length later) later s0 = Some ([], s1)" "qos_inv S Ok hok content E s1"
    using consume_packets_ok [OF E s0(2), of later "length later"] later by fastforce
  have "\<exists>U. lru.recent LRU_CAP h pm U (qos_tx_partial_metas s1)"
    using consume_packets_keep [OF W e(1,2) lru.recent_start [OF inv e(3), folded metas0] _ _ s1(1)] few later e(1)
      consume_packet_entry [OF W inv len s0(1)] by auto
  with e s0(1) s1 show ?thesis by (auto intro: that)
qed

text \<open>The key alone survives whatever the packets in between are, even one with the same hash.\<close>

lemma consume_packet_keeps_key:
  assumes "view_laws (env_view E)" and r: "lru.recent LRU_CAP h pm U (qos_tx_partial_metas s)" and card: "Suc (card U) < LRU_CAP"
    and q: "length (packet_buffer q) = PACKET_DATA_SIZE" and run: "consume_packet E (q, now, now') s = Some s'"
  shows "\<exists>pm U'. lru.recent LRU_CAP h pm U' (qos_tx_partial_metas s') \<and> card U' \<le> Suc (card U)"
proof -
  have inv: "lru_inv LRU_CAP (qos_tx_partial_metas s)" using r by (simp add: lru.recent_def)
  from consume_packet_entry [OF assms(1) inv q run] consider
    "qos_tx_partial_metas s' = qos_tx_partial_metas s"
  | h' pm' res where "lru_put LRU_CAP h' pm' (qos_tx_partial_metas s) = Some (res, qos_tx_partial_metas s')" by blast
  then show ?thesis
  proof cases
    case 1
    with r show ?thesis by fastforce
  next
    case (2 h' pm' res)
    show ?thesis
    proof (cases "h' = h")
      case True
      with lru.recent_start [OF inv 2] show ?thesis by fastforce
    next
      case False
      have "card (insert h' U) \<le> Suc (card U)" by (rule card_insert_le_m1) simp_all
      moreover with False card have "lru.recent LRU_CAP h pm (insert h' U) (qos_tx_partial_metas s')"
        by (intro lru.recent_put [OF r _ _ 2]) auto
      ultimately show ?thesis by blast
    qed
  qed
qed

lemma consume_packet_signatures: "consume_packet E a s = Some s' \<Longrightarrow> qos_recent_signatures s' = qos_recent_signatures s"
  by (cases a) (auto simp: consume_packet_def Let_def split: Option.bind_splits sum.splits)

lemma consume_packets_keep_key:
  assumes "view_laws (env_view E)"
    and "lru.recent LRU_CAP h pm U (qos_tx_partial_metas s)" "card U + length arrivals < LRU_CAP"
    and "\<forall>(q, _) \<in> set arrivals. length (packet_buffer q) = PACKET_DATA_SIZE"
    and "consume_packets E n arrivals s = Some (rest, s')"
  shows "lru_contains (qos_tx_partial_metas s') h \<and> qos_recent_signatures s' = qos_recent_signatures s"
  using assms(2-)
proof (induction arrivals arbitrary: n s U pm)
  case Nil
  then show ?case using lru.recent_contains by (cases n) auto
next
  case (Cons a arrivals)
  obtain q now now' where a: "a = (q, now, now')" by (cases a) auto
  show ?case
  proof (cases n)
    case 0
    with Cons.prems(1,4) show ?thesis using lru.recent_contains by auto
  next
    case (Suc k)
    with Cons.prems(4) obtain s1 where s1: "consume_packet E a s = Some s1" "consume_packets E k arrivals s1 = Some (rest, s')"
      by (auto split: Option.bind_splits)
    obtain pm' U' where "lru.recent LRU_CAP h pm' U' (qos_tx_partial_metas s1)" "card U' \<le> Suc (card U)"
      using consume_packet_keeps_key [OF assms(1) Cons.prems(1) _ _ s1(1) [unfolded a]] Cons.prems(2,3) a by auto
    with Cons.IH [OF this(1) _ _ s1(2)] Cons.prems(2,3) consume_packet_signatures [OF s1(1)] show ?thesis by auto
  qed
qed

lemma accepted_key_stays:
  assumes E: "env_ok S Ok hok content E" and s: "qos_inv S Ok hok content E s"
    and len: "length (packet_buffer packet) = PACKET_DATA_SIZE"
    and acc: "try_process_packet (env_view E) (env_trees E) (env_hash E) LRU_CAP packet (Some (qos_recent_signatures s))
      (qos_model_st s) (qos_tx_partial_metas s) (qos_stats s) = Some (Inr st, m', metas', stats')"
    and few: "length later < LRU_CAP" and later: "\<forall>(q, _) \<in> set later. length (packet_buffer q) = PACKET_DATA_SIZE"
  obtains s1 h where "consume_packets E (Suc (length later)) ((packet, now, now') # later) s = Some ([], s1)"
    "qos_inv S Ok hok content E s1" "packet_hash (env_hash E) packet = Some h"
    "lru_contains (qos_tx_partial_metas s1) h" "qos_recent_signatures s1 = qos_recent_signatures s"
proof -
  have W: "view_laws (env_view E)" using E by (simp add: env_ok_def)
  note inv = qos_invD(2) [OF s]
  from process_stores_entry [OF W inv len acc] obtain h pm res where e:
    "packet_hash (env_hash E) packet = Some h" "lru_put LRU_CAP h pm (qos_tx_partial_metas s) = Some (res, metas')" by auto
  obtain s0 where s0: "consume_packet E (packet, now, now') s = Some s0" "qos_inv S Ok hok content E s0"
    using consume_packet_ok [OF E s len] by blast
  have metas0: "qos_tx_partial_metas s0 = metas'"
    using s0(1) acc by (auto simp: consume_packet_def Let_def split: Option.bind_splits)
  obtain s1 where s1: "consume_packets E (length later) later s0 = Some ([], s1)" "qos_inv S Ok hok content E s1"
    using consume_packets_ok [OF E s0(2), of later "length later"] later by fastforce
  have "lru_contains (qos_tx_partial_metas s1) h \<and> qos_recent_signatures s1 = qos_recent_signatures s0"
    by (rule consume_packets_keep_key [OF W lru.recent_start [OF inv e(2), folded metas0] _ later s1(1)]) (simp add: few)
  with e(1) s0(1) s1 consume_packet_signatures [OF s0(1)] show ?thesis by (intro that [of s1 h]) auto
qed

lemma demo_start_accepts:
  obtains st m' metas' stats' where
    "try_process_packet (env_view demo_env) (env_trees demo_env) (env_hash demo_env) LRU_CAP (demo_packet [7] (Ipv4Addr 10 0 0 1) 80)
      (Some (qos_recent_signatures (qos_start demo_env [] 1000000 (Some demo_data) 0 0)))
      (qos_model_st (qos_start demo_env [] 1000000 (Some demo_data) 0 0))
      (qos_tx_partial_metas (qos_start demo_env [] 1000000 (Some demo_data) 0 0))
      (qos_stats (qos_start demo_env [] 1000000 (Some demo_data) 0 0)) = Some (Inr st, m', metas', stats')"
proof -
  let ?s = "qos_start demo_env [] 1000000 (Some demo_data) 0 0"
  have inv: "lru_inv LRU_CAP (lru_new LRU_CAP :: sig_cache)" "entries (lru_new LRU_CAP :: sig_cache) = []"
    by (simp_all add: lru_new_inv lru_new_entries LRU_CAP_def)
  then have fresh: "not_recent (Some (lru_new LRU_CAP)) (u64_key (7 # replicate 63 0))"
    using lru.contains_ok [OF inv(1)] by (simp add: not_recent_def)
  show ?thesis
    by (rule demo_process [OF _ fresh, where N = LRU_CAP and T = "alist_trees MODEL_CAP" and m = "qos_model_st ?s"
          and stats = "qos_stats ?s"])
      (use that in \<open>simp_all add: qos_start_def demo_env_def LRU_CAP_def\<close>)
qed

section \<open>Properties\<close>

text \<open>
  C4. Feedback reaches the model: when the QoS process accepted a packet and then processed fewer than
  \<open>2^20\<close> further packets (duplicates of it, or packets with other hashes), the mock validator answers the
  packet in one turn, and the QoS process uses the answer for exactly the sender and the fee payer it
  scored. A badly signed packet punishes its sender; any other completes the entry that the packet was
  scored with, which joins the batch or, as the 401st, is part of the next model update.\<close>

theorem feedback_reaches_model:
  assumes E: "env_ok S Ok hok content E" and s: "qos_inv S Ok hok content E s"
    and len: "length (packet_buffer packet) = PACKET_DATA_SIZE"
    and acc: "try_process_packet (env_view E) (env_trees E) (env_hash E) LRU_CAP packet (Some (qos_recent_signatures s))
      (qos_model_st s) (qos_tx_partial_metas s) (qos_stats s) = Some (Inr st, m', metas', stats')"
    and few: "length later < LRU_CAP"
    and later: "\<forall>(q, _) \<in> set later. length (packet_buffer q) = PACKET_DATA_SIZE \<and>
      (q = packet \<or> packet_hash (env_hash E) q \<noteq> packet_hash (env_hash E) packet)"
    and M: "mock_view M = env_view E" "mock_hash M = env_hash E"
      "\<forall>v tx. sanitize (env_view E) v = Some tx \<longrightarrow> mock_view_signatures M v = tx_signatures (env_view E) tx"
  shows "\<exists>s1 ms1. consume_packets E (Suc (length later)) ((packet, now, now') # later) s = Some ([], s1) \<and>
    mock_banking_step M (Some packet) ms = Some ms1 \<and>
    (if last (packet_buffer packet) \<noteq> 0
     then sig_qos_producer ms1 = out_push (mock_sig_ops M) packet (sig_qos_producer ms) \<and>
       consume_sigverify_signals E [packet] s1 =
         Some (s1\<lparr>qos_model_st := ip_feedback (env_trees E) (st_ipv4 st) (qos_model_st s1)\<rparr>)
     else \<exists>rm pm s2. entry_completed E s1 rm pm s2 \<and>
       sch_qos_producer ms1 =
         (let sent = out_push (mock_sch_ops M) rm (sch_qos_producer ms)
          in if rm_execution_nanos rm = 0 then sent else out_sync (mock_sch_ops M) sent) \<and>
       packet_entry (env_view E) packet = Some pm \<and> pm_ip pm = st_ipv4 st \<and>
       st_score st = packet_score (model_forward (env_trees E) (qos_model_st s) (pm_ip pm) (pm_signer pm)) pm)"
    (is "\<exists>s1 ms1. ?run s1 \<and> ?step ms1 \<and> (if ?bad then ?punish s1 ms1 else ?complete s1 ms1)")
proof -
  have W: "view_laws (env_view E)" using E by (simp add: env_ok_def)
  obtain s1 h pm U where run: "consume_packets E (Suc (length later)) ((packet, now, now') # later) s = Some ([], s1)"
    and s1: "qos_inv S Ok hok content E s1" and e: "packet_hash (env_hash E) packet = Some h" "packet_entry (env_view E) packet = Some pm"
      "st_ipv4 st = pm_ip pm"
      "st_score st = packet_score (model_forward (env_trees E) (qos_model_st s) (pm_ip pm) (pm_signer pm)) pm"
    and hit: "lru.recent LRU_CAP h pm U (qos_tx_partial_metas s1)"
    by (rule entry_survives [OF E s len acc few later])
  note inv = qos_invD(2) [OF s]
  from mock_step_accepted [OF W inv len acc M, of ms] obtain ms1 where
    step: "mock_banking_step M (Some packet) ms = Some ms1" and ans: "mock_answer M metas' st packet ms ms1" by blast
  show ?thesis
  proof (cases "last (packet_buffer packet) = 0")
    case False
    obtain ip where "meta_addr (packet_meta packet) = V4 ip" "ip_key ip = pm_ip pm"
      using e(2) by (auto simp: packet_entry_def meta_for_def partial_meta_new_def split: IpAddr.splits Option.bind_splits)
    then have "consume_sigverify_signals E [packet] s1 =
        Some (s1\<lparr>qos_model_st := ip_feedback (env_trees E) (st_ipv4 st) (qos_model_st s1)\<rparr>)"
      by (simp add: process_failed_sigverify_def e(3))
    with run step ans False show ?thesis by (simp add: mock_answer_def)
  next
    case True
    with ans e(1) obtain rm where rm: "rm_packet_hash rm = h"
      "sch_qos_producer ms1 = (let sent = out_push (mock_sch_ops M) rm (sch_qos_producer ms)
         in if rm_execution_nanos rm = 0 then sent else out_sync (mock_sch_ops M) sent)"
      by (auto simp: mock_answer_def M(2) Let_def split: if_splits)
    from hit have "map_of (entries (qos_tx_partial_metas s1)) (rm_packet_hash rm) = Some pm"
      unfolding rm(1) by (rule lru.recent_map_of)
    with E s1 obtain s2 where "entry_completed E s1 rm pm s2" by (rule answer_completes)
    with rm(2) e(2-4) have "?complete s1 ms1" by metis
    with run step True show ?thesis by (intro exI [of _ s1] exI [of _ ms1]) (simp only: if_False simp_thms)
  qed
qed

theorem feedback_reaches_model_witness:
  "\<exists>s1 ms1 rm pm s2. let p = demo_packet [7] (Ipv4Addr 10 0 0 1) 80 in
     consume_packets demo_env 2 [(p, 5000, 5001), (p, 6000, 6001)] (qos_start demo_env [] 1000000 (Some demo_data) 0 0) =
       Some ([], s1) \<and>
     mock_banking_step demo_mock (Some p) demo_mock_state = Some ms1 \<and> sch_qos_producer ms1 = [rm] \<and>
     entry_completed demo_env s1 rm pm s2 \<and> pm_ip pm = ip_key (Ipv4Addr 10 0 0 1)"
proof -
  let ?p = "demo_packet [7] (Ipv4Addr 10 0 0 1) 80" and ?s = "qos_start demo_env [] 1000000 (Some demo_data) 0 0"
  have len: "length (packet_buffer ?p) = PACKET_DATA_SIZE"
    by (rule demo_packet_buffer) (simp add: PACKET_DATA_SIZE_def)
  obtain st m' metas' stats' where acc: "try_process_packet (env_view demo_env) (env_trees demo_env) (env_hash demo_env)
      LRU_CAP ?p (Some (qos_recent_signatures ?s)) (qos_model_st ?s) (qos_tx_partial_metas ?s) (qos_stats ?s) =
      Some (Inr st, m', metas', stats')"
    by (rule demo_start_accepts)
  have M: "mock_view demo_mock = env_view demo_env" "mock_hash demo_mock = env_hash demo_env"
    "\<forall>v tx. sanitize (env_view demo_env) v = Some tx \<longrightarrow> mock_view_signatures demo_mock v = tx_signatures (env_view demo_env) tx"
    by (auto simp: demo_mock_def demo_env_def demo_view_def split: if_splits)
  have few: "length [(?p, 6000 :: u64, 6001 :: u64)] < LRU_CAP" by (simp add: LRU_CAP_def)
  have later: "\<forall>(q, _) \<in> set [(?p, 6000 :: u64, 6001 :: u64)]. length (packet_buffer q) = PACKET_DATA_SIZE \<and>
      (q = ?p \<or> packet_hash (env_hash demo_env) q \<noteq> packet_hash (env_hash demo_env) ?p)"
    using len by simp
  have last: "last (packet_buffer ?p) = 0" by (simp add: demo_packet_def PACKET_DATA_SIZE_def)
  have entry: "pm_ip pm = ip_key (Ipv4Addr 10 0 0 1)" if "packet_entry (env_view demo_env) ?p = Some pm" for pm
    using that by (auto simp: packet_entry_def demo_packet_def meta_for_def partial_meta_new_def split: Option.bind_splits)
  have out: "out_push (mock_sch_ops demo_mock) x q = q @ [x]" "out_sync (mock_sch_ops demo_mock) q = q"
    "sch_qos_producer demo_mock_state = []" for x q by (simp_all add: demo_mock_def demo_mock_state_def)
  have two: "Suc (length [(?p, 6000 :: u64, 6001 :: u64)]) = 2" by simp
  from feedback_reaches_model [OF demo_env_ok qos_start_ok [OF demo_env_ok] len acc few later M, of 5000 5001 demo_mock_state,
      unfolded two] last entry
  show ?thesis unfolding Let_def out by (simp only: if_False simp_thms if_cancel append_Nil) blast
qed

text \<open>
  C29. A resent packet is a duplicate: when the QoS process accepted a packet and then processed fewer than \<open>2^20\<close>
  further packets, whatever they are, a packet with the same buffer, size, data and sender address (any port) is
  counted as a duplicate and changes nothing but the statistics and the order of the cache: it is not queued, and its hash
  stays cached. In between neither results are consumed, which would take the entry out of the cache, nor recent
  signatures, which would change the reason of the rejection.\<close>

theorem resent_packet_is_duplicate:
  assumes E: "env_ok S Ok hok content E" and s: "qos_inv S Ok hok content E s"
    and len: "length (packet_buffer packet) = PACKET_DATA_SIZE"
    and acc: "try_process_packet (env_view E) (env_trees E) (env_hash E) LRU_CAP packet (Some (qos_recent_signatures s))
      (qos_model_st s) (qos_tx_partial_metas s) (qos_stats s) = Some (Inr st, m', metas', stats')"
    and few: "length later < LRU_CAP" and later: "\<forall>(q, _) \<in> set later. length (packet_buffer q) = PACKET_DATA_SIZE"
    and same: "packet_buffer resent = packet_buffer packet" "meta_size (packet_meta resent) = meta_size (packet_meta packet)"
      "meta_addr (packet_meta resent) = meta_addr (packet_meta packet)"
      "packet_data (env_view E) resent = packet_data (env_view E) packet"
  shows "\<exists>s1 metas'' h. consume_packets E (Suc (length later)) ((packet, now, now') # later) s = Some ([], s1) \<and>
    consume_packet E (resent, t, t') s1 = Some (s1\<lparr>qos_tx_partial_metas := metas'',
      qos_stats := (counted (qos_stats s1))\<lparr>duplicate_packets := duplicate_packets (qos_stats s1) + 1\<rparr>\<rparr>) \<and>
    packet_hash (env_hash E) resent = Some h \<and> lru_contains metas'' h"
proof -
  have W: "view_laws (env_view E)" using E by (simp add: env_ok_def)
  obtain s1 h where run: "consume_packets E (Suc (length later)) ((packet, now, now') # later) s = Some ([], s1)"
    and s1: "qos_inv S Ok hok content E s1" and h: "packet_hash (env_hash E) packet = Some h"
    and known: "lru_contains (qos_tx_partial_metas s1) h" and sigs: "qos_recent_signatures s1 = qos_recent_signatures s"
    by (rule accepted_key_stays [OF E s len acc few later])
  from known_packet_is_duplicate [OF W qos_invD(2) [OF s] qos_invD(2) [OF s1] len acc same h known] obtain metas'' where
    dup: "try_process_packet (env_view E) (env_trees E) (env_hash E) LRU_CAP resent (Some (qos_recent_signatures s1))
      (qos_model_st s1) (qos_tx_partial_metas s1) (qos_stats s1) = Some (Inl DuplicatePacket, qos_model_st s1, metas'',
      (counted (qos_stats s1))\<lparr>duplicate_packets := duplicate_packets (qos_stats s1) + 1\<rparr>)" "lru_contains metas'' h"
    unfolding sigs by blast
  have "packet_hash (env_hash E) resent = packet_hash (env_hash E) packet" using same(1-3) by (rule same_packet_hash)
  with run h dup show ?thesis by (auto simp: consume_packet_def Let_def)
qed

theorem resent_packet_is_duplicate_witness:
  "\<exists>s1 metas''. let p = \<lambda>port. demo_packet [7] (Ipv4Addr 10 0 0 1) port in
     consume_packets demo_env 2 [(p 80, 5000, 5001), (p 80, 6000, 6001)] (qos_start demo_env [] 1000000 (Some demo_data) 0 0) =
       Some ([], s1) \<and>
     consume_packet demo_env (p 443, 7000, 7001) s1 = Some (s1\<lparr>qos_tx_partial_metas := metas'',
       qos_stats := (counted (qos_stats s1))\<lparr>duplicate_packets := duplicate_packets (qos_stats s1) + 1\<rparr>\<rparr>)"
proof -
  let ?p = "demo_packet [7] (Ipv4Addr 10 0 0 1) 80" and ?q = "demo_packet [7] (Ipv4Addr 10 0 0 1) 443"
    and ?s = "qos_start demo_env [] 1000000 (Some demo_data) 0 0"
  have len: "length (packet_buffer ?p) = PACKET_DATA_SIZE"
    by (rule demo_packet_buffer) (simp add: PACKET_DATA_SIZE_def)
  obtain st m' metas' stats' where acc: "try_process_packet (env_view demo_env) (env_trees demo_env) (env_hash demo_env)
      LRU_CAP ?p (Some (qos_recent_signatures ?s)) (qos_model_st ?s) (qos_tx_partial_metas ?s) (qos_stats ?s) =
      Some (Inr st, m', metas', stats')"
    by (rule demo_start_accepts)
  have few: "length [(?p, 6000 :: u64, 6001 :: u64)] < LRU_CAP" by (simp add: LRU_CAP_def)
  have later: "\<forall>(q, _) \<in> set [(?p, 6000 :: u64, 6001 :: u64)]. length (packet_buffer q) = PACKET_DATA_SIZE"
    using len by simp
  have same: "packet_buffer ?q = packet_buffer ?p" "meta_size (packet_meta ?q) = meta_size (packet_meta ?p)"
    "meta_addr (packet_meta ?q) = meta_addr (packet_meta ?p)"
    "packet_data (env_view demo_env) ?q = packet_data (env_view demo_env) ?p"
    by (simp_all add: demo_packet_def demo_env_def demo_view_def)
  have two: "Suc (length [(?p, 6000 :: u64, 6001 :: u64)]) = 2" by simp
  from resent_packet_is_duplicate [OF demo_env_ok qos_start_ok [OF demo_env_ok] len acc few later same,
      of 5000 5001 7000 7001, unfolded two]
  show ?thesis unfolding Let_def by blast
qed

end
