(* ===== verification/Closed_Loop.thy ===== *)
theory Closed_Loop
  imports Feedback_Loop
begin

text \<open>
  The QoS process and the mock validator running side by side, each reading what the other sent: the turns
  of the two loops in any order, over channels that may lose, repeat and reorder messages.

  The shared-memory queues are external. All that is assumed of them (\<open>channel_laws\<close>) is that a
  consumer reads only what was pushed before.
\<close>

section \<open>The system\<close>

text \<open>What the consumer at the other end of a channel may read in a state of the producer.\<close>

record ('p, 'sv, 'sc, 'rs) channels =
  sent_packets :: "'p \<Rightarrow> Packet set"
  sent_failures :: "'sv \<Rightarrow> Packet set"
  sent_results :: "'sc \<Rightarrow> unit QoSRemainingMeta set"
  sent_signatures :: "'rs \<Rightarrow> u8 list set"

definition out_law :: "('a, 'q) out_ops \<Rightarrow> ('q \<Rightarrow> 'a set) \<Rightarrow> bool" where
  "out_law ops sent \<longleftrightarrow>
     (\<forall>x q. sent (out_push ops x q) \<subseteq> insert x (sent q)) \<and> (\<forall>q. sent (out_sync ops q) \<subseteq> sent q)"

definition channel_laws :: "('p, 'sv, 'sc, 'rs) channels \<Rightarrow> 'p producer_ops
    \<Rightarrow> ('v, 'tx, 'sv, 'sc, 'rs) mock_env \<Rightarrow> bool" where
  "channel_laws C P M \<longleftrightarrow>
     (\<forall>x q. sent_packets C (p_push P x q) \<subseteq> insert x (sent_packets C q)) \<and>
     (\<forall>q. sent_packets C (p_sync P q) \<subseteq> sent_packets C q) \<and>
     (\<forall>q. sent_packets C (p_beat P q) \<subseteq> sent_packets C q) \<and>
     out_law (mock_sig_ops M) (sent_failures C) \<and> out_law (mock_sch_ops M) (sent_results C) \<and>
     out_law (mock_recent_ops M) (sent_signatures C)"

datatype loop_event = QosTurn qos_input | MockTurn "Packet option"

type_synonym ('ms, 'mi, 'vs, 'vi, 'h, 'p, 'sv, 'sc, 'rs) loop_state =
  "('ms, 'mi, 'vs, 'vi, 'h, 'p) qos_state \<times> ('sv, 'sc, 'rs) mock_state"

text \<open>What the mock validator may pop.\<close>

definition transmitted :: "('p, 'sv, 'sc, 'rs) channels \<Rightarrow> ('ms, 'mi, 'vs, 'vi, 'h, 'p) qos_state \<Rightarrow> Packet set" where
  "transmitted C q = (case transmitter (qos_container q) of None \<Rightarrow> {} | Some tx \<Rightarrow> sent_packets C tx)"

fun available :: "('p, 'sv, 'sc, 'rs) channels \<Rightarrow> Packet set
    \<Rightarrow> ('ms, 'mi, 'vs, 'vi, 'h, 'p, 'sv, 'sc, 'rs) loop_state \<Rightarrow> loop_event \<Rightarrow> bool" where
  "available C traffic (q, m) (QosTurn i) \<longleftrightarrow>
     fst ` set (in_tpu i @ in_fwd i @ in_re1 i @ in_re2 i) \<subseteq> traffic \<and>
     set (in_recent i) \<subseteq> sent_signatures C (recent_producer m) \<and>
     set (in_sch i) \<subseteq> sent_results C (sch_qos_producer m) \<and>
     set (in_sig i) \<subseteq> sent_failures C (sig_qos_producer m)"
| "available C traffic (q, m) (MockTurn popped) \<longleftrightarrow> set_option popped \<subseteq> transmitted C q"

fun loop_turn :: "('ms, 'mi, 'vs, 'vi, 'v, 'tx, 'h, 'p) qos_env \<Rightarrow> ('v, 'tx, 'sv, 'sc, 'rs) mock_env \<Rightarrow> loop_event
    \<Rightarrow> ('ms, 'mi, 'vs, 'vi, 'h, 'p, 'sv, 'sc, 'rs) loop_state
    \<Rightarrow> ('ms, 'mi, 'vs, 'vi, 'h, 'p, 'sv, 'sc, 'rs) loop_state option" where
  "loop_turn E M (QosTurn i) (q, m) = do { (_, q) \<leftarrow> qos_iteration E i q; Some (q, m) }"
| "loop_turn E M (MockTurn popped) (q, m) = do { m \<leftarrow> mock_banking_step M popped m; Some (q, m) }"

inductive loop_reachable for E M C traffic start where
  loop_start: "loop_reachable E M C traffic start start"
| loop_next: "loop_reachable E M C traffic start s \<Longrightarrow> available C traffic s ev \<Longrightarrow> loop_turn E M ev s = Some s' \<Longrightarrow>
    loop_reachable E M C traffic start s'"

section \<open>Packets the mock validator can answer\<close>

definition answerable :: "('v, 'tx) view_ops \<Rightarrow> Packet \<Rightarrow> bool" where
  "answerable W packet \<longleftrightarrow> packet_ok packet \<and> length (packet_buffer packet) = PACKET_DATA_SIZE \<and>
     (\<exists>ip. meta_addr (packet_meta packet) = V4 ip) \<and>
     (\<exists>d u tx sig. packet_data W packet = Some d \<and> try_new_unsanitized W d = Some u \<and> sanitize W u = Some tx \<and>
       slice_get (tx_signatures W tx) 0 = Some sig)"

lemma accepted_answerable:
  assumes "view_laws W" "lru_inv N metas" and len: "length (packet_buffer packet) = PACKET_DATA_SIZE"
    and "try_process_packet W T hash N packet recent m metas stats = Some (Inr st, m', metas', stats')"
  shows "st_packet st = packet" "answerable W packet"
proof -
  from assms(1-3) have "st_packet st = packet \<and> answerable W packet"
  proof (cases rule: process_cases [where T = T and hash = hash and recent = recent and m = m and stats = stats])
    case (scored ip d u tx sig payer ev dup metas1)
    with assms(4) have "st_packet st = packet" by (auto split: if_splits)
    with scored len show ?thesis by (auto simp: answerable_def)
  qed (use assms(4) in auto)
  then show "st_packet st = packet" "answerable W packet" by simp_all
qed

section \<open>What the QoS process sends\<close>

text \<open>Everything queued or sent comes from \<open>good\<close>.\<close>

definition container_from :: "('p, 'sv, 'sc, 'rs) channels \<Rightarrow> ('h \<Rightarrow> ScoredTransaction multiset) \<Rightarrow> Packet set
    \<Rightarrow> ('h, 'p) TransactionContainer \<Rightarrow> bool" where
  "container_from C content good c \<longleftrightarrow>
     st_packet ` set_mset (content (priority_queue_heap c)) \<subseteq> good \<and>
     (\<forall>tx. transmitter c = Some tx \<longrightarrow> sent_packets C tx \<subseteq> good)"

lemma channel_pushes:
  assumes "channel_laws C P M" "sent_packets C tx \<subseteq> good" "st_packet ` set batch \<subseteq> good"
  shows "sent_packets C (p_sync P (fold (\<lambda>t tx. p_push P (st_packet t) tx) batch tx)) \<subseteq> good"
proof -
  have "sent_packets C (fold (\<lambda>t tx. p_push P (st_packet t) tx) batch tx) \<subseteq> good"
    using assms(2,3)
  proof (induction batch arbitrary: tx)
    case (Cons t batch)
    have "sent_packets C (p_push P (st_packet t) tx) \<subseteq> insert (st_packet t) (sent_packets C tx)"
      using assms(1) by (simp add: channel_laws_def)
    with Cons.prems have "sent_packets C (p_push P (st_packet t) tx) \<subseteq> good" by auto
    from Cons.IH [OF this] Cons.prems(2) show ?case by simp
  qed simp
  with assms(1) show ?thesis unfolding channel_laws_def by blast
qed

lemma transmit_from:
  assumes C: "channel_laws C P M" and q: "queue_inv hok content H c" and "last_send c \<noteq> Instant" "transmitter c \<noteq> None"
    and "ticks \<noteq> 0" and c: "container_from C content good c"
    and run: "maybe_transmit H P ticks now timer recent c stats = Some (c', stats')"
  shows "container_from C content good c'"
proof -
  obtain tx r where tx: "transmitter c = Some tx" "last_send c = RDTSC r"
    using assms(3,4) by (cases "last_send c") auto
  from q tx assms(5) show ?thesis
  proof (cases rule: maybe_transmit_ok [where now = now and recent = recent and P = P and timer = timer and stats = stats])
    case (tick batch skipped h')
    then have sub: "set batch \<subseteq> set_mset (content (priority_queue_heap c))"
      "set_mset (content h') \<subseteq> set_mset (content (priority_queue_heap c))"
      by (auto simp: best_batch_def)
    have "st_packet ` set batch \<subseteq> good" "st_packet ` set_mset (content h') \<subseteq> good"
      using sub c by (auto simp: container_from_def)
    moreover have "sent_packets C tx \<subseteq> good" using c tx by (simp add: container_from_def)
    then have "sent_packets C (p_sync P (fold (\<lambda>t tx. p_push P (st_packet t) tx) batch tx)) \<subseteq> good"
      using channel_pushes [OF C] calculation(1) by blast
    ultimately show ?thesis
      using run tick(4) by (auto simp: container_from_def Let_def simp del: image_subset_iff split: if_splits)
  qed (use run c in simp)
qed

lemma consume_packet_from:
  assumes E: "env_ok S Ok hok content E" and s: "qos_inv S Ok hok content E s"
    and C: "channel_laws C (env_producer E) M" and c: "container_from C content good (qos_container s)"
    and len: "length (packet_buffer packet) = PACKET_DATA_SIZE"
    and good: "answerable (env_view E) packet \<Longrightarrow> packet \<in> good"
    and run: "consume_packet E (packet, now, now') s = Some s'"
  shows "container_from C content good (qos_container s')"
proof -
  note inv = qos_invD [OF s]
  have W: "view_laws (env_view E)" "env_ticks E \<noteq> 0" using E by (simp_all add: env_ok_def)
  from run obtain r m metas stats where p: "try_process_packet (env_view E) (env_trees E) (env_hash E) LRU_CAP packet
      (Some (qos_recent_signatures s)) (qos_model_st s) (qos_tx_partial_metas s) (qos_stats s) = Some (r, m, metas, stats)"
    by (auto simp: consume_packet_def split: Option.bind_splits)
  show ?thesis
  proof (cases r)
    case (Inl e)
    with run p c show ?thesis by (auto simp: consume_packet_def)
  next
    case (Inr t)
    let ?stats = "if st_score t = ZERO then stats\<lparr>zero_score := zero_score stats + 1\<rparr> else stats"
    obtain c1 stats1 where q: "container_queue (env_heap E) t (qos_container s) ?stats = Some (c1, stats1)"
      "queue_inv hok content (env_heap E) c1" "transmitter c1 = transmitter (qos_container s)"
      "last_send c1 = last_send (qos_container s)"
      "content (priority_queue_heap c1) \<subseteq># add_mset t (content (priority_queue_heap (qos_container s)))"
      using queue_keeps_queue [OF inv(6), of t ?stats] by blast
    have "st_packet t \<in> good" using accepted_answerable [OF W(1) inv(2) len p [unfolded Inr]] good by simp
    moreover have "set_mset (content (priority_queue_heap c1)) \<subseteq>
        insert t (set_mset (content (priority_queue_heap (qos_container s))))"
      using set_mset_mono [OF q(5)] by simp
    ultimately have c1: "container_from C content good c1" using c q(3) by (auto simp: container_from_def)
    from run p Inr q(1) obtain c2 stats2 where "maybe_transmit (env_heap E) (env_producer E) (env_ticks E) now
        (timer_new (env_cpuinfo E) now') (qos_recent_signatures s) c1 stats1 = Some (c2, stats2)"
      "qos_container s' = c2" by (auto simp: consume_packet_def Let_def split: Option.bind_splits)
    with transmit_from [OF C q(2) _ _ W(2) c1] q(3,4) inv(7,8) show ?thesis by simp
  qed
qed

lemma consume_packets_from:
  assumes E: "env_ok S Ok hok content E" and C: "channel_laws C (env_producer E) M"
  shows "qos_inv S Ok hok content E s \<Longrightarrow> container_from C content good (qos_container s) \<Longrightarrow>
    \<forall>p \<in> fst ` set arrivals. length (packet_buffer p) = PACKET_DATA_SIZE \<and> (answerable (env_view E) p \<longrightarrow> p \<in> good) \<Longrightarrow>
    consume_packets E n arrivals s = Some (rest, s') \<Longrightarrow> container_from C content good (qos_container s')"
proof (induction n arbitrary: arrivals s)
  case (Suc n)
  show ?case
  proof (cases arrivals)
    case (Cons a tail)
    obtain packet now now' where a: "a = (packet, now, now')" by (cases a) auto
    from Suc.prems(4) Cons obtain s1 where s1: "consume_packet E (packet, now, now') s = Some s1"
      "consume_packets E n tail s1 = Some (rest, s')" by (auto simp: a split: Option.bind_splits)
    have p: "length (packet_buffer packet) = PACKET_DATA_SIZE" "answerable (env_view E) packet \<Longrightarrow> packet \<in> good"
      using Suc.prems(3) Cons a by auto
    have "qos_inv S Ok hok content E s1" using consume_packet_ok [OF E Suc.prems(1) p(1), of now now'] s1(1) by simp
    moreover have "container_from C content good (qos_container s1)"
      by (rule consume_packet_from [OF E Suc.prems(1) C Suc.prems(2) p s1(1)])
    ultimately show ?thesis using Suc.IH [OF _ _ _ s1(2)] Suc.prems(3) Cons by simp
  qed (use Suc.prems in simp)
qed simp

lemma consume_transaction_packets_from:
  assumes E: "env_ok S Ok hok content E" and C: "channel_laws C (env_producer E) M"
    and "qos_inv S Ok hok content E s" "container_from C content good (qos_container s)"
    and "\<forall>p \<in> fst ` set arrivals. length (packet_buffer p) = PACKET_DATA_SIZE \<and> (answerable (env_view E) p \<longrightarrow> p \<in> good)"
    and "consume_transaction_packets E arrivals s = Some (rest, s')"
  shows "qos_inv S Ok hok content E s' \<and> container_from C content good (qos_container s')"
proof
  have "\<forall>(p, _) \<in> set arrivals. length (packet_buffer p) = PACKET_DATA_SIZE" using assms(5) by auto
  from consume_transaction_packets_ok [OF E assms(3) this] assms(6) show "qos_inv S Ok hok content E s'" by auto
  from assms(6) obtain s1 where s1: "consume_packets E 1000 arrivals s = Some (rest, s1)"
    "s' = s1\<lparr>qos_container := container_beat (env_producer E) (qos_container s1)\<rparr>"
    by (auto simp: consume_transaction_packets_def split: Option.bind_splits)
  have "container_from C content good (qos_container s1)"
    by (rule consume_packets_from [OF E C assms(3-5) s1(1)])
  moreover have "sent_packets C (p_beat (env_producer E) tx) \<subseteq> good" if "sent_packets C tx \<subseteq> good" for tx
    using that C unfolding channel_laws_def by blast
  ultimately show "container_from C content good (qos_container s')"
    by (cases "transmitter (qos_container s1)") (simp_all add: s1(2) container_from_def container_beat_def)
qed

lemma other_consumers_container:
  "consume_recent_signatures sigs s = Some s' \<Longrightarrow> qos_container s' = qos_container s"
  "log_and_publish E now others s = Some s' \<Longrightarrow> qos_container s' = qos_container s"
  "consume_remaining_metas E metas s = Some (rest, s') \<Longrightarrow> qos_container s' = qos_container s"
  "consume_sigverify_signals E packets s = Some s' \<Longrightarrow> qos_container s' = qos_container s"
proof -
  show "consume_recent_signatures sigs s = Some s' \<Longrightarrow> qos_container s' = qos_container s"
    by (induction sigs arbitrary: s) (fastforce simp: Let_def split: Option.bind_splits)+
  show "log_and_publish E now others s = Some s' \<Longrightarrow> qos_container s' = qos_container s"
    by (auto simp: log_and_publish_def publish_stats_def Let_def split: Option.bind_splits option.splits prod.splits if_splits)
  show "consume_remaining_metas E metas s = Some (rest, s') \<Longrightarrow> qos_container s' = qos_container s"
    by (induction metas arbitrary: s)
      (fastforce simp: Let_def split: Option.bind_splits option.splits if_splits)+
  show "consume_sigverify_signals E packets s = Some s' \<Longrightarrow> qos_container s' = qos_container s"
    by (induction packets arbitrary: s)
      (fastforce simp: process_failed_sigverify_def split: Option.bind_splits IpAddr.splits)+
qed

lemma qos_iteration_from:
  assumes E: "env_ok S Ok hok content E" and C: "channel_laws C (env_producer E) M"
    and s: "qos_inv S Ok hok content E s" "container_from C content good (qos_container s)"
    and traffic: "fst ` set (in_tpu i @ in_fwd i @ in_re1 i @ in_re2 i) \<subseteq> traffic"
      "\<forall>p \<in> traffic. length (packet_buffer p) = PACKET_DATA_SIZE \<and> (answerable (env_view E) p \<longrightarrow> p \<in> good)"
    and run: "qos_iteration E i s = Some (i', s')"
  shows "container_from C content good (qos_container s')"
proof -
  from run obtain r1 s1 r2 s2 r3 s3 r4 s4 s5 s6 r7 s7 where r:
    "consume_transaction_packets E (in_tpu i) s = Some (r1, s1)" "consume_transaction_packets E (in_fwd i) s1 = Some (r2, s2)"
    "consume_transaction_packets E (in_re1 i) s2 = Some (r3, s3)" "consume_transaction_packets E (in_re2 i) s3 = Some (r4, s4)"
    and rest: "consume_recent_signatures (in_recent i) s4 = Some s5"
    "log_and_publish E (in_now i) (in_stats_ops i) s5 = Some s6" "consume_remaining_metas E (in_sch i) s6 = Some (r7, s7)"
    "consume_sigverify_signals E (in_sig i) s7 = Some s'"
    by (auto simp: qos_iteration_def split: Option.bind_splits)
  have p: "\<forall>p \<in> fst ` set arrivals. length (packet_buffer p) = PACKET_DATA_SIZE \<and> (answerable (env_view E) p \<longrightarrow> p \<in> good)"
    if "set arrivals \<subseteq> set (in_tpu i @ in_fwd i @ in_re1 i @ in_re2 i)" for arrivals
    using traffic image_mono [OF that, of fst] by blast
  note step = consume_transaction_packets_from [OF E C]
  have 1: "qos_inv S Ok hok content E s1 \<and> container_from C content good (qos_container s1)"
    by (rule step [OF s p r(1)]) auto
  have 2: "qos_inv S Ok hok content E s2 \<and> container_from C content good (qos_container s2)"
    by (rule step [OF 1 [THEN conjunct1] 1 [THEN conjunct2] p r(2)]) auto
  have 3: "qos_inv S Ok hok content E s3 \<and> container_from C content good (qos_container s3)"
    by (rule step [OF 2 [THEN conjunct1] 2 [THEN conjunct2] p r(3)]) auto
  have "container_from C content good (qos_container s4)"
    using step [OF 3 [THEN conjunct1] 3 [THEN conjunct2] p r(4)] by auto
  then show ?thesis
    using other_consumers_container(1) [OF rest(1)] other_consumers_container(2) [OF rest(2)]
      other_consumers_container(3) [OF rest(3)] other_consumers_container(4) [OF rest(4)] by simp
qed

section \<open>What the mock validator sends\<close>

text \<open>
  Failures are packets marked as badly signed, results carry the hash of an answered packet and at
  most \<open>2^20\<close> nanoseconds, signatures are first signatures of answered packets.
\<close>

definition failure_of :: "Packet set \<Rightarrow> Packet set" where
  "failure_of good = {p \<in> good. last (packet_buffer p) \<noteq> 0}"

definition result_of :: "(u8 list \<Rightarrow> u64) \<Rightarrow> Packet set \<Rightarrow> unit QoSRemainingMeta set" where
  "result_of hash good = {rm. \<exists>p \<in> good. last (packet_buffer p) = 0 \<and> packet_hash hash p = Some (rm_packet_hash rm) \<and>
     unat (rm_execution_nanos rm) \<le> 2 ^ 20}"

definition signature_of :: "('v, 'tx) view_ops \<Rightarrow> Packet set \<Rightarrow> u8 list set" where
  "signature_of W good = {sig. \<exists>p \<in> good. last (packet_buffer p) = 0 \<and> (\<exists>d u tx. packet_data W p = Some d \<and>
     try_new_unsanitized W d = Some u \<and> sanitize W u = Some tx \<and> slice_get (tx_signatures W tx) 0 = Some sig)}"

definition mock_from :: "('p, 'sv, 'sc, 'rs) channels \<Rightarrow> ('v, 'tx, 'sv, 'sc, 'rs) mock_env \<Rightarrow> Packet set
    \<Rightarrow> ('sv, 'sc, 'rs) mock_state \<Rightarrow> bool" where
  "mock_from C M good m \<longleftrightarrow>
     sent_failures C (sig_qos_producer m) \<subseteq> failure_of good \<and>
     sent_results C (sch_qos_producer m) \<subseteq> result_of (mock_hash M) good \<and>
     sent_signatures C (recent_producer m) \<subseteq> signature_of (mock_view M) good"

lemma out_lawD:
  assumes "out_law ops sent"
  shows "sent q \<subseteq> A \<Longrightarrow> x \<in> A \<Longrightarrow> sent (out_push ops x q) \<subseteq> A" "sent q \<subseteq> A \<Longrightarrow> sent (out_sync ops q) \<subseteq> A"
  using assms unfolding out_law_def by blast+

lemma mock_packet_from:
  assumes C: "channel_laws C P M" and m: "mock_from C M good m" and p: "p \<in> good" "answerable (mock_view M) p"
    and V: "\<forall>v tx. sanitize (mock_view M) v = Some tx \<longrightarrow> mock_view_signatures M v = tx_signatures (mock_view M) tx"
  shows "\<exists>m'. mock_packet M p m = Some m' \<and> mock_from C M good m'"
proof -
  from p(2) obtain ip d u tx sig where f: "packet_ok p" "meta_addr (packet_meta p) = V4 ip" "packet_data (mock_view M) p = Some d"
    "try_new_unsanitized (mock_view M) d = Some u" "sanitize (mock_view M) u = Some tx"
    "slice_get (tx_signatures (mock_view M) tx) 0 = Some sig"
    by (auto simp: answerable_def)
  have ne: "packet_buffer p \<noteq> []" using p(2) by (auto simp: answerable_def PACKET_DATA_SIZE_def)
  define h where "h = mock_hash M (preimage_of p ip)"
  have h: "packet_hash (mock_hash M) p = Some h" using packet_hash_eq [OF f(1,2)] by (simp add: h_def)
  have sigs: "mock_view_signatures M u = tx_signatures (mock_view M) tx" using V f(5) by blast
  note laws = C [unfolded channel_laws_def]
  note out = out_lawD [of "mock_sig_ops M" "sent_failures C"] out_lawD [of "mock_sch_ops M" "sent_results C"]
    out_lawD [of "mock_recent_ops M" "sent_signatures C"]
  let ?rm = "\<lambda>n. \<lparr>rm_packet_hash = h, rm_execution_nanos = n, rm_additional_metadata = ()\<rparr>"
  show ?thesis
  proof (cases "last (packet_buffer p) = 0")
    case False
    then have "p \<in> failure_of good" using p(1) by (simp add: failure_of_def)
    with False m ne h laws out(1) show ?thesis by (auto simp: mock_packet_def mock_from_def)
  next
    case True
    have rm: "?rm n \<in> result_of (mock_hash M) good" if "unat n \<le> 2 ^ 20" for n
      using p(1) h True that by (auto simp: result_of_def)
    have sg: "sig \<in> signature_of (mock_view M) good" using p(1) True f by (auto simp: signature_of_def)
    show ?thesis
    proof (cases "(ucast h :: u8) < 192")
      case sched: True
      with True m ne h f laws out(3) [OF _ _ rm [of 0]] show ?thesis by (auto simp: mock_packet_def mock_from_def)
    next
      case False
      with True m ne h f sigs laws out(3) [OF _ _ rm [of "execution_nanos_for h"]] out(4) out(5) [OF _ _ sg] out(6)
        execution_nanos_bounds [of h]
      show ?thesis by (simp add: mock_packet_def mock_from_def)
    qed
  qed
qed

lemma mock_step_from:
  assumes C: "channel_laws C P M" and m: "mock_from C M good m"
    and p: "set_option popped \<subseteq> good" "\<forall>p \<in> good. answerable (mock_view M) p"
    and V: "\<forall>v tx. sanitize (mock_view M) v = Some tx \<longrightarrow> mock_view_signatures M v = tx_signatures (mock_view M) tx"
  shows "\<exists>m'. mock_banking_step M popped m = Some m' \<and> mock_from C M good m'"
proof (cases popped)
  case None
  with m show ?thesis by (simp add: mock_banking_step_def mock_from_def)
next
  case (Some packet)
  with p have g: "packet \<in> good" "answerable (mock_view M) packet" by auto
  then have len: "length (packet_buffer packet) = PACKET_DATA_SIZE" by (simp add: answerable_def)
  obtain m1 where m1: "mock_packet M packet m = Some m1" "mock_from C M good m1"
    using mock_packet_from [OF C m g V] by blast
  obtain m' where "mock_banking_step M (Some packet) m = Some m'" "sig_qos_producer m' = sig_qos_producer m1"
    "sch_qos_producer m' = sch_qos_producer m1" "recent_producer m' = recent_producer m1"
    by (rule mock_step_after_packet [OF m1(1) len])
  with m1(2) Some show ?thesis by (simp add: mock_from_def)
qed

section \<open>The invariant of the loop\<close>

definition good_traffic :: "('v, 'tx) view_ops \<Rightarrow> Packet set \<Rightarrow> Packet set" where
  "good_traffic W traffic = {p \<in> traffic. answerable W p}"

text \<open>What is assumed of the two processes and of the channels between them.\<close>

definition loop_env where
  "loop_env S Ok hok content C E M \<longleftrightarrow>
     env_ok S Ok hok content E \<and> channel_laws C (env_producer E) M \<and> mock_view M = env_view E \<and>
     (\<forall>v tx. sanitize (env_view E) v = Some tx \<longrightarrow> mock_view_signatures M v = tx_signatures (env_view E) tx)"

fun loop_inv where
  "loop_inv S Ok hok content C E M traffic (q, m) \<longleftrightarrow>
     qos_inv S Ok hok content E q \<and>
     container_from C content (good_traffic (env_view E) traffic) (qos_container q) \<and>
     mock_from C M (good_traffic (env_view E) traffic) m"

lemma available_input_ok:
  assumes "loop_inv S Ok hok content C E M traffic (q, m)" "available C traffic (q, m) (QosTurn i)"
    and "\<forall>p \<in> traffic. length (packet_buffer p) = PACKET_DATA_SIZE"
  shows "input_ok i"
proof -
  have "set (in_sig i) \<subseteq> failure_of (good_traffic (env_view E) traffic)" using assms(1,2) by (auto simp: mock_from_def)
  then have "\<forall>p \<in> set (in_sig i). \<exists>ip. meta_addr (packet_meta p) = V4 ip"
    by (auto simp: failure_of_def good_traffic_def answerable_def)
  moreover have "fst ` set (in_tpu i @ in_fwd i @ in_re1 i @ in_re2 i) \<subseteq> traffic" using assms(2) by simp
  ultimately show ?thesis using assms(3) unfolding input_ok_def by fastforce
qed

lemma loop_turn_ok:
  assumes env: "loop_env S Ok hok content C E M"
    and full: "\<forall>p \<in> traffic. length (packet_buffer p) = PACKET_DATA_SIZE"
    and inv: "loop_inv S Ok hok content C E M traffic s" and ev: "available C traffic s ev"
  shows "\<exists>s'. loop_turn E M ev s = Some s' \<and> loop_inv S Ok hok content C E M traffic s'"
proof -
  from env have E: "env_ok S Ok hok content E" and C: "channel_laws C (env_producer E) M" and W: "mock_view M = env_view E"
    and V: "\<forall>v tx. sanitize (env_view E) v = Some tx \<longrightarrow> mock_view_signatures M v = tx_signatures (env_view E) tx"
    by (simp_all add: loop_env_def)
  let ?good = "good_traffic (env_view E) traffic"
  obtain q m where s: "s = (q, m)" by force
  with inv have q: "qos_inv S Ok hok content E q" "container_from C content ?good (qos_container q)"
    and m: "mock_from C M ?good m" by simp_all
  show ?thesis
  proof (cases ev)
    case (QosTurn i)
    with ev s have traffic: "fst ` set (in_tpu i @ in_fwd i @ in_re1 i @ in_re2 i) \<subseteq> traffic" by simp
    have "\<forall>p \<in> traffic. length (packet_buffer p) = PACKET_DATA_SIZE \<and> (answerable (env_view E) p \<longrightarrow> p \<in> ?good)"
      using full by (simp add: good_traffic_def)
    note from_good = qos_iteration_from [OF E C q traffic this]
    have "input_ok i" by (rule available_input_ok [OF inv [unfolded s] ev [unfolded s QosTurn] full])
    then obtain i' q' where "qos_iteration E i q = Some (i', q')" "qos_inv S Ok hok content E q'"
      using qos_iteration_ok [OF E q(1)] by blast
    with from_good m show ?thesis by (simp add: QosTurn s)
  next
    case (MockTurn popped)
    with ev s q(2) have "set_option popped \<subseteq> ?good"
      by (auto simp: transmitted_def container_from_def split: option.splits)
    moreover have "\<forall>p \<in> ?good. answerable (mock_view M) p" by (simp add: good_traffic_def W)
    ultimately obtain m' where "mock_banking_step M popped m = Some m'" "mock_from C M ?good m'"
      using mock_step_from [OF C m _ _ V [folded W]] by blast
    with q show ?thesis by (simp add: MockTurn s)
  qed
qed

lemma loop_invariant:
  assumes "loop_env S Ok hok content C E M" "\<forall>p \<in> traffic. length (packet_buffer p) = PACKET_DATA_SIZE"
    and "loop_inv S Ok hok content C E M traffic start" "loop_reachable E M C traffic start s"
  shows "loop_inv S Ok hok content C E M traffic s"
  using assms(4)
proof induction
  case (loop_next s ev s')
  from loop_turn_ok [OF assms(1,2) loop_next.IH loop_next.hyps(2)] loop_next.hyps(3) show ?case by auto
qed (rule assms(3))

definition loop_initial where
  "loop_initial C E start \<longleftrightarrow>
     (\<exists>p pps shared rdtsc rdtsc'. fst start = qos_start E p pps shared rdtsc rdtsc' \<and> sent_packets C p = {}) \<and>
     sent_failures C (sig_qos_producer (snd start)) = {} \<and> sent_results C (sch_qos_producer (snd start)) = {} \<and>
     sent_signatures C (recent_producer (snd start)) = {}"

lemma loop_initial_inv:
  assumes E: "env_ok S Ok hok content E" and "loop_initial C E start"
  shows "loop_inv S Ok hok content C E M traffic start"
proof -
  obtain q m where s: "start = (q, m)" by force
  with assms(2) obtain p pps shared rdtsc rdtsc' where q: "q = qos_start E p pps shared rdtsc rdtsc'" "sent_packets C p = {}"
    and m: "sent_failures C (sig_qos_producer m) = {}" "sent_results C (sch_qos_producer m) = {}"
    "sent_signatures C (recent_producer m) = {}" by (auto simp: loop_initial_def)
  have "heap_laws st_score hok content (env_heap E)" using E by (simp add: env_ok_def)
  then have "content (mm_new (env_heap E) QUEUE_CAPACITY) = {#}"
    using mm_new_ok [of st_score hok content "env_heap E" QUEUE_CAPACITY] by (simp add: QUEUE_CAPACITY_def)
  then show ?thesis using qos_start_ok [OF E] q m
    by (simp add: s mock_from_def container_from_def qos_start_def container_new_def)
qed

lemma loop_reachable_inv:
  assumes "loop_env S Ok hok content C E M" "\<forall>p \<in> traffic. length (packet_buffer p) = PACKET_DATA_SIZE"
    and "loop_initial C E start" "loop_reachable E M C traffic start s"
  shows "loop_inv S Ok hok content C E M traffic s"
  by (rule loop_invariant [OF assms(1,2) loop_initial_inv [OF _ assms(3)] assms(4)])
    (use assms(1) in \<open>simp add: loop_env_def\<close>)

section \<open>Properties\<close>

text \<open>
  C2. The closed loop never panics: whatever well-sized packets arrive, and whatever the channels lose,
  repeat or reorder, in every state that the QoS process and the mock validator reach by taking turns in
  any order, each possible next turn of either of them returns, and the QoS process keeps its invariant.
  The failed packets it needs to be IPv4 packets are so because it sent them itself.\<close>

theorem closed_loop_safe:
  assumes "loop_env S Ok hok content C E M" and "loop_initial C E start"
    and "\<forall>p \<in> traffic. length (packet_buffer p) = PACKET_DATA_SIZE"
    and "loop_reachable E M C traffic start s" and "available C traffic s ev"
  shows "\<exists>s'. loop_turn E M ev s = Some s' \<and> qos_inv S Ok hok content E (fst s) \<and> qos_inv S Ok hok content E (fst s')"
proof -
  have "loop_inv S Ok hok content C E M traffic s"
    by (rule loop_reachable_inv [OF assms(1,3,2,4)])
  moreover from loop_turn_ok [OF assms(1,3) this assms(5)] obtain s' where
    "loop_turn E M ev s = Some s'" "loop_inv S Ok hok content C E M traffic s'" by blast
  ultimately show ?thesis by (cases s; cases s') simp
qed

text \<open>
  C3. Origin of every message in the closed loop: at any time, the packets on the way to the mock
  validator are packets of the traffic that parse and come from an IPv4 sender; what the mock validator
  returns as failed are such packets marked as badly signed; every execution result carries the hash of
  such a packet and a time of at most \<open>2^20\<close> nanoseconds; every confirmed signature is the first signature
  of such a packet.\<close>

theorem closed_loop_provenance:
  assumes "loop_env S Ok hok content C E M" and "loop_initial C E (q0, m0)"
    and "\<forall>p \<in> traffic. length (packet_buffer p) = PACKET_DATA_SIZE"
    and "loop_reachable E M C traffic (q0, m0) (q, m)"
  shows "(\<forall>p \<in> transmitted C q. p \<in> traffic \<and> answerable (env_view E) p) \<and>
    (\<forall>p \<in> sent_failures C (sig_qos_producer m). p \<in> traffic \<and> answerable (env_view E) p \<and> last (packet_buffer p) \<noteq> 0) \<and>
    (\<forall>rm \<in> sent_results C (sch_qos_producer m). unat (rm_execution_nanos rm) \<le> 2 ^ 20 \<and>
      (\<exists>p \<in> traffic. answerable (env_view E) p \<and> packet_hash (mock_hash M) p = Some (rm_packet_hash rm))) \<and>
    (\<forall>sig \<in> sent_signatures C (recent_producer m). \<exists>p \<in> traffic. \<exists>d u tx. packet_data (env_view E) p = Some d \<and>
      try_new_unsanitized (env_view E) d = Some u \<and> sanitize (env_view E) u = Some tx \<and>
      slice_get (tx_signatures (env_view E) tx) 0 = Some sig)"
proof -
  have inv: "loop_inv S Ok hok content C E M traffic (q, m)"
    by (rule loop_reachable_inv [OF assms(1,3,2,4)])
  have W: "mock_view M = env_view E" using assms(1) by (simp add: loop_env_def)
  let ?good = "good_traffic (env_view E) traffic"
  have "transmitted C q \<subseteq> ?good" using inv by (auto simp: transmitted_def container_from_def split: option.splits)
  moreover have "sent_failures C (sig_qos_producer m) \<subseteq> failure_of ?good"
    "sent_results C (sch_qos_producer m) \<subseteq> result_of (mock_hash M) ?good"
    "sent_signatures C (recent_producer m) \<subseteq> signature_of (env_view E) ?good"
    using inv W by (simp_all add: mock_from_def)
  ultimately show ?thesis
    unfolding failure_of_def result_of_def signature_of_def good_traffic_def
    by (intro conjI ballI) (blast dest: subsetD)+
qed

definition list_channels :: "(Packet list, Packet list, unit QoSRemainingMeta list, u8 list list) channels" where
  "list_channels = \<lparr>sent_packets = set, sent_failures = set, sent_results = set, sent_signatures = set\<rparr>"

lemma demo_loop:
  "loop_env 10000 (alist_oks MODEL_CAP) (list_heap_ok st_score) mset list_channels demo_env demo_mock"
  "loop_initial list_channels demo_env (qos_start demo_env [] 1000000 None 0 0, demo_mock_state)"
proof -
  have "channel_laws list_channels (env_producer demo_env) demo_mock"
    by (auto simp: channel_laws_def out_law_def list_channels_def demo_env_def demo_producer_def demo_mock_def)
  moreover have "mock_view demo_mock = env_view demo_env"
    "\<forall>v tx. sanitize (env_view demo_env) v = Some tx \<longrightarrow> mock_view_signatures demo_mock v = tx_signatures (env_view demo_env) tx"
    by (auto simp: demo_mock_def demo_env_def demo_view_def split: if_splits)
  ultimately show "loop_env 10000 (alist_oks MODEL_CAP) (list_heap_ok st_score) mset list_channels demo_env demo_mock"
    using demo_env_ok by (simp add: loop_env_def)
  show "loop_initial list_channels demo_env (qos_start demo_env [] 1000000 None 0 0, demo_mock_state)"
    by (force simp: loop_initial_def list_channels_def demo_mock_state_def)
qed

definition demo_turn :: qos_input where
  "demo_turn =
     \<lparr>in_tpu = [(demo_packet [7] (Ipv4Addr 10 0 0 1) 80, 5000, 5001)], in_fwd = [], in_re1 = [], in_re2 = [],
      in_recent = [], in_sch = [], in_sig = [], in_now = 200000, in_stats_ops = []\<rparr>"

theorem closed_loop_safe_witness:
  "\<exists>s s'. loop_turn demo_env demo_mock (QosTurn demo_turn) (qos_start demo_env [] 1000000 None 0 0, demo_mock_state) = Some s \<and>
     loop_turn demo_env demo_mock (MockTurn None) s = Some s'"
proof -
  let ?p = "demo_packet [7] (Ipv4Addr 10 0 0 1) 80"
  let ?start = "(qos_start demo_env [] 1000000 None 0 0, demo_mock_state)"
  have full: "\<forall>p \<in> {?p}. length (packet_buffer p) = PACKET_DATA_SIZE"
    using demo_packet_buffer [of "[7]"] by (simp add: PACKET_DATA_SIZE_def)
  have ev: "available list_channels {?p} ?start (QosTurn demo_turn)" by (simp add: demo_turn_def)
  note safe = closed_loop_safe [OF demo_loop full]
  from safe [OF loop_start ev] obtain s where
    s: "loop_turn demo_env demo_mock (QosTurn demo_turn) ?start = Some s" by blast
  have "available list_channels {?p} s (MockTurn None)" by (cases s) simp
  from safe [OF loop_next [OF loop_start ev s] this] s show ?thesis by blast
qed

theorem closed_loop_provenance_witness:
  "\<exists>q. loop_turn demo_env demo_mock (QosTurn demo_turn) (qos_start demo_env [] 1000000 None 0 0, demo_mock_state) =
       Some (q, demo_mock_state) \<and>
     (\<forall>p \<in> transmitted list_channels q. p = demo_packet [7] (Ipv4Addr 10 0 0 1) 80)"
proof -
  let ?p = "demo_packet [7] (Ipv4Addr 10 0 0 1) 80"
  let ?start = "(qos_start demo_env [] 1000000 None 0 0, demo_mock_state)"
  have full: "\<forall>p \<in> {?p}. length (packet_buffer p) = PACKET_DATA_SIZE"
    using demo_packet_buffer [of "[7]"] by (simp add: PACKET_DATA_SIZE_def)
  have ev: "available list_channels {?p} ?start (QosTurn demo_turn)" by (simp add: demo_turn_def)
  from full have "input_ok demo_turn" by (simp add: input_ok_def demo_turn_def)
  with qos_iteration_ok [OF demo_env_ok qos_start_ok [OF demo_env_ok]] obtain i' q where
    "qos_iteration demo_env demo_turn (qos_start demo_env [] 1000000 None 0 0) = Some (i', q)" by blast
  then have s: "loop_turn demo_env demo_mock (QosTurn demo_turn) ?start = Some (q, demo_mock_state)" by simp
  from closed_loop_provenance [OF demo_loop full loop_next [OF loop_start ev s]] s show ?thesis by blast
qed

end
