(* ===== verification/Traffic_Analysis.thy ===== *)
theory Traffic_Analysis
  imports Startup Engine_Ipc "HOL-Library.List_Lexorder" "HOL-Library.Char_ord"
begin

text \<open>
  The experiment that packet-analysis/src/main.rs evaluates: the generator threads record what they send,
  the mock validator records what the QoS process lets through, and the analysis tells the files apart by
  their names and collects the prices per address for both sides.
\<close>

section \<open>The recording of the mock validator\<close>

fun mock_run :: "('v, 'tx, 'sv, 'sc, 'rs) mock_env \<Rightarrow> Packet option list \<Rightarrow> ('sv, 'sc, 'rs) mock_state
    \<Rightarrow> ('sv, 'sc, 'rs) mock_state option" where
  "mock_run E [] s = Some s"
| "mock_run E (popped # pops) s = do { s \<leftarrow> mock_banking_step E popped s; mock_run E pops s }"

lemma mock_packet_recorder:
  "mock_packet E packet s = Some s' \<Longrightarrow> mock_file s' = mock_file s \<and> mock_i s' = mock_i s"
  by (auto simp: mock_packet_def Let_def split: Option.bind_splits if_splits)

lemma mock_step_records:
  assumes "mock_banking_step E (Some packet) s = Some s'" and "exhibits packet ob"
  shows "mock_file s' = recorded (mock_show_v6 E) (mock_write_to_file E) (mock_i s) [ob] (mock_file s) \<and>
    mock_i s' = Suc (mock_i s)"
proof -
  from assms(1) obtain s1 where s1: "mock_packet E packet s = Some s1"
    and "map_option mock_flush (mock_record E packet s1) = Some s'"
    by (auto simp: mock_banking_step_def split: Option.bind_splits)
  with record_packet_exhibits [OF assms(2), of "mock_show_v6 E" "mock_write_to_file E" "mock_i s1" "mock_file s1"]
    mock_packet_recorder [OF s1]
  show ?thesis by (auto simp: mock_record_def)
qed

lemma mock_run_records:
  assumes "mock_run E pops s = Some s'" and "list_all2 exhibits (List.map_filter (\<lambda>p. p) pops) obs"
  shows "mock_file s' = recorded (mock_show_v6 E) (mock_write_to_file E) (mock_i s) obs (mock_file s)"
  using assms
proof (induction pops arbitrary: s obs)
  case Nil
  then show ?case by (cases "mock_file s") (auto simp: recorded_def Let_def map_filter_simps)
next
  case (Cons popped pops)
  from Cons.prems(1) obtain s1 where s1: "mock_banking_step E popped s = Some s1" "mock_run E pops s1 = Some s'"
    by (auto split: Option.bind_splits)
  show ?case
  proof (cases popped)
    case None
    with s1(1) have "mock_file s1 = mock_file s" "mock_i s1 = mock_i s" by (auto simp: mock_banking_step_def)
    with Cons.IH [OF s1(2), of obs] Cons.prems(2) None show ?thesis by (simp add: map_filter_simps)
  next
    case (Some packet)
    with Cons.prems(2) obtain ob obs' where obs: "obs = ob # obs'" "exhibits packet ob"
      "list_all2 exhibits (List.map_filter (\<lambda>p. p) pops) obs'"
      by (auto simp: map_filter_simps list_all2_Cons1)
    from mock_step_records [OF s1(1) [unfolded Some] obs(2)] Cons.IH [OF s1(2) obs(3)]
    show ?thesis by (simp add: obs(1) recorded_Cons)
  qed
qed

section \<open>File names\<close>

lemma filter_eq_single: "distinct xs \<Longrightarrow> x \<in> set xs \<Longrightarrow> filter (\<lambda>y. y = x) xs = [x]"
  by (induction xs) (auto simp: filter_empty_conv)

lemma str_contains_set: "str_contains s t \<Longrightarrow> set s \<subseteq> set t"
proof (induction t)
  case (Cons c t)
  then show ?case by (auto dest: in_set_takeD simp del: take_Suc_Cons) (metis in_set_takeD set_ConsD)+
qed simp

lemma str_contains_prefix: "str_contains s (s @ t)"
  by (cases "s @ t") (auto simp: append_eq_Cons_conv)

lemma str_contains_append: "str_contains s t \<Longrightarrow> str_contains s (u @ t)"
  by (induction u) auto

lemma decimal_no_letter: "\<not> is_digit c \<Longrightarrow> c \<notin> set (decimal n)"
  using decimal_digits [of n] by (auto simp: list_all_iff)

text \<open>The two patterns separate the files of the generators from the file of the mock validator.\<close>

lemma generator_file_pattern:
  assumes "base \<in> {IPC_TPU_TO_QOS_NAME, IPC_FWD_TO_QOS_NAME}"
  shows "str_contains ''_qos'' (generator_file base thread)" "\<not> str_contains ''sigverify'' (generator_file base thread)"
proof -
  obtain pre where pre: "base = pre @ ''_qos''" "CHR ''g'' \<notin> set base"
    using assms by (auto simp: IPC_TPU_TO_QOS_NAME_def IPC_FWD_TO_QOS_NAME_def intro: that [of "''tpu_to''"] that [of "''fwd_to''"])
  show "str_contains ''_qos'' (generator_file base thread)"
    using str_contains_append [OF str_contains_prefix, of "''_qos''" pre "decimal thread"]
    by (simp add: generator_file_def pre(1))
  have "CHR ''g'' \<notin> set (generator_file base thread)"
    using pre(2) decimal_no_letter [of "CHR ''g''" thread] by (simp add: generator_file_def is_digit_def)
  then show "\<not> str_contains ''sigverify'' (generator_file base thread)"
    using str_contains_set [of "''sigverify''" "generator_file base thread"] by auto
qed

lemma sigverify_pattern: "\<not> str_contains ''_qos'' ''sigverify''" "str_contains ''sigverify'' ''sigverify''"
  by simp_all

section \<open>Properties\<close>

text \<open>The file \<open>name\<close> is what a generator thread recorded that started as \<open>g0\<close> and made the draws \<open>ds\<close>.\<close>

definition generator_recorded :: "('k, 'd) agent_ops \<Rightarrow> 'q producer_ops \<Rightarrow> (u16 list \<Rightarrow> string) \<Rightarrow> Packet option
    \<Rightarrow> (string \<Rightarrow> string option) \<Rightarrow> string \<Rightarrow> ('k, 'd, 'q) generator \<times> gen_draw list \<Rightarrow> bool" where
  "generator_recorded A P show_v6 template fs name = (\<lambda>(g0, ds).
     (\<exists>base thread fresh q g. base \<in> {IPC_TPU_TO_QOS_NAME, IPC_FWD_TO_QOS_NAME} \<and> name = generator_file base thread \<and>
        generator_start A template thread fresh q = Some g0 \<and>
        list_all draw_ok ds \<and> generator_run A P show_v6 True 0 ds g0 = Some g \<and>
        fs (''packet-data/'' @ name) = Some (rec_written (gen_file g))))"

text \<open>What the thread sent.\<close>

definition thread_traffic :: "('k, 'd) agent_ops \<Rightarrow> ('k, 'd, 'q) generator \<times> gen_draw list \<Rightarrow> observation list" where
  "thread_traffic A = (\<lambda>(g0, ds). sent_observations A (length ds) g0)"

lemma generator_recorded_file:
  assumes A: "choice_law A" "\<forall>mean. lognormal_new A mean (Fin 2) \<noteq> None"
    and template: "template = Some packet" "length (packet_buffer packet) = 1232"
    and rec: "generator_recorded A P show_v6 template fs name thread"
  shows "fs (''packet-data/'' @ name) = Some (recording show_v6 (take RECORD_LIMIT (thread_traffic A thread)))"
    and "str_contains ''_qos'' name" "\<not> str_contains ''sigverify'' name"
proof -
  obtain g0 ds where thread: "thread = (g0, ds)" by force
  from rec obtain base no fresh q g where
    g: "base \<in> {IPC_TPU_TO_QOS_NAME, IPC_FWD_TO_QOS_NAME}" "name = generator_file base no" "\<forall>d \<in> set ds. draw_ok d"
    "generator_start A template no fresh q = Some g0"
    "generator_run A P show_v6 True 0 ds g0 = Some g" "fs (''packet-data/'' @ name) = Some (rec_written (gen_file g))"
    unfolding generator_recorded_def thread list_all_iff prod.case by blast
  have "gen_ready g0" "gen_file g0 = recorder_new"
    using generator_start_ready [OF template A(2), of no fresh q] g(4) by auto
  with generator_run_ok [OF A(1) this(1) g(3), of P show_v6 True 0] g(5,6)
  show "fs (''packet-data/'' @ name) = Some (recording show_v6 (take RECORD_LIMIT (thread_traffic A thread)))"
    by (auto simp: thread_traffic_def thread recorded_def recorder_new_def Let_def)
  show "str_contains ''_qos'' name" "\<not> str_contains ''sigverify'' name"
    using generator_file_pattern [OF g(1)] by (simp_all add: g(2))
qed

lemma analysis_of_recordings:
  assumes "\<forall>name \<in> set names. fs (''packet-data/'' @ name) = Some (recording show_v6 (content name))"
  shows "ip_values (map fs (find_matching_files ''packet-data'' (Some names) pattern)) (show_ipv4 ip) =
    values_for (concat (map content (filter (str_contains pattern) names))) ip"
proof -
  let ?names = "filter (str_contains pattern) names"
  have "map fs (find_matching_files ''packet-data'' (Some names) pattern) =
      map (\<lambda>obs. Some (recording show_v6 obs)) (map content ?names)"
    using assms by (auto simp: find_matching_files_def)
  then show ?thesis
    using values_for_map_key [OF show_ipv4_inj, of "concat (map content ?names)" ip] by (simp only: ip_values_recordings)
qed

text \<open>
  C18. The experiment end to end: let the data directory hold, in any order, the recordings of generator
  threads of the TPU and the forward engine and the recording of the mock validator. Then the analysis
  writes two result files. The input side holds for every address exactly the prices of the packets the
  generators made for it, the output side those of the packets that reached the mock validator (of each
  file the first four million), and neither side mixes in a file of the other.\<close>

theorem analysis_recovers_traffic:
  assumes A: "choice_law A" "\<forall>mean. lognormal_new A mean (Fin 2) \<noteq> None"
    and template: "template = Some packet" "length (packet_buffer packet) = 1232"
    and dir: "distinct names" "''sigverify'' \<in> set names"
    and gens: "\<forall>name \<in> set names. name \<noteq> ''sigverify'' \<longrightarrow> generator_recorded A P show_v6 template fs name (turns name)"
    and mock: "mock_run M pops ms = Some ms'" "mock_write_to_file M" "mock_show_v6 M = show_v6"
      "mock_file ms = recorder_new" "mock_i ms = 0"
      "list_all2 exhibits (List.map_filter (\<lambda>p. p) pops) obs"
      "fs ''packet-data/sigverify'' = Some (rec_written (mock_file ms'))"
    and npz: "npz_laws contents order Z"
  shows "\<exists>inp out. analysis_main Z order fs (Some names) = Some [(''input.npz'', inp), (''output.npz'', out)] \<and>
    contents inp (show_ipv4 ip) =
      values_for (concat (map (\<lambda>name. take RECORD_LIMIT (thread_traffic A (turns name))) (remove1 ''sigverify'' names))) ip \<and>
    contents out (show_ipv4 ip) = values_for (take RECORD_LIMIT obs) ip"
proof -
  define content where "content = (\<lambda>name. if name = ''sigverify'' then take RECORD_LIMIT obs
    else take RECORD_LIMIT (thread_traffic A (turns name)))"
  have "rec_written (mock_file ms') = recording show_v6 (take RECORD_LIMIT obs)"
    using mock_run_records [OF mock(1,6)] mock by (simp add: recorded_def recorder_new_def Let_def)
  then have "fs (''packet-data/'' @ name) = Some (recording show_v6 (content name)) \<and>
      (str_contains ''_qos'' name \<longleftrightarrow> name \<noteq> ''sigverify'') \<and> (str_contains ''sigverify'' name \<longleftrightarrow> name = ''sigverify'')"
    if "name \<in> set names" for name
  proof (cases "name = ''sigverify''")
    case False
    with gens that have "generator_recorded A P show_v6 template fs name (turns name)" by blast
    from generator_recorded_file [OF A template this] False show ?thesis by (simp add: content_def)
  qed (use mock(7) in \<open>simp add: content_def\<close>)
  then have content: "\<forall>name \<in> set names. fs (''packet-data/'' @ name) = Some (recording show_v6 (content name))"
    and pats: "\<And>name. name \<in> set names \<Longrightarrow> str_contains ''_qos'' name \<longleftrightarrow> name \<noteq> ''sigverify''"
      "\<And>name. name \<in> set names \<Longrightarrow> str_contains ''sigverify'' name \<longleftrightarrow> name = ''sigverify''"
    by blast+
  have "filter (str_contains ''_qos'') names = remove1 ''sigverify'' names"
    unfolding distinct_remove1_removeAll [OF dir(1)] removeAll_filter_not_eq
    by (rule filter_cong [OF refl]) (use pats(1) in blast)
  then have inp: "map content (filter (str_contains ''_qos'') names) =
      map (\<lambda>name. take RECORD_LIMIT (thread_traffic A (turns name))) (remove1 ''sigverify'' names)"
    using dir(1) by (auto simp: content_def)
  have "filter (str_contains ''sigverify'') names = filter (\<lambda>name. name = ''sigverify'') names"
    using pats(2) by (rule filter_cong [OF refl])
  also have "\<dots> = [''sigverify'']"
    using dir by (rule filter_eq_single)
  finally have out: "concat (map content (filter (str_contains ''sigverify'') names)) = take RECORD_LIMIT obs"
    by (simp add: content_def)
  let ?vals = "\<lambda>pattern. ip_values (map fs (find_matching_files ''packet-data'' (Some names) pattern))"
  obtain z1 z2 where "write_to_npz Z order (?vals ''_qos'') ''input.npz'' = Some z1" "contents z1 = ?vals ''_qos''"
    "write_to_npz Z order (?vals ''sigverify'') ''output.npz'' = Some z2" "contents z2 = ?vals ''sigverify''"
    using write_to_npz_contents [OF npz] by metis
  with analysis_of_recordings [OF content, of "''_qos''" ip] analysis_of_recordings [OF content, of "''sigverify''" ip]
  show ?thesis unfolding inp out by (simp add: analysis_main_def Let_def)
qed

lemma demo_mock_step:
  obtains ms where "mock_banking_step demo_mock (Some (demo_packet [7] (Ipv4Addr 10 0 0 1) 80)) demo_mock_state = Some ms"
proof -
  let ?p = "demo_packet [7] (Ipv4Addr 10 0 0 1) 80"
  have len: "length (packet_buffer ?p) = PACKET_DATA_SIZE"
    by (rule demo_packet_buffer) (simp add: PACKET_DATA_SIZE_def)
  obtain st m' metas' stats' where run: "try_process_packet demo_view (alist_trees 20) from_le_bytes 4 ?p None
      (model_new (alist_trees 20) [] []) (lru_new 4) Stats_new = Some (Inr st, m', metas', stats')"
    by (rule demo_accepted)
  have E: "mock_view demo_mock = demo_view" "mock_hash demo_mock = from_le_bytes"
    "\<forall>v tx. sanitize demo_view v = Some tx \<longrightarrow> mock_view_signatures demo_mock v = tx_signatures demo_view tx"
    by (auto simp: demo_mock_def demo_view_def split: if_splits)
  have lru: "lru_inv 4 (lru_new 4 :: meta_cache)" by (rule lru_new_inv) simp
  show ?thesis using mock_step_accepted [OF demo_view_laws lru len run E] that by blast
qed

text \<open>An archive that is a map of arrays.\<close>

definition map_npz :: "(string \<rightharpoonup> u64 list) npz_ops" where
  "map_npz = \<lparr>npz_new = \<lambda>_. Some Map.empty, npz_add = \<lambda>name values m. Some (m(name \<mapsto> values))\<rparr>"

definition map_entries :: "(string \<rightharpoonup> u64 list) \<Rightarrow> (string \<times> u64 list) list" where
  "map_entries m = map (\<lambda>k. (k, the (m k))) (sorted_list_of_set (dom m))"

lemma map_npz_laws: "npz_laws (\<lambda>m. m) map_entries map_npz"
proof -
  have "distinct (map fst (map_entries m)) \<and> map_of (map_entries m) = m" if "finite (dom m)" for m
    using that by (auto simp: map_entries_def comp_def map_of_map_restrict restrict_map_def domIff fun_eq_iff)
  then show ?thesis by (simp add: npz_laws_def map_npz_def)
qed

theorem analysis_recovers_traffic_witness:
  "\<exists>fs inp out. analysis_main map_npz map_entries fs (Some [''sigverify'', ''tpu_to_qos1'']) = Some [(''input.npz'', inp), (''output.npz'', out)] \<and>
     inp ''1.1.1.1'' = Some [400000] \<and> out ''1.1.1.1'' = None"
proof -
  let ?p = "demo_packet [7] (Ipv4Addr 10 0 0 1) 80" and ?ds = "[demo_draw, demo_draw]" and ?v6 = "\<lambda>_ :: u16 list. [] :: string"
  have len: "length (packet_buffer ?p) = 1232" by (simp add: demo_packet_def PACKET_DATA_SIZE_def)
  obtain ms where "mock_banking_step demo_mock (Some ?p) demo_mock_state = Some ms" by (rule demo_mock_step)
  then have mock: "mock_run demo_mock [Some ?p] demo_mock_state = Some ms" "mock_write_to_file demo_mock"
    "mock_show_v6 demo_mock = ?v6" "mock_file demo_mock_state = recorder_new" "mock_i demo_mock_state = 0"
    by (simp_all add: demo_mock_def demo_mock_state_def)
  obtain price where "read_price ?p = Some price" using len by (auto simp: read_price_def tx_offsets)
  then have obs: "list_all2 exhibits (List.map_filter (\<lambda>p. p) [Some ?p]) [(Ipv4Addr 10 0 0 1, price)]"
    using len by (simp add: exhibits_def map_filter_simps demo_packet_def)
  have ok: "\<forall>d \<in> set ?ds. draw_ok d" "list_all draw_ok ?ds" using demo_agents_laws(3) by simp_all
  let ?tmpl = "null_transfer_transaction_with_compute_unit_price demo_sdk demo_keys"
  obtain packet where tmpl: "?tmpl = Some packet" "length (packet_buffer packet) = 1232"
    using template_price [OF demo_sdk_laws demo_keys] by blast
  obtain g0 where g0: "generator_start demo_agents ?tmpl 1 demo_fresh ([] :: Packet list) = Some g0" "gen_ready g0"
    by (rule generator_start_ready [OF tmpl demo_agents_laws(2)])
  from generator_run_ok [OF demo_agents_laws(1) g0(2) ok(1), of demo_producer ?v6 True 0] obtain g where
    g: "generator_run demo_agents demo_producer ?v6 True 0 ?ds g0 = Some g" by blast
  define fs where "fs = (\<lambda>path. if path = ''packet-data/sigverify'' then Some (rec_written (mock_file ms))
    else Some (rec_written (gen_file g)))"
  have gens: "\<forall>name \<in> set [''sigverify'', ''tpu_to_qos1'']. name \<noteq> ''sigverify'' \<longrightarrow>
      generator_recorded demo_agents demo_producer ?v6 ?tmpl fs name (g0, ?ds)"
  proof -
    have "generator_file IPC_TPU_TO_QOS_NAME 1 = ''tpu_to_qos1''" by code_simp
    with g g0(1) ok(2) have "generator_recorded demo_agents demo_producer ?v6 ?tmpl fs ''tpu_to_qos1'' (g0, ?ds)"
      unfolding generator_recorded_def prod.case
      by (intro exI [of _ IPC_TPU_TO_QOS_NAME] exI [of _ 1] exI [of _ demo_fresh] exI [of _ "[]"] exI [of _ g])
        (simp add: fs_def del: generator_run.simps)
    then show ?thesis by simp
  qed
  have dir: "distinct [''sigverify'', ''tpu_to_qos1'']" "''sigverify'' \<in> set [''sigverify'', ''tpu_to_qos1'']" by simp_all
  have sig: "fs ''packet-data/sigverify'' = Some (rec_written (mock_file ms))" by (simp add: fs_def)
  have show1: "show_ipv4 (Ipv4Addr 1 1 1 1) = ''1.1.1.1''" by code_simp
  have lim: "take RECORD_LIMIT [a] = [a]" "take RECORD_LIMIT [a, b] = [a, b]" for a b :: observation
    by (rule take_all; simp add: RECORD_LIMIT_def)+
  have ob: "thread_traffic demo_agents (g0, ?ds) = [(Ipv4Addr 1 1 1 1, 400000), (Ipv4Addr 2 2 2 2, 100000)]"
    using demo_observations [OF g0(1)] by (simp add: thread_traffic_def numeral_2_eq_2 [symmetric] del: observations.simps)
  have rest: "remove1 ''sigverify'' [''sigverify'', ''tpu_to_qos1''] = [''tpu_to_qos1'']" by simp
  from analysis_recovers_traffic [OF demo_agents_laws(1,2) tmpl dir gens mock obs sig map_npz_laws, of "Ipv4Addr 1 1 1 1"]
  show ?thesis unfolding ob lim show1 rest by (auto simp: values_for_def simp del: mock_run.simps)
qed

end
