(* ===== verification/Packet_Bytes.thy ===== *)
theory Packet_Bytes
  imports Wire_Data
begin

text \<open>
  The representation of packets on the channels (common/src/packet_bytes.rs, internal-common/src/packet_bytes.rs and
  \<open>packet_bytes\<close> of internal-common/src/scored_transaction.rs): a packet is reinterpreted as \<open>PACKET_SIZE\<close> bytes and back.
  The layout of \<open>Packet\<close> belongs to another crate and is a parameter.
\<close>

section \<open>Operations\<close>

type_synonym PacketBytes = "u8 list"

definition packet_bytes_default :: PacketBytes where
  "packet_bytes_default = replicate PACKET_SIZE 0"

text \<open>
  A layout: the packets that are values of the type, their bytes in memory for any content \<open>pad\<close> of the padding,
  and the packet that bytes represent, \<open>None\<close> for bytes that are no value of the type.
\<close>

record layout =
  lay_valid :: "Packet \<Rightarrow> bool"
  lay_bytes :: "u8 list \<Rightarrow> Packet \<Rightarrow> u8 list"
  lay_read :: "u8 list \<Rightarrow> Packet option"

definition from_packet :: "layout \<Rightarrow> u8 list \<Rightarrow> Packet \<Rightarrow> PacketBytes" where
  "from_packet L pad packet = lay_bytes L pad packet"

text \<open>\<open>transmute\<close> requires equal sizes; the result for bytes that are no packet is undefined behaviour.\<close>

definition as_packet :: "layout \<Rightarrow> PacketBytes \<Rightarrow> Packet option" where
  "as_packet L packet_bytes = (if length packet_bytes = PACKET_SIZE then lay_read L packet_bytes else None)"

definition scored_packet_bytes :: "layout \<Rightarrow> u8 list \<Rightarrow> ScoredTransaction \<Rightarrow> PacketBytes" where
  "scored_packet_bytes L pad st = from_packet L pad (st_packet st)"

definition layout_laws :: "layout \<Rightarrow> bool" where
  "layout_laws L \<longleftrightarrow>
     (\<forall>pad packet. lay_valid L packet \<and> PACKET_SIZE \<le> length pad \<longrightarrow>
       length (lay_bytes L pad packet) = PACKET_SIZE \<and> lay_read L (lay_bytes L pad packet) = Some packet)"

section \<open>Round trip\<close>

text \<open>
  What one process pushes as bytes is what the other reads: packets keep their content and order on a
  channel that delivers bytes, whatever the padding holds, which justifies channels of packets in
  the models of the processes.
\<close>

lemma packet_bytes_roundtrip:
  "layout_laws L \<Longrightarrow> lay_valid L packet \<Longrightarrow> PACKET_SIZE \<le> length pad \<Longrightarrow> as_packet L (from_packet L pad packet) = Some packet"
  by (simp add: as_packet_def from_packet_def layout_laws_def)

lemma packets_survive_channel:
  assumes "layout_laws L" "\<forall>p \<in> set packets. lay_valid L p" "PACKET_SIZE \<le> length pad"
  shows "map (as_packet L) (map (from_packet L pad) packets) = map Some packets"
  using assms by (simp add: packet_bytes_roundtrip)

lemma scored_packet_bytes_roundtrip:
  "layout_laws L \<Longrightarrow> lay_valid L (st_packet st) \<Longrightarrow> PACKET_SIZE \<le> length pad \<Longrightarrow>
     as_packet L (scored_packet_bytes L pad st) = Some (st_packet st)"
  by (simp add: scored_packet_bytes_def packet_bytes_roundtrip)

section \<open>An instance\<close>

text \<open>
  Buffer, size, the tag of the address with its octets, port and flags, with padding in between, for IPv4
  senders.
\<close>

definition v4_layout :: layout where
  "v4_layout =
     \<lparr>lay_valid = \<lambda>p. length (packet_buffer p) = PACKET_DATA_SIZE \<and> (\<exists>ip. meta_addr (packet_meta p) = V4 ip),
      lay_bytes = \<lambda>pad p. packet_buffer p @ to_le_bytes 8 (meta_size (packet_meta p)) @
        [0] @ (case meta_addr (packet_meta p) of V4 ip \<Rightarrow> octets ip | V6 _ \<Rightarrow> take 4 pad) @ take 13 pad @
        to_le_bytes 2 (meta_port (packet_meta p)) @ [meta_flags (packet_meta p)] @ take 3 pad,
      lay_read = \<lambda>bs. if bs ! 1240 \<noteq> 0 then None
        else Some \<lparr>packet_buffer = take 1232 bs, packet_meta =
          \<lparr>meta_size = from_le_bytes (take 8 (drop 1232 bs)),
           meta_addr = V4 (Ipv4Addr (bs ! 1241) (bs ! 1242) (bs ! 1243) (bs ! 1244)),
           meta_port = from_le_bytes (take 2 (drop 1258 bs)), meta_flags = bs ! 1260\<rparr>\<rparr>\<rparr>"

lemma v4_layout_laws: "layout_laws v4_layout"
  unfolding layout_laws_def
proof (intro allI impI)
  fix pad :: "u8 list" and packet assume a: "lay_valid v4_layout packet \<and> PACKET_SIZE \<le> length pad"
  then obtain ip where ip: "meta_addr (packet_meta packet) = V4 ip" and len: "length (packet_buffer packet) = 1232" "16 \<le> length pad"
    by (auto simp: v4_layout_def PACKET_DATA_SIZE_def PACKET_SIZE_def)
  obtain a b c d where abcd: "ip = Ipv4Addr a b c d" by (cases ip)
  have min: "min (length pad) 13 = 13" "min (length pad) 3 = 3" using len by simp_all
  show "length (lay_bytes v4_layout pad packet) = PACKET_SIZE \<and> lay_read v4_layout (lay_bytes v4_layout pad packet) = Some packet"
    by (cases packet; cases "packet_meta packet")
      (use len ip abcd min in \<open>simp add: v4_layout_def PACKET_SIZE_def nth_append take_append drop_append\<close>)
qed

text \<open>Bytes such as those of the demonstration programs need not be a packet.\<close>

lemma arbitrary_bytes_no_packet: "as_packet v4_layout (replicate PACKET_SIZE 42) = None"
  by (simp add: as_packet_def v4_layout_def PACKET_SIZE_def)

end
