(* ===== verification/Channel_Demos.thy ===== *)
theory Channel_Demos
  imports Terminal_View Startup Packet_Bytes
begin

text \<open>
  The two demonstration programs (ipc-demo/src/main.rs over shared memory, std-demo/src/main.rs over the
  channel of the standard library): one thread sends packets, one receives them, both count batches of 1024 in
  shared counters, and the main thread shows the rates.

  The channel is a record of calls. That of the standard library is \<open>std_channel\<close>; the one in shared memory is
  external, and the contract \<open>packet_channel\<close> states what the programs rely on: nothing is received that was
  not sent, and nothing is received twice.
\<close>

section \<open>Packets and channels\<close>

definition demo_bytes :: "u8 list" where
  "demo_bytes = replicate PACKET_SIZE 42"

definition BATCH_SIZE :: nat where "BATCH_SIZE = 1024"

record 'q channel_ops =
  ch_push :: "u8 list \<Rightarrow> 'q \<Rightarrow> 'q"
  ch_sync :: "'q \<Rightarrow> 'q"
  ch_pop :: "'q \<Rightarrow> u8 list option \<times> 'q"

locale packet_channel =
  fixes C :: "'q channel_ops"
    and sent :: "'q \<Rightarrow> nat"
    and delivered :: "'q \<Rightarrow> nat"
  assumes push_counts: "sent (ch_push C p q) = Suc (sent q) \<and> delivered (ch_push C p q) = delivered q"
    and sync_counts: "sent (ch_sync C q) = sent q \<and> delivered (ch_sync C q) = delivered q"
    and pop_counts: "ch_pop C q = (r, q') \<Longrightarrow> sent q' = sent q \<and>
      delivered q' = (case r of None \<Rightarrow> delivered q | Some _ \<Rightarrow> Suc (delivered q)) \<and> (r \<noteq> None \<longrightarrow> delivered q < sent q)"

text \<open>
  The channel of the standard library, as the messages sent so far and the number received: \<open>send\<close> always
  succeeds while the receiver lives, and \<open>recv\<close> waits for the next message. It has no \<open>sync\<close>.
\<close>

type_synonym std_queue = "u8 list list \<times> nat"

definition std_send :: "u8 list \<Rightarrow> std_queue \<Rightarrow> std_queue" where
  "std_send p = (\<lambda>(msgs, k). (msgs @ [p], k))"

definition std_recv :: "std_queue \<Rightarrow> u8 list option \<times> std_queue" where
  "std_recv = (\<lambda>(msgs, k). if k < length msgs then (Some (msgs ! k), (msgs, Suc k)) else (None, (msgs, k)))"

definition std_channel :: "std_queue channel_ops" where
  "std_channel = \<lparr>ch_push = std_send, ch_sync = id, ch_pop = std_recv\<rparr>"

section \<open>The two threads\<close>

record 'q demo_sys =
  dm_chan :: 'q
  dm_pushed :: nat
  dm_synced :: bool
  dm_popped :: nat
  dm_writes :: usize
  dm_reads :: usize

definition demo_init :: "'q \<Rightarrow> 'q demo_sys" where
  "demo_init q = \<lparr>dm_chan = q, dm_pushed = 0, dm_synced = False, dm_popped = 0, dm_writes = 0, dm_reads = 0\<rparr>"

text \<open>One access to the channel or a counter per step.\<close>

inductive demo_step :: "'q channel_ops \<Rightarrow> 'q demo_sys \<Rightarrow> 'q demo_sys \<Rightarrow> bool" for C where
  push: "dm_pushed s < BATCH_SIZE \<Longrightarrow>
    demo_step C s (s\<lparr>dm_chan := ch_push C demo_bytes (dm_chan s), dm_pushed := Suc (dm_pushed s)\<rparr>)"
| sync: "dm_pushed s = BATCH_SIZE \<Longrightarrow> \<not> dm_synced s \<Longrightarrow>
    demo_step C s (s\<lparr>dm_chan := ch_sync C (dm_chan s), dm_synced := True\<rparr>)"
| count_writes: "dm_synced s \<Longrightarrow>
    demo_step C s (s\<lparr>dm_writes := dm_writes s + of_nat BATCH_SIZE, dm_pushed := 0, dm_synced := False\<rparr>)"
| pop: "dm_popped s < BATCH_SIZE \<Longrightarrow> ch_pop C (dm_chan s) = (Some p, q) \<Longrightarrow>
    demo_step C s (s\<lparr>dm_chan := q, dm_popped := Suc (dm_popped s)\<rparr>)"
| spin: "dm_popped s < BATCH_SIZE \<Longrightarrow> ch_pop C (dm_chan s) = (None, q) \<Longrightarrow> demo_step C s (s\<lparr>dm_chan := q\<rparr>)"
| count_reads: "dm_popped s = BATCH_SIZE \<Longrightarrow>
    demo_step C s (s\<lparr>dm_reads := dm_reads s + of_nat BATCH_SIZE, dm_popped := 0\<rparr>)"

section \<open>The display\<close>

record demo_rates =
  rate_rps :: f64
  rate_wps :: f64
  rate_rbps :: f64
  rate_wbps :: f64

definition demo_frame :: "u64 \<Rightarrow> usize \<Rightarrow> usize \<Rightarrow> demo_rates" where
  "demo_frame ms reads writes =
     (let elapsed_s = f64_div (f64_of_u64 ms) (f64_lit 1000);
          bits = reads * of_nat PACKET_SIZE * 8
      in \<lparr>rate_rps = f64_div (f64_div (f64_of_u64 reads) elapsed_s) (f64_lit 1000000),
          rate_wps = f64_div (f64_div (f64_of_u64 writes) elapsed_s) (f64_lit 1000000),
          rate_rbps = f64_div (f64_div (f64_of_u64 bits) elapsed_s) (f64_lit 1000000000),
          rate_wbps = f64_div (f64_div (f64_of_u64 bits) elapsed_s) (f64_lit 1000000000)\<rparr>)"

text \<open>What a turn of the display loop sees: the counters, the clock, and the results of drawing and of the keyboard.\<close>

record 'e demo_turn =
  di_reads :: usize
  di_writes :: usize
  di_now :: u64
  di_draw :: "'e + unit"
  di_poll :: "'e + bool"
  di_read :: "'e + event"

fun demo_run :: "u64 \<Rightarrow> Timer \<Rightarrow> 'e demo_turn list \<Rightarrow> (demo_rates list \<times> ('e + unit) option) option" where
  "demo_run ticks timer [] = Some ([], None)"
| "demo_run ticks timer (i # inputs) = do {
     ms \<leftarrow> elapsed_ms ticks (di_now i) timer;
     let rates = demo_frame ms (di_reads i) (di_writes i);
     case di_draw i of
       Inl e \<Rightarrow> Some ([], Some (Inl e))
     | Inr _ \<Rightarrow>
         (case should_quit (di_poll i) (di_read i) of
            Inl e \<Rightarrow> Some ([rates], Some (Inl e))
          | Inr True \<Rightarrow> Some ([rates], Some (Inr ()))
          | Inr False \<Rightarrow> map_option (\<lambda>(frames, r). (rates # frames, r)) (demo_run ticks timer inputs))
   }"

text \<open>The loop never panics and ends exactly at a failure or at the key.\<close>

lemma demo_run_ends:
  assumes "ticks \<noteq> 0"
  shows "\<exists>frames. demo_run ticks (RDTSC t) inputs =
    Some (frames, case dropWhile (\<lambda>i. loop_end (di_draw i) (di_poll i) (di_read i) = None) inputs of
      [] \<Rightarrow> None | i # _ \<Rightarrow> loop_end (di_draw i) (di_poll i) (di_read i))"
proof (induction inputs)
  case (Cons i inputs)
  obtain ms where ms: "elapsed_ms ticks (di_now i) (RDTSC t) = Some ms" using assms by (simp add: elapsed_ms_def)
  show ?case
    by (cases rule: loop_end_cases [of "di_draw i" "di_poll i" "di_read i"]) (use ms Cons.IH in \<open>auto simp: Let_def\<close>)
qed simp

section \<open>The main functions\<close>

text \<open>
  Start-up: every failure is a panic. \<open>open_mem\<close>, \<open>init_in\<close> and \<open>join_in\<close> are the calls of the shared-memory
  crate, \<open>mem_size\<close> the size of its channel type.
\<close>

definition ipc_demo_main ::
  "(string \<Rightarrow> int \<Rightarrow> PageSize \<Rightarrow> 'w \<Rightarrow> ('e + 'm) \<times> 'w) \<Rightarrow> ('m \<Rightarrow> 'w \<Rightarrow> ('e + unit) \<times> 'w) \<Rightarrow> ('m \<Rightarrow> 'w \<Rightarrow> ('e + 'q) \<times> 'w)
     \<Rightarrow> 'w sys_ops \<Rightarrow> string option \<Rightarrow> int \<Rightarrow> 'w \<Rightarrow> ('q demo_sys \<times> 'w) option" where
  "ipc_demo_main open_mem init_in join_in sys sudo_user mem_size w = do {
     (buffer, w) \<leftarrow> unwrap (open_mem ''que_demo'' mem_size Huge w);
     (_, w) \<leftarrow> unwrap (init_in buffer w);
     (q, w) \<leftarrow> unwrap (join_in buffer w);
     (case checked_drop_privileges sys sudo_user w of
        (Inl _, _) \<Rightarrow> None
      | (Inr _, w) \<Rightarrow> Some (demo_init q, w))
   }"

text \<open>The second program has the same display loop and, over its channel, the same threads.\<close>

definition std_demo_run :: "u64 \<Rightarrow> Timer \<Rightarrow> 'e demo_turn list \<Rightarrow> (demo_rates list \<times> ('e + unit) option) option" where
  "std_demo_run = demo_run"

definition std_demo_step :: "std_queue demo_sys \<Rightarrow> std_queue demo_sys \<Rightarrow> bool" where
  "std_demo_step = demo_step std_channel"

definition std_demo_main :: "std_queue demo_sys" where
  "std_demo_main = demo_init ([], 0)"

section \<open>The counters\<close>

text \<open>
  The counts behind the words: \<open>w\<close> and \<open>r\<close> batches were counted; what was pushed or popped since is in the
  local variables of the threads.
\<close>

definition demo_counts :: "('q \<Rightarrow> nat) \<Rightarrow> ('q \<Rightarrow> nat) \<Rightarrow> 'q demo_sys \<Rightarrow> nat \<Rightarrow> nat \<Rightarrow> bool" where
  "demo_counts sent delivered s w r \<longleftrightarrow>
     dm_writes s = of_nat (BATCH_SIZE * w) \<and> dm_reads s = of_nat (BATCH_SIZE * r) \<and>
     sent (dm_chan s) = BATCH_SIZE * w + dm_pushed s \<and> delivered (dm_chan s) = BATCH_SIZE * r + dm_popped s \<and>
     delivered (dm_chan s) \<le> sent (dm_chan s) \<and> dm_pushed s \<le> BATCH_SIZE \<and> dm_popped s \<le> BATCH_SIZE \<and>
     (dm_synced s \<longrightarrow> dm_pushed s = BATCH_SIZE)"

context packet_channel
begin

lemma counts_step:
  assumes "demo_step C s s'" and "demo_counts sent delivered s w r"
  shows "\<exists>w r. demo_counts sent delivered s' w r"
  using assms
proof (induction rule: demo_step.induct)
  case (push s)
  then have "demo_counts sent delivered (s\<lparr>dm_chan := ch_push C demo_bytes (dm_chan s), dm_pushed := Suc (dm_pushed s)\<rparr>) w r"
    using push_counts [of demo_bytes "dm_chan s"] by (auto simp: demo_counts_def)
  then show ?case by blast
next
  case (sync s)
  then have "demo_counts sent delivered (s\<lparr>dm_chan := ch_sync C (dm_chan s), dm_synced := True\<rparr>) w r"
    using sync_counts [of "dm_chan s"] by (simp add: demo_counts_def)
  then show ?case by blast
next
  case (count_writes s)
  then have "demo_counts sent delivered
      (s\<lparr>dm_writes := dm_writes s + of_nat BATCH_SIZE, dm_pushed := 0, dm_synced := False\<rparr>) (Suc w) r"
    by (simp add: demo_counts_def)
  then show ?case by blast
next
  case (pop s p q)
  then have "demo_counts sent delivered (s\<lparr>dm_chan := q, dm_popped := Suc (dm_popped s)\<rparr>) w r"
    using pop_counts [OF pop.hyps(2)] by (simp add: demo_counts_def)
  then show ?case by blast
next
  case (spin s q)
  then have "demo_counts sent delivered (s\<lparr>dm_chan := q\<rparr>) w r"
    using pop_counts [OF spin.hyps(2)] by (simp add: demo_counts_def)
  then show ?case by blast
next
  case (count_reads s)
  then have "demo_counts sent delivered (s\<lparr>dm_reads := dm_reads s + of_nat BATCH_SIZE, dm_popped := 0\<rparr>) w (Suc r)"
    by (simp add: demo_counts_def)
  then show ?case by blast
qed

lemma counts_reachable:
  assumes "(demo_step C)\<^sup>*\<^sup>* (demo_init q) s" and "sent q = 0" "delivered q = 0"
  shows "\<exists>w r. demo_counts sent delivered s w r"
  using assms(1)
proof (induction rule: rtranclp_induct)
  case base
  have "demo_counts sent delivered (demo_init q) 0 0" using assms(2,3) by (simp add: demo_counts_def demo_init_def)
  then show ?case by blast
qed (use counts_step in blast)

end

interpretation std: packet_channel std_channel "\<lambda>(msgs, k). length msgs" "\<lambda>(msgs, k). k"
  by unfold_locales (auto simp: std_channel_def std_send_def std_recv_def split: prod.splits if_splits option.splits)

lemma counts_exact:
  assumes "demo_counts sent delivered s w r" and "sent (dm_chan s) < 2 ^ 64"
  shows "unat (dm_writes s) = BATCH_SIZE * w" "unat (dm_reads s) = BATCH_SIZE * r"
proof -
  have "BATCH_SIZE * w < 2 ^ 64" "BATCH_SIZE * r < 2 ^ 64" using assms by (simp_all add: demo_counts_def)
  then show "unat (dm_writes s) = BATCH_SIZE * w" "unat (dm_reads s) = BATCH_SIZE * r"
    using assms(1) by (simp_all add: demo_counts_def unat_of_nat del: of_nat_mult)
qed

section \<open>Runs of the program over the standard channel\<close>

abbreviation std_state :: "nat \<Rightarrow> nat \<Rightarrow> nat \<Rightarrow> usize \<Rightarrow> std_queue demo_sys" where
  "std_state sent pushed received reads \<equiv> \<lparr>dm_chan = (replicate sent demo_bytes, received), dm_pushed = pushed, dm_synced = False,
     dm_popped = received, dm_writes = 0, dm_reads = reads\<rparr>"

lemma std_pushes:
  assumes "n \<le> BATCH_SIZE"
  shows "(demo_step std_channel)\<^sup>*\<^sup>* std_demo_main (std_state n n 0 0)"
  using assms
proof (induction n)
  case (Suc n)
  have "demo_step std_channel (std_state n n 0 0) (std_state (Suc n) (Suc n) 0 0)"
    using demo_step.push [of "std_state n n 0 0" std_channel] Suc.prems
    by (simp add: std_channel_def std_send_def replicate_append_same)
  with Suc show ?case by (auto intro: rtranclp.rtrancl_into_rtrancl)
qed (simp add: std_demo_main_def demo_init_def)

lemma std_pops:
  assumes "n \<le> m" "m \<le> BATCH_SIZE"
  shows "(demo_step std_channel)\<^sup>*\<^sup>* std_demo_main (std_state m m n 0)"
  using assms(1)
proof (induction n)
  case 0
  show ?case by (rule std_pushes [OF assms(2)])
next
  case (Suc n)
  have "demo_step std_channel (std_state m m n 0) (std_state m m (Suc n) 0)"
    using demo_step.pop [of "std_state m m n 0" std_channel demo_bytes "(replicate m demo_bytes, Suc n)"] Suc.prems assms(2)
    by (simp add: std_channel_def std_recv_def)
  with Suc show ?case by (auto intro: rtranclp.rtrancl_into_rtrancl)
qed

lemma std_counted_writes:
  "(demo_step std_channel)\<^sup>*\<^sup>* std_demo_main
     \<lparr>dm_chan = (replicate BATCH_SIZE demo_bytes, 0), dm_pushed = 0, dm_synced = False, dm_popped = 0, dm_writes = 1024, dm_reads = 0\<rparr>"
proof -
  let ?s = "std_state BATCH_SIZE BATCH_SIZE 0 0"
  have "demo_step std_channel ?s (?s\<lparr>dm_synced := True\<rparr>)"
    using demo_step.sync [of ?s std_channel] by (simp add: std_channel_def)
  moreover have "demo_step std_channel (?s\<lparr>dm_synced := True\<rparr>)
      \<lparr>dm_chan = (replicate BATCH_SIZE demo_bytes, 0), dm_pushed = 0, dm_synced = False, dm_popped = 0, dm_writes = 1024, dm_reads = 0\<rparr>"
    using demo_step.count_writes [of "?s\<lparr>dm_synced := True\<rparr>" std_channel] by (simp add: BATCH_SIZE_def)
  ultimately show ?thesis using std_pushes [of BATCH_SIZE] by (meson le_refl rtranclp.rtrancl_into_rtrancl)
qed

section \<open>A frame\<close>

lemma frame_after_one_batch:
  "rate_wps (demo_frame 1000 0 1024) \<noteq> Fin 0" "rate_wbps (demo_frame 1000 0 1024) = Fin 0"
proof -
  note r = round_f64_nat [of 0] round_f64_nat [of 1] round_f64_nat [of 1000] round_f64_nat [of 1024]
    round_f64_nat [of 1000000] round_f64_nat [of 1000000000]
  have u: "f64_of_u64 1000 = Fin 1000" "f64_of_u64 1024 = Fin 1024" "f64_of_u64 0 = Fin 0"
    using r by (simp_all add: f64_of_u64_def f64_of_nat_def)
  have l: "f64_lit 1000 = Fin 1000" "f64_lit 1000000 = Fin 1000000" "f64_lit 1000000000 = Fin 1000000000"
    using r by (simp_all add: f64_lit_def)
  have rep: "representable (1 / 1024)" "representable 1"
    using representable_pow2 [of "- 10"] representable_pow2 [of 0] by (simp_all add: power_int_minus)
  obtain q where q: "round_f64 (1024 / 1000000) = Fin q" "1 / 1024 \<le> q"
    by (rule round_between [OF _ rep(1) _ _ rep(2), of "1024 / 1000000"]) simp_all
  from u l r q(1) have "rate_wps (demo_frame 1000 0 1024) = Fin q" "rate_wbps (demo_frame 1000 0 1024) = Fin 0"
    by (simp_all add: demo_frame_def Let_def)
  with q(2) show "rate_wps (demo_frame 1000 0 1024) \<noteq> Fin 0" "rate_wbps (demo_frame 1000 0 1024) = Fin 0" by auto
qed

section \<open>Properties\<close>

text \<open>
  C28. The counters of the demonstration programs are exact: over any channel that delivers nothing unsent and
  nothing twice, in every interleaving of the two threads, and as long as fewer than \<open>2^64\<close> packets were sent, the
  shared counter of each thread and its unfinished batch add up to the packets it has sent or received, both counters
  are multiples of 1024, and the packets counted as read exceed those counted as written by at most one batch.\<close>

theorem demo_reads_bounded:
  assumes "packet_channel C sent delivered" and "sent q = 0" "delivered q = 0"
    and "(demo_step C)\<^sup>*\<^sup>* (demo_init q) s" and "sent (dm_chan s) < 2 ^ 64"
  shows "unat (dm_writes s) + dm_pushed s = sent (dm_chan s) \<and> unat (dm_reads s) + dm_popped s = delivered (dm_chan s) \<and>
    dm_pushed s \<le> BATCH_SIZE \<and> dm_popped s \<le> BATCH_SIZE \<and>
    BATCH_SIZE dvd unat (dm_writes s) \<and> BATCH_SIZE dvd unat (dm_reads s) \<and>
    unat (dm_reads s) \<le> unat (dm_writes s) + BATCH_SIZE"
proof -
  from packet_channel.counts_reachable [OF assms(1,4,2,3)] obtain w r where c: "demo_counts sent delivered s w r" by blast
  from counts_exact [OF c assms(5)] c show ?thesis by (simp add: demo_counts_def)
qed

text \<open>The bound is attained: a batch is received and counted before the producer has counted it.\<close>

theorem demo_reads_bounded_witness:
  "\<exists>s :: std_queue demo_sys. (demo_step std_channel)\<^sup>*\<^sup>* std_demo_main s \<and> dm_writes s = 0 \<and> unat (dm_reads s) = 1024 \<and>
     unat (dm_reads s) \<le> unat (dm_writes s) + BATCH_SIZE"
proof -
  let ?s = "std_state BATCH_SIZE BATCH_SIZE BATCH_SIZE 0"
  let ?t = "?s\<lparr>dm_reads := 1024, dm_popped := 0\<rparr>"
  have "demo_step std_channel ?s ?t" using demo_step.count_reads [of ?s std_channel] by (simp add: BATCH_SIZE_def)
  with std_pops [of BATCH_SIZE BATCH_SIZE] have t: "(demo_step std_channel)\<^sup>*\<^sup>* (demo_init ([], 0)) ?t"
    unfolding std_demo_main_def by (meson le_refl rtranclp.rtrancl_into_rtrancl)
  from demo_reads_bounded [OF std.packet_channel_axioms _ _ t] have
    "unat (dm_reads ?t) \<le> unat (dm_writes ?t) + BATCH_SIZE" by (simp add: BATCH_SIZE_def)
  with t show ?thesis unfolding std_demo_main_def by (intro exI [of _ ?t]) simp
qed

text \<open>
  The bandwidth shown for the producer is that of the consumer: in every frame both numbers agree, so
  after a batch was written and none read the producer is shown with a positive packet rate and zero
  bandwidth.\<close>

lemma producer_bandwidth_ignores_writes:
  "(\<forall>ms reads writes. rate_wbps (demo_frame ms reads writes) = rate_rbps (demo_frame ms reads writes)) \<and>
   (\<exists>s. std_demo_step\<^sup>*\<^sup>* std_demo_main s \<and>
      rate_wps (demo_frame 1000 (dm_reads s) (dm_writes s)) \<noteq> Fin 0 \<and>
      rate_wbps (demo_frame 1000 (dm_reads s) (dm_writes s)) = Fin 0)"
proof
  show "\<exists>s. std_demo_step\<^sup>*\<^sup>* std_demo_main s \<and>
      rate_wps (demo_frame 1000 (dm_reads s) (dm_writes s)) \<noteq> Fin 0 \<and>
      rate_wbps (demo_frame 1000 (dm_reads s) (dm_writes s)) = Fin 0"
    unfolding std_demo_step_def by (rule exI, rule conjI [OF std_counted_writes]) (simp add: frame_after_one_batch)
qed (simp add: demo_frame_def Let_def)

end
