(* ===== verification/Unit_Tests.thy ===== *)
theory Unit_Tests
  imports LRU_Interface Traffic_Agents MinMax_Heap
begin

text \<open>
  The unit tests of the repository, each a definition that says that all its assertions hold, run
  against the models: those of lru/src/lib.rs, minmax/src/lib.rs, common/src/remaining_meta.rs,
  internal-common/src/xxhash.rs and the price test of engine/src/agent.rs. They pass for every implementation
  of the external code that obeys its laws and for every content of fresh memory, except that the test
  of the packet metadata reads beyond its buffer.
\<close>

section \<open>The LRU cache\<close>

text \<open>
  A test is a sequence of calls with the asserted results; \<open>None\<close> where the result is not looked at. The
  cache is made by \<open>new_boxed\<close> from the memory \<open>raw\<close>.
\<close>

type_synonym ('k, 'v) script = "(('k, 'v) lru_op \<times> ('k, 'v) lru_res option) list"

definition agree :: "'a list \<Rightarrow> 'a option list \<Rightarrow> bool" where
  "agree rs es \<longleftrightarrow> list_all2 (\<lambda>r e. e = None \<or> e = Some r) rs es"

definition passes :: "nat \<Rightarrow> ('k, 'v) script \<Rightarrow> ('k, 'v) LRUCache \<Rightarrow> bool" where
  "passes N script raw =
     (case lru_exec N (map fst script) (lru_new_boxed N raw) of
        None \<Rightarrow> False | Some (rs, _) \<Rightarrow> agree rs (map snd script))"

abbreviation put_new :: "'k \<Rightarrow> 'v \<Rightarrow> ('k, 'v) lru_op \<times> ('k, 'v) lru_res option" where
  "put_new k v \<equiv> (OpPut k v, Some (ResPut None False))"

abbreviation put_over :: "'k \<Rightarrow> 'v \<Rightarrow> ('k, 'v) lru_op \<times> ('k, 'v) lru_res option" where
  "put_over k v \<equiv> (OpPut k v, Some (ResPut None True))"

abbreviation put_evicts :: "'k \<Rightarrow> 'v \<Rightarrow> 'k \<times> 'v \<Rightarrow> ('k, 'v) lru_op \<times> ('k, 'v) lru_res option" where
  "put_evicts k v e \<equiv> (OpPut k v, Some (ResPut (Some e) False))"

abbreviation hit :: "'k \<Rightarrow> 'v \<Rightarrow> ('k, 'v) lru_op \<times> ('k, 'v) lru_res option" where
  "hit k v \<equiv> (OpGet k, Some (ResGet (Some v)))"

abbreviation miss :: "'k \<Rightarrow> ('k, 'v) lru_op \<times> ('k, 'v) lru_res option" where
  "miss k \<equiv> (OpGet k, Some (ResGet None))"

type_synonym i32_cache = "(int, string) LRUCache"

definition test_insert_and_retrieve :: "i32_cache \<Rightarrow> bool" where
  "test_insert_and_retrieve = passes 2 [put_new 1 ''one'', put_new 2 ''two'', hit 1 ''one'', hit 2 ''two'']"

definition test_eviction :: "i32_cache \<Rightarrow> bool" where
  "test_eviction = passes 2
     [put_new 1 ''one'', put_new 2 ''two'', hit 1 ''one'', put_evicts 3 ''three'' (2, ''two''), hit 1 ''one'', miss 2,
      hit 3 ''three'']"

definition test_update_existing_key :: "i32_cache \<Rightarrow> bool" where
  "test_update_existing_key = passes 2
     [put_new 1 ''one'', put_new 2 ''two'', put_over 1 ''uno'', hit 1 ''uno'', hit 2 ''two'']"

definition test_lru_property :: "i32_cache \<Rightarrow> bool" where
  "test_lru_property = passes 3
     [put_new 1 ''one'', put_new 2 ''two'', put_new 3 ''three'', (OpGet 2, None), (OpGet 1, None), (OpGet 3, None),
      put_evicts 4 ''four'' (2, ''two''), hit 1 ''one'', miss 2, hit 3 ''three'', hit 4 ''four'']"

definition test_eviction_edge_case :: "i32_cache \<Rightarrow> bool" where
  "test_eviction_edge_case = passes 1 [put_new 1 ''one'', put_evicts 2 ''two'' (1, ''one''), miss 1, hit 2 ''two'']"

definition test_empty_cache :: "i32_cache \<Rightarrow> bool" where
  "test_empty_cache = passes 1 [miss 1]"

definition test_insert_same_key_multiple_times :: "i32_cache \<Rightarrow> bool" where
  "test_insert_same_key_multiple_times = passes 2 [put_new 1 ''one'', put_over 1 ''uno'', hit 1 ''uno'']"

definition test_multiple_evictions :: "i32_cache \<Rightarrow> bool" where
  "test_multiple_evictions = passes 2
     [put_new 1 ''one'', put_new 2 ''two'', put_evicts 3 ''three'' (1, ''one''), miss 1, hit 2 ''two'', hit 3 ''three'',
      put_evicts 4 ''four'' (2, ''two''), miss 2, hit 3 ''three'', hit 4 ''four'']"

text \<open>The capacity of this test is a parameter; the source uses 1000.\<close>

definition test_large_capacity :: "nat \<Rightarrow> (int, int) LRUCache \<Rightarrow> bool" where
  "test_large_capacity N = passes N
     (map (\<lambda>i. put_new i i) [0..int N - 1] @ map (\<lambda>i. hit i i) [0..int N - 1] @
      [put_evicts (int N) (int N) (0, 0), miss 0, hit (int N) (int N)])"

definition test_get_updates_lru_order :: "i32_cache \<Rightarrow> bool" where
  "test_get_updates_lru_order = passes 2
     [put_new 1 ''one'', put_new 2 ''two'', hit 1 ''one'', put_evicts 3 ''three'' (2, ''two''), hit 1 ''one'', miss 2,
      hit 3 ''three'']"

definition test_no_eviction_on_existing_key_update :: "i32_cache \<Rightarrow> bool" where
  "test_no_eviction_on_existing_key_update = passes 2
     [put_new 1 ''one'', put_new 2 ''two'', put_over 1 ''uno'', hit 1 ''uno'', hit 2 ''two'']"

definition test_pop :: "i32_cache \<Rightarrow> bool" where
  "test_pop = passes 3
     [(OpPut 1 ''one'', None), (OpPut 2 ''two'', None), (OpPut 3 ''three'', None), (OpPop 2, Some (ResPop (Some (2, ''two'')))),
      miss 2, hit 1 ''one'', hit 3 ''three'', (OpPop 4, Some (ResPop None))]"

text \<open>A test passes if the reference list gives the asserted results.\<close>

lemma passesI:
  assumes "0 < N" "length (nodes raw) = N" "agree (fst (spec_exec N (map fst script) [])) (map snd script)"
  shows "passes N script raw"
proof -
  obtain c where "lru_exec N (map fst script) (lru_new N) = Some (fst (spec_exec N (map fst script) []), c)"
    using lru_exec_refines [OF lru_new_inv [OF assms(1)], of "map fst script"] lru.new_ok [OF assms(1)] by metis
  then show ?thesis using assms(3) by (simp add: passes_def lru_new_boxed_correct [OF assms(2)])
qed

lemmas spec_ops = agree_def spec_get_def spec_put_def spec_pop_def

lemma spec_exec_append:
  "spec_exec N (xs @ ys) es =
     (case spec_exec N xs es of (rs, es) \<Rightarrow> case spec_exec N ys es of (ss, es) \<Rightarrow> (rs @ ss, es))"
  by (induction xs arbitrary: es) (auto split: prod.splits)

lemma spec_exec_puts:
  assumes "distinct ks" "set ks \<inter> fst ` set es = {}" "length ks + length es \<le> N"
  shows "spec_exec N (map (\<lambda>k. OpPut k (f k)) ks) es =
    (map (\<lambda>_. ResPut None False) ks, rev (map (\<lambda>k. (k, f k)) ks) @ es)"
  using assms
proof (induction ks arbitrary: es)
  case (Cons k ks)
  from Cons.prems have "spec_put N k (f k) es = ((None, False), (k, f k) # es)" by (auto simp: spec_put_def)
  moreover have "spec_exec N (map (\<lambda>k. OpPut k (f k)) ks) ((k, f k) # es) =
      (map (\<lambda>_. ResPut None False) ks, rev (map (\<lambda>k. (k, f k)) ks) @ (k, f k) # es)"
    by (rule Cons.IH) (use Cons.prems in auto)
  ultimately show ?case by simp
qed simp

lemma spec_exec_gets:
  assumes "distinct ks" "\<forall>k \<in> set ks. map_of es k = Some (f k)"
  shows "spec_exec N (map OpGet ks) es =
    (map (\<lambda>k. ResGet (Some (f k))) ks, rev (map (\<lambda>k. (k, f k)) ks) @ filter (\<lambda>e. fst e \<notin> set ks) es)"
  using assms
proof (induction ks arbitrary: es)
  case (Cons k ks)
  from Cons.prems have get: "spec_get k es = (Some (f k), (k, f k) # del_key k es)" by (auto simp: spec_get_def)
  have "map_of (del_key k es) k' = map_of es k'" if "k' \<noteq> k" for k'
    using that by (induction es) (auto simp: del_key_def)
  with Cons.prems have "\<forall>k' \<in> set ks. map_of ((k, f k) # del_key k es) k' = Some (f k')" by auto
  from Cons.IH [OF _ this] Cons.prems get show ?case
    by (simp add: del_key_def)
qed simp

lemma test_large_capacity_passes:
  assumes "0 < N" "length (nodes raw) = N"
  shows "test_large_capacity N raw"
  unfolding test_large_capacity_def
proof (rule passesI [OF assms])
  let ?ks = "[0..int N - 1]"
  let ?es = "rev (map (\<lambda>k. (k, k)) ?ks)"
  have puts: "spec_exec N (map (\<lambda>k. OpPut k k) ?ks) [] = (map (\<lambda>_. ResPut None False) ?ks, ?es)"
    using spec_exec_puts [of ?ks "[]" N "\<lambda>k. k"] by simp
  have "map_of ?es k = Some k" if "k \<in> set ?ks" for k
    using that by (intro map_of_is_SomeI) (auto simp: rev_map [symmetric] comp_def)
  moreover have "filter (\<lambda>e. fst e \<notin> set ?ks) ?es = []" by (auto simp: filter_empty_conv)
  ultimately have gets: "spec_exec N (map OpGet ?ks) ?es = (map (\<lambda>k. ResGet (Some k)) ?ks, ?es)"
    using spec_exec_gets [of ?ks ?es "\<lambda>k. k" N] by simp
  have ks: "?ks = 0 # [1..int N - 1]" using assms(1) by (simp add: upto.simps)
  then have last: "last ?es = (0, 0)" "butlast ?es = rev (map (\<lambda>k. (k, k)) [1..int N - 1])" by simp_all
  have "spec_exec N [OpPut (int N) (int N), OpGet 0, OpGet (int N)] ?es =
      ([ResPut (Some (0, 0)) False, ResGet None, ResGet (Some (int N))], (int N, int N) # butlast ?es)"
  proof -
    have "int N \<notin> fst ` set ?es" "length ?es = N" by auto
    then have "spec_put N (int N) (int N) ?es = ((Some (0, 0), False), (int N, int N) # butlast ?es)"
      using last(1) by (simp add: spec_put_def)
    moreover have "map_of ((int N, int N) # butlast ?es) 0 = None" using assms(1) last(2) by (auto simp: map_of_eq_None_iff)
    moreover have "del_key (int N) (butlast ?es) = butlast ?es" unfolding last(2) by (rule del_key_notin) auto
    ultimately show ?thesis by (simp add: spec_get_def)
  qed
  with puts gets show "agree (fst (spec_exec N (map fst (map (\<lambda>i. put_new i i) ?ks @ map (\<lambda>i. hit i i) ?ks @
      [put_evicts (int N) (int N) (0, 0), miss 0, hit (int N) (int N)])) []))
    (map snd (map (\<lambda>i. put_new i i) ?ks @ map (\<lambda>i. hit i i) ?ks @
      [put_evicts (int N) (int N) (0, 0), miss 0, hit (int N) (int N)]))"
    by (simp add: spec_exec_append agree_def comp_def list_all2_append list_all2_map1 list_all2_map2 list.rel_refl)
qed

section \<open>The bounded priority queue\<close>

text \<open>The three pushes that all tests of minmax/src/lib.rs begin with; \<open>None\<close> is a failed assertion.\<close>

definition filled :: "('h, u32) heap_ops \<Rightarrow> 'h option" where
  "filled H = do {
     (r3, h) \<leftarrow> mm_push H 4 3 (mm_new H 4);
     (r1, h) \<leftarrow> mm_push H 4 1 h;
     (r2, h) \<leftarrow> mm_push H 4 2 h;
     if r3 = None \<and> r1 = None \<and> r2 = None then Some h else None
   }"

definition test_max_capacity :: "('h, u32) heap_ops \<Rightarrow> bool" where
  "test_max_capacity H =
     (case do { h \<leftarrow> filled H; mm_push H 4 4 h } of None \<Rightarrow> False | Some (r, _) \<Rightarrow> r = Some 1)"

text \<open>\<open>n\<close> calls of \<open>next\<close> on the iterator.\<close>

fun next_values :: "('h, 'a) heap_ops \<Rightarrow> nat \<Rightarrow> 'h \<Rightarrow> 'a option list \<times> 'h" where
  "next_values H 0 h = ([], h)"
| "next_values H (Suc n) h =
     (case pop_desc_next H h of
        None \<Rightarrow> (case next_values H n h of (vs, h) \<Rightarrow> (None # vs, h))
      | Some (x, h) \<Rightarrow> (case next_values H n h of (vs, h) \<Rightarrow> (Some x # vs, h)))"

definition test_get_max_values :: "('h, u32) heap_ops \<Rightarrow> bool" where
  "test_get_max_values H =
     (case filled H of None \<Rightarrow> False | Some h \<Rightarrow> fst (next_values H 3 h) = [Some 3, Some 2, Some 1])"

text \<open>The iterator borrows the heap, so dropping it and making another continues where it stopped.\<close>

definition test_drops_after :: "('h, u32) heap_ops \<Rightarrow> bool" where
  "test_drops_after H =
     (case filled H of
        None \<Rightarrow> False
      | Some h \<Rightarrow>
          (case next_values H 1 h of (vs, h) \<Rightarrow> vs = [Some 3] \<and> fst (next_values H 1 h) = [Some 2]))"

lemma push_fresh:
  assumes "mm_inv id ok content H 4 h" "size (content h) < 3"
  obtains h' where "mm_push H 4 x h = Some (None, h')" "mm_inv id ok content H 4 h'" "content h' = add_mset x (content h)"
  using mm_push_ok [OF assms(1), of x] assms(2) by (auto split: option.splits)

lemma pop_greatest:
  assumes "mm_inv id ok content H 4 h" "content h = add_mset x M" "\<forall>y \<in># M. y < x"
  obtains h' where "pop_desc_next H h = Some (x, h')" "mm_inv id ok content H 4 h'" "content h' = M"
proof -
  have pop: "pops_extremal (\<lambda>x y. y \<le> x) (mm_inv id ok content H 4) content (pop_desc_next H) h"
    using mm.pop_max_ok [OF assms(1)] by simp
  then obtain z h' where z: "pop_desc_next H h = Some (z, h')" "mm_inv id ok content H 4 h'"
    "add_mset x M = add_mset z (content h')" "\<forall>y \<in># content h'. y \<le> z"
    using assms(2) by (auto simp: pops_extremal_def split: option.splits)
  have "z = x"
  proof (rule ccontr)
    assume "z \<noteq> x"
    with z(3) have "z \<in># M" "x \<in># content h'" by (auto simp: add_eq_conv_ex)
    with z(4) assms(3) show False by (meson leD)
  qed
  with z show ?thesis by (intro that) auto
qed

lemma filled_ok:
  assumes "heap_laws id ok content H"
  obtains h where "filled H = Some h" "mm_inv id ok content H 4 h" "content h = {#3, 2, 1#}"
proof -
  have new: "mm_inv id ok content H 4 (mm_new H 4)" "content (mm_new H 4) = {#}"
    using mm_new_ok [OF assms, of 4] by simp_all
  obtain h1 where 1: "mm_push H 4 3 (mm_new H 4) = Some (None, h1)" "mm_inv id ok content H 4 h1" "content h1 = {#3#}"
    by (rule push_fresh [OF new(1), of 3]) (use new(2) in simp_all)
  obtain h2 where 2: "mm_push H 4 1 h1 = Some (None, h2)" "mm_inv id ok content H 4 h2" "content h2 = {#1, 3#}"
    by (rule push_fresh [OF 1(2), of 1]) (use 1(3) in simp_all)
  obtain h3 where 3: "mm_push H 4 2 h2 = Some (None, h3)" "mm_inv id ok content H 4 h3" "content h3 = {#2, 1, 3#}"
    by (rule push_fresh [OF 2(2), of 2]) (use 2(3) in simp_all)
  show ?thesis by (rule that [of h3]) (use 1 2 3 in \<open>simp_all add: filled_def add_mset_commute\<close>)
qed

lemma test_max_capacity_passes:
  assumes "heap_laws id ok content H"
  shows "test_max_capacity H"
proof -
  obtain h where h: "filled H = Some h" "mm_inv id ok content H 4 h" "content h = {#3, 2, 1#}" by (rule filled_ok [OF assms])
  from mm_push_ok [OF h(2), of 4] h(3) obtain y h' where y: "mm_push H 4 4 h = Some (Some y, h')"
    "{#4, 3, 2, 1#} = add_mset y (content h')" "\<forall>z \<in># content h'. y \<le> z"
    by (auto split: option.splits)
  have "y = 1"
  proof (rule ccontr)
    assume "y \<noteq> 1"
    have "1 \<in># {#4, 3, 2, 1 :: u32#}" by simp
    then have "1 \<in># add_mset y (content h')" by (simp only: y(2))
    with \<open>y \<noteq> 1\<close> y(3) have "y \<le> 1" by auto
    moreover have "y \<in># {#4, 3, 2, 1 :: u32#}" by (simp add: y(2))
    ultimately show False using \<open>y \<noteq> 1\<close> by (auto simp: word_le_nat_alt)
  qed
  with h(1) y(1) show ?thesis by (simp add: test_max_capacity_def)
qed

lemma test_get_max_values_passes:
  assumes "heap_laws id ok content H"
  shows "test_get_max_values H" "test_drops_after H"
proof -
  obtain h where h: "filled H = Some h" "mm_inv id ok content H 4 h" "content h = {#3, 2, 1#}" by (rule filled_ok [OF assms])
  obtain h1 where 1: "pop_desc_next H h = Some (3, h1)" "mm_inv id ok content H 4 h1" "content h1 = {#2, 1#}"
    by (rule pop_greatest [OF h(2,3)]) simp_all
  obtain h2 where 2: "pop_desc_next H h1 = Some (2, h2)" "mm_inv id ok content H 4 h2" "content h2 = {#1#}"
    by (rule pop_greatest [OF 1(2,3)]) simp_all
  obtain h3 where 3: "pop_desc_next H h2 = Some (1, h3)"
    by (rule pop_greatest [OF 2(2,3)]) simp_all
  show "test_get_max_values H" "test_drops_after H"
    by (simp_all add: test_get_max_values_def test_drops_after_def h(1) 1(1) 2(1) 3 numeral_3_eq_3)
qed

section \<open>Messages and packets\<close>

definition round_trip :: "u8 list \<Rightarrow> u8 list \<Rightarrow> bool" where
  "round_trip garbage meta =
     (let remaining_meta = \<lparr>rm_packet_hash = 3, rm_execution_nanos = 123, rm_additional_metadata = meta\<rparr>
      in remaining_from_bytes (length meta) (remaining_as_bytes garbage remaining_meta) = Some remaining_meta)"

text \<open>The additional metadata is the unit value, a \<open>u64\<close>, and a packed struct of a \<open>u64\<close> and a \<open>u16\<close>.\<close>

definition round_trip_several_variants :: "u8 list \<Rightarrow> bool" where
  "round_trip_several_variants garbage \<longleftrightarrow>
     round_trip garbage [] \<and> round_trip garbage (to_le_bytes 8 (0x69 :: u64)) \<and>
     round_trip garbage (to_le_bytes 8 (0x69 :: u64) @ to_le_bytes 2 (0x420 :: u64))"

text \<open>\<open>unpack_packet_meta\<close> of the test reads fifteen bytes; a read beyond the buffer is \<open>None\<close>.\<close>

definition unpack_packet_meta :: "u8 list \<Rightarrow> Meta option" where
  "unpack_packet_meta bytes =
     (if length bytes < 15 then None
      else Some \<lparr>meta_size = from_le_bytes (take 8 bytes),
        meta_addr = V4 (Ipv4Addr (bytes ! 8) (bytes ! 9) (bytes ! 10) (bytes ! 11)),
        meta_port = ucast (from_le_bytes (take 2 (drop 12 bytes)) :: u64), meta_flags = bytes ! 14\<rparr>)"

text \<open>The test, with the length of its buffer as a parameter; the source uses 12.\<close>

definition test_packet_meta_round_trip :: "nat \<Rightarrow> bool" where
  "test_packet_meta_round_trip n =
     (let m = \<lparr>meta_size = from_le_bytes [1, 2, 3, 4, 5, 6, 7, 8], meta_addr = V4 (Ipv4Addr 9 10 11 12),
               meta_port = ucast (from_le_bytes [13, 14] :: u64), meta_flags = 0xFF\<rparr>
      in case Option.bind (write_packet_meta_bytes (replicate n 0) 0 m) unpack_packet_meta of
           None \<Rightarrow> False
         | Some unpacked \<Rightarrow> meta_addr unpacked = meta_addr m \<and> meta_size unpacked = meta_size m \<and>
             meta_flags unpacked = 0 \<and> meta_port unpacked = 0)"

definition test_read_price :: "('ix, 'tx) sdk_ops \<Rightarrow> u8 list \<times> u8 list \<Rightarrow> bool" where
  "test_read_price K keys =
     (case null_transfer_transaction_with_compute_unit_price K keys of
        None \<Rightarrow> False
      | Some packet \<Rightarrow> read_price packet = Some 115 \<and>
          (case update_compute_unit_price 139 (packet_buffer packet) of
             None \<Rightarrow> False
           | Some buf \<Rightarrow> read_price (packet\<lparr>packet_buffer := buf\<rparr>) = Some 139))"

lemma test_read_price_passes: "sdk_laws K \<Longrightarrow> unique_keys K keys \<Longrightarrow> test_read_price K keys"
  using template_price [of K keys 139] by (auto simp: test_read_price_def)

lemma round_trip_ok: "8 \<le> length garbage \<Longrightarrow> round_trip garbage meta"
  using remaining_meta_roundtrip(1) [of garbage "\<lparr>rm_packet_hash = 3, rm_execution_nanos = 123, rm_additional_metadata = meta\<rparr>"]
  by (simp add: round_trip_def)

lemma round_trip_several_variants_passes: "8 \<le> length garbage \<Longrightarrow> round_trip_several_variants garbage"
  by (simp add: round_trip_several_variants_def round_trip_ok)

section \<open>Properties\<close>

text \<open>
  The twelve unit tests of the LRU cache pass on the node-array model, whatever the fresh allocation
  of \<open>new_boxed\<close> holds; the test with 1000 entries is proved for every positive capacity.\<close>

lemma lru_unit_tests:
  assumes "length (nodes r1) = 1" "length (nodes r2) = 2" "length (nodes r3) = 3" "0 < N" "length (nodes rN) = N"
  shows "test_insert_and_retrieve r2 \<and> test_eviction r2 \<and> test_update_existing_key r2 \<and> test_lru_property r3 \<and>
    test_eviction_edge_case r1 \<and> test_empty_cache r1 \<and> test_insert_same_key_multiple_times r2 \<and>
    test_multiple_evictions r2 \<and> test_large_capacity N rN \<and> test_get_updates_lru_order r2 \<and>
    test_no_eviction_on_existing_key_update r2 \<and> test_pop r3"
proof (intro conjI)
  show "test_large_capacity N rN" by (rule test_large_capacity_passes [OF assms(4,5)])
  show "test_insert_and_retrieve r2" unfolding test_insert_and_retrieve_def by (rule passesI) (simp_all add: assms spec_ops)
  show "test_eviction r2" unfolding test_eviction_def by (rule passesI) (simp_all add: assms spec_ops)
  show "test_update_existing_key r2" unfolding test_update_existing_key_def by (rule passesI) (simp_all add: assms spec_ops)
  show "test_lru_property r3" unfolding test_lru_property_def by (rule passesI) (simp_all add: assms spec_ops)
  show "test_eviction_edge_case r1" unfolding test_eviction_edge_case_def by (rule passesI) (simp_all add: assms spec_ops)
  show "test_empty_cache r1" unfolding test_empty_cache_def by (rule passesI) (simp_all add: assms spec_ops)
  show "test_insert_same_key_multiple_times r2"
    unfolding test_insert_same_key_multiple_times_def by (rule passesI) (simp_all add: assms spec_ops)
  show "test_multiple_evictions r2" unfolding test_multiple_evictions_def by (rule passesI) (simp_all add: assms spec_ops)
  show "test_get_updates_lru_order r2" unfolding test_get_updates_lru_order_def by (rule passesI) (simp_all add: assms spec_ops)
  show "test_no_eviction_on_existing_key_update r2"
    unfolding test_no_eviction_on_existing_key_update_def by (rule passesI) (simp_all add: assms spec_ops)
  show "test_pop r3" unfolding test_pop_def by (rule passesI) (simp_all add: assms spec_ops)
qed

lemma lru_unit_tests_witness:
  "test_pop (lru_new 3) \<and> test_large_capacity 1000 (lru_new 1000)"
  using lru_unit_tests [of "lru_new 1" "lru_new 2" "lru_new 3" 1000 "lru_new 1000"] by (simp add: lru_new_def)

text \<open>
  The test of the packet metadata reads three bytes beyond its buffer of twelve; with fifteen bytes it passes.\<close>

lemma packet_meta_test_reads_beyond: "\<not> test_packet_meta_round_trip 12" "test_packet_meta_round_trip 15"
  by code_simp+

end
