(* ===== verification/Example_Programs.thy ===== *)
theory Example_Programs
  imports Ip_Signer_Model Packet_Generator
begin

text \<open>
  The example programs: model/examples/simple.rs and mock.rs, engine/examples/gen.rs, rng.rs and sample.rs, and
  timer/examples/timer.rs. What a program prints or writes is its result; \<open>None\<close> is a panic. The texts of
  floats and the base-58 encoding of keys belong to other code and are parameters.
\<close>

section \<open>Scores of a small model\<close>

definition example_ip_scores :: "(u32 \<times> f64) list" where
  "example_ip_scores =
     [(0xdeadbeef, f64_lit (1 / 10)), (0xbeefdead, f64_lit (1 / 5)), (0x0dadbad0, f64_lit (1 / 10)), (0xfabafaba, f64_lit (3 / 10))]"

definition example_signer_scores :: "(pubkey \<times> f64) list" where
  "example_signer_scores =
     [(replicate 32 0, f64_lit (1 / 10)), (replicate 32 1, f64_lit (1 / 5)), (replicate 32 2, f64_lit (1 / 10)),
      (replicate 32 3, f64_lit (3 / 10))]"

definition example_queries :: "(u32 \<times> pubkey) list" where
  "example_queries = [(0xdeadbeef, replicate 32 0), (0xbeefdead, replicate 32 1), (0xdeadbeef, replicate 32 5)]"

definition score_message :: "(f64 \<Rightarrow> string) \<Rightarrow> (pubkey \<Rightarrow> string) \<Rightarrow> f64 \<Rightarrow> u32 \<Rightarrow> pubkey \<Rightarrow> string" where
  "score_message show_f64 encode_32 score ip signer =
     ''score '' @ show_f64 score @ '' for ip '' @ decimal (unat ip) @ '' signer '' @ encode_32 signer"

definition simple_main :: "('ms, 'mi, 'vs, 'vi) model_trees \<Rightarrow> (f64 \<Rightarrow> string) \<Rightarrow> (pubkey \<Rightarrow> string) \<Rightarrow> string list" where
  "simple_main T show_f64 encode_32 =
     (let model = model_new T example_ip_scores example_signer_scores
      in map (\<lambda>(ip, signer). score_message show_f64 encode_32 (model_forward T model ip signer) ip signer) example_queries)"

definition mock_pretrained_model :: "('ms, 'mi, 'vs, 'vi) model_trees \<Rightarrow> ('ms, 'mi, 'vs, 'vi) IpSignerModel" where
  "mock_pretrained_model T = model_new T example_ip_scores example_signer_scores"

definition mock_transactions :: "unit QoSTransactionMeta list" where
  "mock_transactions =
     replicate 5 (new_for_tests 0xdeadbeef (replicate 32 0) 1000 1000 ()) @
     replicate 5 (new_for_tests 0xdeadbeef (replicate 32 1) 1000 1000 ())"

definition mock_example_main :: "('ms, 'mi, 'vs, 'vi) model_trees \<Rightarrow> ('ms, 'mi, 'vs, 'vi) IpSignerModel option" where
  "mock_example_main T = update_model T mock_transactions 5 5 (mock_pretrained_model T)"

lemma example_keys: "distinct (map fst example_ip_scores)" "distinct (map fst example_signer_scores)"
  by (simp_all add: example_ip_scores_def example_signer_scores_def)

lemma example_model:
  assumes "model_laws NS NI Ok T" "4 \<le> NS" "4 \<le> NI"
  shows "model_inv Ok T (model_new T example_ip_scores example_signer_scores)"
    "ip_score_map T (model_new T example_ip_scores example_signer_scores) = map_of example_ip_scores"
    "signer_score_map T (model_new T example_ip_scores example_signer_scores) = map_of example_signer_scores"
proof -
  have "length example_ip_scores \<le> NI" "length example_signer_scores \<le> NS"
    using assms(2,3) by (simp_all add: example_ip_scores_def example_signer_scores_def)
  note new = model_new_ok [OF assms(1) example_keys(1) this(1) example_keys(2) this(2)]
  show "model_inv Ok T (model_new T example_ip_scores example_signer_scores)"
    "ip_score_map T (model_new T example_ip_scores example_signer_scores) = map_of example_ip_scores"
    "signer_score_map T (model_new T example_ip_scores example_signer_scores) = map_of example_signer_scores"
    by (rule new)+
qed

text \<open>
  The first example prints the products of the stored scores for known keys; for the unknown signer the
  score of the root of the signer tree takes the place of its own, which is one of the stored scores.
\<close>

lemma simple_main_output:
  assumes laws: "model_laws NS NI Ok T" and "4 \<le> NS" "4 \<le> NI"
  shows "\<exists>median \<in> {f64_lit (1 / 10), f64_lit (1 / 5), f64_lit (3 / 10)}.
    simple_main T show_f64 encode_32 =
      [score_message show_f64 encode_32 (f64_mul (f64_lit (1 / 10)) (f64_lit (1 / 10))) 0xdeadbeef (replicate 32 0),
       score_message show_f64 encode_32 (f64_mul (f64_lit (1 / 5)) (f64_lit (1 / 5))) 0xbeefdead (replicate 32 1),
       score_message show_f64 encode_32 (f64_mul (f64_lit (1 / 10)) median) 0xdeadbeef (replicate 32 5)]"
proof -
  let ?m = "model_new T example_ip_scores example_signer_scores"
  note m = example_model [OF assms]
  let ?median = "approximate_median_signer_score T ?m"
  have "?median \<in> ran (map_of example_signer_scores)"
  proof (cases rule: median_cases [OF model_lawsD(1) [OF laws] model_invD(1) [OF m(1)]])
    case 1
    then have "map_of example_signer_scores = Map.empty" using m(3) by simp
    then show ?thesis by (simp only: map_of_eq_empty_iff) (simp add: example_signer_scores_def)
  next
    case (2 k)
    then show ?thesis using m(3) by (auto simp: approximate_median_signer_score_def ran_def)
  qed
  then have med: "?median \<in> {f64_lit (1 / 10), f64_lit (1 / 5), f64_lit (3 / 10)}"
    by (auto simp: example_signer_scores_def ran_def split: if_splits)
  have "t_get (ip_tree T) (ip_score ?m) = map_of example_ip_scores"
    "t_get (signer_tree T) (signer_score ?m) = map_of example_signer_scores" using m(2,3) by simp_all
  then have "ip_score_or_median T ?m 0xdeadbeef = f64_lit (1 / 10)" "ip_score_or_median T ?m 0xbeefdead = f64_lit (1 / 5)"
    "signer_score_or_median T ?m (replicate 32 0) = f64_lit (1 / 10)" "signer_score_or_median T ?m (replicate 32 1) = f64_lit (1 / 5)"
    "signer_score_or_median T ?m (replicate 32 5) = ?median"
    by (simp_all add: ip_score_or_median_def signer_score_or_median_def example_ip_scores_def example_signer_scores_def)
  with med show ?thesis by (intro bexI [of _ ?median]) (simp_all add: simple_main_def example_queries_def model_forward_def)
qed

text \<open>An update without new keys and with room for all old ones only rescores.\<close>

lemma dom_updated_scores: "dom cands \<subseteq> dom g \<Longrightarrow> dom (updated_scores med cands g) = dom g"
  by (auto simp: updated_scores_def split: option.splits) blast+

lemma nothing_pruned:
  assumes "g' \<subseteq>\<^sub>m g" "finite (dom g)" "map_size g' = min (map_size g) n" "map_size g \<le> n"
  shows "g' = g"
proof -
  have "dom g' = dom g" using card_subset_eq [OF assms(2) map_le_implies_dom_le [OF assms(1)]] assms(3,4) by simp
  with assms(1) show ?thesis by (metis map_le_antisym map_le_def)
qed

lemma mock_values: "tm_value (new_for_tests ip signer 1000 1000 a) = ONE"
  using round_f64_nat [of 1] by (simp add: new_for_tests_def f64_of_u64_exact ONE_def)

text \<open>A key observed at least five times, always with the value one, has the target one.\<close>

lemma candidate_of_ones:
  "n < 2 ^ 32 - 1 \<Longrightarrow> candidate_of (replicate (Suc n) ONE) = Some \<lparr>score_sum = Fin (of_nat (Suc n)), sc_count = of_nat (Suc n)\<rparr>"
proof (induction n)
  case (Suc n)
  have "replicate (Suc (Suc n)) ONE = replicate (Suc n) ONE @ [ONE]" by (simp add: replicate_append_same)
  then have "candidate_of (replicate (Suc (Suc n)) ONE) =
      Some (case candidate_of (replicate (Suc n) ONE) of Some sc \<Rightarrow> candidate_update ONE sc | None \<Rightarrow> candidate_new ONE)"
    by (simp only: candidate_of_snoc)
  moreover have "round_f64 (of_nat (Suc (Suc n))) = Fin (of_nat (Suc (Suc n)))" using Suc.prems by (intro round_f64_nat) simp
  ultimately show ?case using Suc by (simp add: candidate_update_def ONE_def add.commute)
qed (simp add: candidate_new_def ONE_def)

lemma target_of_ones:
  assumes "5 \<le> n" "n < 2 ^ 32"
  shows "target_score med (candidate_of (replicate n ONE)) = ONE"
proof -
  have count: "unat (of_nat n :: u32) = n" using assms(2) by (simp add: unat_of_nat)
  obtain k where n: "n = Suc k" using assms(1) by (cases n) simp_all
  have "k < 2 ^ 32 - 1" using assms(2) n by simp
  from candidate_of_ones [OF this] have c: "candidate_of (replicate n ONE) = Some \<lparr>score_sum = Fin (of_nat n), sc_count = of_nat n\<rparr>"
    by (simp only: n)
  have "f64_of_u32 (of_nat n) = Fin (of_nat n)"
    using assms(2) by (simp add: f64_of_u32_def f64_of_nat_def count round_f64_nat)
  then have "candidate_finalize \<lparr>score_sum = Fin (of_nat n), sc_count = of_nat n\<rparr> = ONE"
    using assms(1) round_f64_nat [of 1] by (simp add: candidate_finalize_def ONE_def)
  moreover have "min_observations \<le> (of_nat n :: u32)" using assms(1) by (simp add: word_le_nat_alt count min_observations_def)
  ultimately show ?thesis by (simp add: target_score_def c)
qed

lemma mock_targets:
  "target_score med (batch_candidates tm_ip tm_value mock_transactions 0xdeadbeef) = ONE"
  "target_score med (batch_candidates tm_signer tm_value mock_transactions (replicate 32 0)) = ONE"
  "target_score med (batch_candidates tm_signer tm_value mock_transactions (replicate 32 1)) = ONE"
proof -
  have keys: "tm_ip (new_for_tests ip signer f t ()) = ip" "tm_signer (new_for_tests ip signer f t ()) = signer" for ip signer f t
    by (simp_all add: new_for_tests_def)
  have "replicate 5 ONE @ replicate 5 ONE = replicate 10 ONE" by (simp flip: replicate_add)
  with target_of_ones [of 10] show "target_score med (batch_candidates tm_ip tm_value mock_transactions 0xdeadbeef) = ONE"
    by (simp add: batch_candidates_def mock_transactions_def keys mock_values filter_replicate)
  from target_of_ones [of 5] show "target_score med (batch_candidates tm_signer tm_value mock_transactions (replicate 32 0)) = ONE"
    "target_score med (batch_candidates tm_signer tm_value mock_transactions (replicate 32 1)) = ONE"
    by (simp_all add: batch_candidates_def mock_transactions_def keys mock_values filter_replicate)
qed

lemma example_sizes: "map_size (map_of example_ip_scores) = 4" "map_size (map_of example_signer_scores) = 4"
proof -
  have "card (set (map fst example_ip_scores)) = 4" "card (set (map fst example_signer_scores)) = 4"
    unfolding distinct_card [OF example_keys(1)] distinct_card [OF example_keys(2)]
    by (simp_all add: example_ip_scores_def example_signer_scores_def)
  then show "map_size (map_of example_ip_scores) = 4" "map_size (map_of example_signer_scores) = 4"
    by (simp_all only: dom_map_of_conv_image_fst set_map)
qed

lemma mock_keys:
  "tm_ip ` set mock_transactions \<subseteq> dom (map_of example_ip_scores)"
  "tm_signer ` set mock_transactions \<subseteq> dom (map_of example_signer_scores)"
proof -
  have "tm_ip ` set mock_transactions = {0xdeadbeef}" "tm_signer ` set mock_transactions = {replicate 32 0, replicate 32 1}"
    by (simp_all add: mock_transactions_def image_Un new_for_tests_def insert_commute)
  then show "tm_ip ` set mock_transactions \<subseteq> dom (map_of example_ip_scores)"
    "tm_signer ` set mock_transactions \<subseteq> dom (map_of example_signer_scores)"
    by (simp_all add: example_ip_scores_def example_signer_scores_def)
qed

lemma batch_candidates_dom: "dom (batch_candidates key val txs) \<subseteq> key ` set txs"
proof
  fix k assume "k \<in> dom (batch_candidates key val txs)"
  then have "filter (\<lambda>t. key t = k) txs \<noteq> []" by (auto simp: batch_candidates_def)
  then show "k \<in> key ` set txs" by (auto simp: filter_empty_conv)
qed

lemma new_keys_none: "key ` set txs \<subseteq> dom g \<Longrightarrow> new_keys key txs g = 0"
  by (simp add: new_keys_def Diff_eq_empty_iff [THEN iffD2])

text \<open>
  The second example never panics and prunes nothing: it keeps the keys of the pretrained model and moves
  the scores of the address and of the two signers it saw towards one.
\<close>

lemma mock_example_trains:
  assumes laws: "model_laws NS NI Ok T" and "5 \<le> NS" "5 \<le> NI"
  shows "\<exists>m'. mock_example_main T = Some m' \<and> model_inv Ok T m' \<and>
    dom (ip_score_map T m') = fst ` set example_ip_scores \<and> dom (signer_score_map T m') = fst ` set example_signer_scores \<and>
    ip_score_map T m' 0xdeadbeef = Some (ema (f64_lit (1 / 10)) ONE) \<and>
    signer_score_map T m' (replicate 32 0) = Some (ema (f64_lit (1 / 10)) ONE) \<and>
    signer_score_map T m' (replicate 32 1) = Some (ema (f64_lit (1 / 5)) ONE)"
proof -
  let ?m = "mock_pretrained_model T"
  have "4 \<le> NS" "4 \<le> NI" using assms by simp_all
  note m = example_model [OF laws this, folded mock_pretrained_model_def]
  have room: "room_for T NS NI mock_transactions ?m"
    unfolding room_for_def m(2,3) new_keys_none [OF mock_keys(1)] new_keys_none [OF mock_keys(2)] example_sizes using assms by simp
  note up = update_tables_ok [OF laws m(1) room, unfolded m]
  have dom: "dom (ip_score_map T (update_tables T mock_transactions ?m)) = dom (map_of example_ip_scores)"
    "dom (signer_score_map T (update_tables T mock_transactions ?m)) = dom (map_of example_signer_scores)"
    unfolding up(2,3) by (intro dom_updated_scores order_trans [OF batch_candidates_dom] mock_keys)+
  obtain m' where m': "prune T 5 5 (update_tables T mock_transactions ?m) = Some m'" "model_inv Ok T m'"
    and le: "ip_score_map T m' \<subseteq>\<^sub>m ip_score_map T (update_tables T mock_transactions ?m)"
    "map_size (ip_score_map T m') = min (map_size (ip_score_map T (update_tables T mock_transactions ?m))) 5"
    "signer_score_map T m' \<subseteq>\<^sub>m signer_score_map T (update_tables T mock_transactions ?m)"
    "map_size (signer_score_map T m') = min (map_size (signer_score_map T (update_tables T mock_transactions ?m))) 5"
    by (rule prune_ok [OF laws up(1), of 5 5])
  have "ip_score_map T m' = ip_score_map T (update_tables T mock_transactions ?m)"
    by (rule nothing_pruned [OF le(1) _ le(2)]) (simp_all only: dom example_sizes finite_dom_map_of)
  moreover have "signer_score_map T m' = signer_score_map T (update_tables T mock_transactions ?m)"
    by (rule nothing_pruned [OF le(3) _ le(4)]) (simp_all only: dom example_sizes finite_dom_map_of)
  ultimately have all: "ip_score_map T m' = ip_score_map T (update_tables T mock_transactions ?m)"
    "signer_score_map T m' = signer_score_map T (update_tables T mock_transactions ?m)" .
  have old: "map_of example_ip_scores 0xdeadbeef = Some (f64_lit (1 / 10))"
    "map_of example_signer_scores (replicate 32 0) = Some (f64_lit (1 / 10))"
    "map_of example_signer_scores (replicate 32 1) = Some (f64_lit (1 / 5))"
    by (simp_all add: example_ip_scores_def example_signer_scores_def)
  have "mock_example_main T = Some m'" by (simp only: mock_example_main_def update_model_def m'(1))
  moreover have "dom (ip_score_map T m') = fst ` set example_ip_scores" "dom (signer_score_map T m') = fst ` set example_signer_scores"
    by (simp_all only: all dom dom_map_of_conv_image_fst)
  moreover have "ip_score_map T m' 0xdeadbeef = Some (ema (f64_lit (1 / 10)) ONE)"
    "signer_score_map T m' (replicate 32 0) = Some (ema (f64_lit (1 / 10)) ONE)"
    "signer_score_map T m' (replicate 32 1) = Some (ema (f64_lit (1 / 5)) ONE)"
    by (simp_all only: all up(2,3) updated_scores_def old mock_targets option.simps)
  ultimately show ?thesis using m'(2) by blast
qed

section \<open>Samples of the random source\<close>

text \<open>The files are written without failure; \<open>show_f32\<close> is the text of a float.\<close>

fun rng_lines :: "('k, 'd) agent_ops \<Rightarrow> (f64 \<Rightarrow> string) \<Rightarrow> nat \<Rightarrow> FastxxHashRng \<Rightarrow> string" where
  "rng_lines A show_f32 0 rng = []"
| "rng_lines A show_f32 (Suc n) rng =
     (case gen_f32 A rng of (x, rng) \<Rightarrow> show_f32 x @ [newline] @ rng_lines A show_f32 n rng)"

definition rng_main :: "('k, 'd) agent_ops \<Rightarrow> (f64 \<Rightarrow> string) \<Rightarrow> string" where
  "rng_main A show_f32 = rng_lines A show_f32 100000 (rng_new (ag_hash A) 0x123)"

fun sample_lines :: "('k, 'd) agent_ops \<Rightarrow> ('k, 'd) Signer \<Rightarrow> nat \<Rightarrow> FastxxHashRng \<Rightarrow> string" where
  "sample_lines A signer 0 rng = []"
| "sample_lines A signer (Suc n) rng =
     (case sample_cu_price A signer rng of (price, rng) \<Rightarrow> decimal (unat price) @ [newline] @ sample_lines A signer n rng)"

text \<open>The printed line and the file \<open>sample\<close>.\<close>

definition sample_main :: "('k, 'd) agent_ops \<Rightarrow> 'k \<Rightarrow> (string \<times> string) option" where
  "sample_main A key = do {
     signer \<leftarrow> signer_new A key (f32_ln A (Fin 100000000)) (Fin 5);
     Some (''signer should have mean '' @ decimal (unat (mean_price A signer)),
       sample_lines A signer 100000 (rng_new (ag_hash A) 0xABC))
   }"

lemma sample_lines_parse:
  "\<exists>prices. length prices = n \<and> map parse_u64 (lines_of (sample_lines A signer n rng)) = map Some prices \<and>
     (\<forall>p \<in> set prices. unat p \<le> 1000000000)"
proof -
  have "\<exists>prices :: u64 list. length prices = n \<and> sample_lines A signer n rng = concat (map (\<lambda>l. l @ [newline]) (map (\<lambda>p. decimal (unat p)) prices)) \<and>
     (\<forall>p \<in> set prices. unat p \<le> 1000000000)"
  proof (induction n arbitrary: rng)
    case (Suc n)
    obtain sample rng' where s: "lognormal_sample A (cu_price_distribution signer) rng = (sample, rng')" by force
    from Suc.IH [of rng'] obtain prices :: "u64 list" where "length prices = n"
      "sample_lines A signer n rng' = concat (map (\<lambda>l. l @ [newline]) (map (\<lambda>p. decimal (unat p)) prices))"
      "\<forall>p \<in> set prices. unat p \<le> 1000000000" by blast
    then show ?case using price_of_sample_bound [of sample]
      by (intro exI [of _ "price_of_sample sample # prices"]) (simp add: sample_cu_price_def s)
  qed simp
  then obtain prices :: "u64 list" where p: "length prices = n" "\<forall>p \<in> set prices. unat p \<le> 1000000000"
    "sample_lines A signer n rng = concat (map (\<lambda>l. l @ [newline]) (map (\<lambda>p. decimal (unat p)) prices))" by blast
  have "newline \<notin> set (decimal k) \<and> CHR 0x0D \<notin> set (decimal k)" for k
    using decimal_digits [of k] by (auto simp: list_all_iff is_digit_def newline_def)
  then have "lines_of (sample_lines A signer n rng) = map (\<lambda>p. decimal (unat p)) prices"
    unfolding p(3) by (intro lines_of_concat) auto
  then have "map parse_u64 (lines_of (sample_lines A signer n rng)) = map Some prices"
    by (simp add: parse_u64_shown)
  with p(1,2) show ?thesis by blast
qed

text \<open>
  The program \<open>sample\<close> does not panic if the distribution exists, and its file holds 100000 numbers, none above \<open>1e9\<close>.
\<close>

lemma sample_main_ok:
  assumes "lognormal_new A (f32_ln A (Fin 100000000)) (Fin 5) \<noteq> None"
  shows "\<exists>line file prices. sample_main A key = Some (line, file) \<and> map parse_u64 (lines_of file) = map Some prices \<and>
    length prices = 100000 \<and> (\<forall>p \<in> set prices. unat p \<le> 1000000000)"
proof -
  from assms obtain d where "lognormal_new A (f32_ln A (Fin 100000000)) (Fin 5) = Some d" by blast
  moreover obtain prices where "length prices = 100000" "\<forall>p \<in> set prices. unat p \<le> 1000000000"
    "map parse_u64 (lines_of (sample_lines A \<lparr>keypair = key, log_mean = f32_ln A (Fin 100000000), std = Fin 5, cu_price_distribution = d\<rparr>
       100000 (rng_new (ag_hash A) 0xABC))) = map Some prices"
    using sample_lines_parse by blast
  ultimately show ?thesis by (auto simp: sample_main_def signer_new_def simp del: sample_lines.simps)
qed

section \<open>Timed programs\<close>

text \<open>The update of one packet in a loop; the draws are the blockhash and the signature bytes of each round.\<close>

fun update_rounds :: "('k, 'd) agent_ops \<Rightarrow> gen_draw list \<Rightarrow> ('k, 'd) Ip \<Rightarrow> Packet \<Rightarrow> (('k, 'd) Ip \<times> Packet) option" where
  "update_rounds A [] ip packet = Some (ip, packet)"
| "update_rounds A (d # ds) ip packet = do {
     (ip, packet) \<leftarrow> update_transfer_with_priority A (draw_blockhash d) (draw_signature d) ip packet;
     update_rounds A ds ip packet
   }"

text \<open>\<open>rdtsc\<close> and \<open>now\<close> are the readings of the counter by \<open>Timer::new\<close> and \<open>elapsed_ms\<close>.\<close>

definition gen_main :: "('k, 'd) agent_ops \<Rightarrow> ('ix, 'tx) sdk_ops \<Rightarrow> u8 list \<times> u8 list \<Rightarrow> surroundings \<Rightarrow> u64 \<times> 'k
    \<Rightarrow> gen_draw list \<Rightarrow> u64 \<Rightarrow> u64 \<Rightarrow> string option" where
  "gen_main A K keys v fresh ds rdtsc now = do {
     st \<leftarrow> memoize_ticks_per_ms_and_invariant_tsc_check v statics_new;
     ip \<leftarrow> ip_new A fresh (Ipv4Addr 0 0 0 0) (f32_ln A (Fin 1000000)) (Fin 3);
     packet \<leftarrow> null_transfer_transaction_with_compute_unit_price K keys;
     (supported, st) \<leftarrow> cell_supports v st;
     let timer = (if supported then RDTSC rdtsc else Instant);
     _ \<leftarrow> update_rounds A ds ip packet;
     (r, st) \<leftarrow> run_call v (ElapsedMs now timer) st;
     case r of Millis ms \<Rightarrow> Some (''done in '' @ decimal (unat ms) @ '' millis'') | MadeTimer _ \<Rightarrow> None
   }"

definition timer_main :: "surroundings \<Rightarrow> u64 \<Rightarrow> u64 \<Rightarrow> string option" where
  "timer_main v rdtsc now = do {
     st \<leftarrow> memoize_ticks_per_ms_and_invariant_tsc_check v statics_new;
     (supported, st) \<leftarrow> cell_supports v st;
     let timer = (if supported then RDTSC rdtsc else Instant);
     (r, st) \<leftarrow> run_call v (ElapsedMs now timer) st;
     case r of Millis ms \<Rightarrow> Some (''timer measured '' @ decimal (unat ms) @ '' ms'') | MadeTimer _ \<Rightarrow> None
   }"

lemma update_rounds_ok:
  assumes "length (packet_buffer packet) = 1232" "\<forall>d \<in> set ds. draw_ok d"
  shows "\<exists>ip' packet'. update_rounds A ds ip packet = Some (ip', packet')"
  using assms
proof (induction ds arbitrary: ip packet)
  case (Cons d ds)
  then have "length (draw_blockhash d) = 32" "length (draw_signature d) = 64" by (simp_all add: draw_ok_def)
  from transfer_patches_fields [OF Cons.prems(1) this, of A ip] Cons.IH Cons.prems(2) show ?case by fastforce
qed simp

lemma memoize_ok:
  assumes "calibrate (sur_calibration v) = Some ticks"
  shows "memoize_ticks_per_ms_and_invariant_tsc_check v statics_new = Some (fixed_statics (sur_cpuinfo v) ticks)"
    "cell_supports v (fixed_statics (sur_cpuinfo v) ticks) =
       Some (check_cpu_supports_invariant_tsc (sur_cpuinfo v), fixed_statics (sur_cpuinfo v) ticks)"
  using assms by (simp_all add: memoize_ticks_per_ms_and_invariant_tsc_check_def cell_supports_def cell_ticks_def get_or_init_def statics_new_def)

text \<open>
  Both timed programs print the elapsed milliseconds on a processor with an invariant counter and panic
  at their end on any other.
\<close>

lemma gen_main_ok:
  assumes "calibrate (sur_calibration v) = Some ticks" "ticks \<noteq> 0" "sdk_laws K" "unique_keys K keys"
    and "lognormal_new A (f32_ln A (Fin 1000000)) (Fin 3) \<noteq> None" "\<forall>d \<in> set ds. draw_ok d"
  shows "gen_main A K keys v fresh ds rdtsc now =
    (if check_cpu_supports_invariant_tsc (sur_cpuinfo v)
     then Some (''done in '' @ decimal (unat ((now - rdtsc) div ticks)) @ '' millis'') else None)"
proof -
  obtain packet where p: "null_transfer_transaction_with_compute_unit_price K keys = Some packet" "length (packet_buffer packet) = 1232"
    using template_price [OF assms(3,4)] by blast
  obtain ip where ip: "ip_new A fresh (Ipv4Addr 0 0 0 0) (f32_ln A (Fin 1000000)) (Fin 3) = Some ip"
    using assms(5) by (cases fresh) (auto simp: ip_new_def signer_new_def)
  from update_rounds_ok [OF p(2) assms(6)] obtain ip' packet' where "update_rounds A ds ip packet = Some (ip', packet')" by blast
  with p(1) ip assms(2) show ?thesis
    by (simp add: gen_main_def memoize_ok [OF assms(1)] run_call_fixed elapsed_ms_def del: run_call.simps)
qed

lemma timer_main_ok:
  assumes "calibrate (sur_calibration v) = Some ticks" "ticks \<noteq> 0"
  shows "timer_main v rdtsc now =
    (if check_cpu_supports_invariant_tsc (sur_cpuinfo v)
     then Some (''timer measured '' @ decimal (unat ((now - rdtsc) div ticks)) @ '' ms'') else None)"
  using assms(2) by (simp add: timer_main_def memoize_ok [OF assms(1)] run_call_fixed elapsed_ms_def del: run_call.simps)

end
