(* ===== verification/Stats_Progress.thy ===== *)
theory Stats_Progress
  imports Shared_Stats
begin

text \<open>
  Progress of the processes that share the statistics block (\<open>Shared_Stats\<close>), without any assumption on the
  scheduler except that it does not let processes spin for ever: every access that is not a failed attempt at the
  lock brings the pending calls closer to their end, and as long as one is pending such an access
  is possible.
\<close>

section \<open>Working steps\<close>

text \<open>An access of a pending call other than a failed attempt to take or release the lock.\<close>

definition works :: "shared_sys \<Rightarrow> shared_sys \<Rightarrow> bool" where
  "works s s' \<longleftrightarrow> stats_step s s' \<and> s' \<noteq> s \<and> (\<forall>i. sys_procs s i = Idle \<longrightarrow> sys_procs s' i = Idle)"

text \<open>The number of accesses a process has still to make, at most.\<close>

fun accesses_left :: "proc \<Rightarrow> nat" where
  "accesses_left Idle = 0"
| "accesses_left (Spin op) = 5"
| "accesses_left (UpdateLoad v) = 4"
| "accesses_left (UpdateStore v flag) = 3"
| "accesses_left ResetFlag = 3"
| "accesses_left (UpdateClear v flag) = 2"
| "accesses_left ResetStats = 2"
| "accesses_left ReadStats = 2"
| "accesses_left (Release op r) = 1"

definition active :: "shared_sys \<Rightarrow> nat set" where
  "active s = {i. sys_procs s i \<noteq> Idle}"

definition pending :: "shared_sys \<Rightarrow> nat" where
  "pending s = (\<Sum>i \<in> active s. accesses_left (sys_procs s i))"

lemma if_procs [simp]: "sys_procs (if b then s\<lparr>sys_data := data\<rparr> else s) = sys_procs s"
  by simp

lemma accesses_entry: "accesses_left (entry_of op) < 5"
  by (cases op) simp_all

lemma accesses_left_0: "accesses_left p = 0 \<longleftrightarrow> p = Idle"
  by (cases p) simp_all

lemma worksI:
  assumes "stats_step s s'" "sys_procs s' = (sys_procs s)(i := p)" "accesses_left p < accesses_left (sys_procs s i)"
  shows "works s s'"
proof -
  have "sys_procs s i \<noteq> Idle" using assms(3) by auto
  moreover have "s' \<noteq> s" using assms(2,3) by (metis fun_upd_same less_irrefl)
  ultimately show ?thesis using assms(1,2) by (simp add: works_def)
qed

lemma worksE:
  assumes "works s s'"
  obtains i p where "sys_procs s' = (sys_procs s)(i := p)" "accesses_left p < accesses_left (sys_procs s i)"
proof -
  from assms have "stats_step s s'" "s' \<noteq> s" and idle: "\<forall>i. sys_procs s i = Idle \<longrightarrow> sys_procs s' i = Idle"
    by (simp_all add: works_def)
  from this(1) show ?thesis
  proof cases
    case (call i op)
    with idle show ?thesis by (metis fun_upd_same proc.distinct(1) shared_sys.ext_inject shared_sys.surjective shared_sys.update_convs(3))
  next
    case (take i op)
    then show ?thesis using accesses_entry by (intro that [of i "entry_of op"]) simp_all
  next
    case (update_store i v flag)
    then show ?thesis by (intro that [of i "UpdateClear v flag"]) simp_all
  qed (use that \<open>s' \<noteq> s\<close> in fastforce)+
qed

lemma works_decreases:
  assumes "works s s'" "finite (active s)"
  shows "pending s' < pending s" "finite (active s')"
proof -
  obtain i p where i: "sys_procs s' = (sys_procs s)(i := p)" "accesses_left p < accesses_left (sys_procs s i)"
    by (rule worksE [OF assms(1)])
  then have sub: "active s' \<subseteq> active s" and "i \<in> active s" by (auto simp: active_def split: if_splits)
  with assms(2) show "finite (active s')" by (blast intro: finite_subset)
  have "pending s' = (\<Sum>j \<in> active s. accesses_left (sys_procs s' j))"
    unfolding pending_def by (rule sum.mono_neutral_left [OF assms(2) sub]) (auto simp: active_def)
  also have "\<dots> < (\<Sum>j \<in> active s. accesses_left (sys_procs s j))"
    by (rule sum_strict_mono_ex1 [OF assms(2)]) (use i \<open>i \<in> active s\<close> in auto)
  finally show "pending s' < pending s" by (simp add: pending_def)
qed

lemma works_bounded:
  assumes "(works ^^ k) s s'" "finite (active s)"
  shows "k + pending s' \<le> pending s"
  using assms
proof (induction k arbitrary: s)
  case (Suc k)
  then obtain t where t: "works s t" "(works ^^ k) t s'" by (blast dest: relpowp_Suc_D2)
  from Suc.IH [OF t(2) works_decreases(2) [OF t(1) Suc.prems(2)]] works_decreases(1) [OF t(1) Suc.prems(2)] show ?case by linarith
qed simp

section \<open>Work is always possible\<close>

lemma holder_works:
  assumes "holds_lock (sys_procs s i)" "sys_lock s = 1"
  shows "\<exists>s'. works s s'"
proof (cases "sys_procs s i")
  case ResetFlag
  then show ?thesis using worksI [OF stats_step.reset_flag [OF ResetFlag]] by fastforce
next
  case ResetStats
  then show ?thesis using worksI [OF stats_step.reset_stats [OF ResetStats]] by fastforce
next
  case ReadStats
  then show ?thesis using worksI [OF stats_step.read_stats [OF ReadStats]] by fastforce
next
  case (UpdateLoad v)
  then show ?thesis using worksI [OF stats_step.update_load [OF UpdateLoad]] by fastforce
next
  case (UpdateStore v flag)
  then show ?thesis using worksI [OF stats_step.update_store [OF UpdateStore], of i "UpdateClear v flag"] by fastforce
next
  case (UpdateClear v flag)
  then show ?thesis using worksI [OF stats_step.update_clear [OF UpdateClear]] by fastforce
next
  case (Release op r)
  then show ?thesis using worksI [OF stats_step.release [OF Release assms(2)]] by fastforce
qed (use assms(1) in simp_all)

lemma work_possible:
  assumes "sys_inv d s" "sys_procs s j \<noteq> Idle"
  shows "\<exists>s'. works s s'"
proof (cases "sys_lock s = 0")
  case True
  with assms(1) have "\<not> holds_lock (sys_procs s j)" unfolding sys_inv_def by auto
  with assms(2) obtain op where j: "sys_procs s j = Spin op" by (cases "sys_procs s j") simp_all
  show ?thesis using worksI [OF stats_step.take [OF j True], of j "entry_of op"] accesses_entry j by fastforce
next
  case False
  with assms(1) obtain i where "holds_lock (sys_procs s i)" "sys_lock s = 1"
    unfolding sys_inv_def using progress_holds by blast
  then show ?thesis by (rule holder_works)
qed

lemma active_finite: "stats_step\<^sup>*\<^sup>* (sys_init d) s \<Longrightarrow> finite (active s)"
proof (induction rule: rtranclp_induct)
  case (step s s')
  from step.hyps(2) obtain i p where "sys_procs s' = (sys_procs s)(i := p) \<or> sys_procs s' = sys_procs s"
    by cases auto
  then have "active s' \<subseteq> insert i (active s)" by (auto simp: active_def split: if_splits)
  with step.IH show ?case by (blast intro: finite_subset)
qed (simp add: sys_init_def active_def)

section \<open>Properties\<close>

text \<open>
  C26. Every pending call completes: from any reachable state, however the processes are scheduled, at most
  \<open>pending s\<close> working accesses are made, at most five for a call, until no call is left; and as long as a
  call is pending, some process can make one. No schedule that lets processes work can keep a call pending for ever.\<close>

theorem shared_stats_completes:
  assumes "stats_step\<^sup>*\<^sup>* (sys_init d) s"
  shows "((works ^^ k) s s' \<longrightarrow> k \<le> pending s) \<and> pending s \<le> 5 * card (active s) \<and>
    (works\<^sup>*\<^sup>* s s' \<and> \<not> (\<exists>t. works s' t) \<longrightarrow> (\<forall>i. sys_procs s' i = Idle) \<and> sys_lock s' = 0)"
proof (intro conjI impI)
  note fin = active_finite [OF assms]
  show "k \<le> pending s" if "(works ^^ k) s s'" using works_bounded [OF that fin] by linarith
  have "accesses_left p \<le> 5" for p by (cases p) simp_all
  then show "pending s \<le> 5 * card (active s)"
    using sum_bounded_above [of "active s" "\<lambda>i. accesses_left (sys_procs s i)" 5] by (simp add: pending_def mult.commute)
  assume stop: "works\<^sup>*\<^sup>* s s' \<and> \<not> (\<exists>t. works s' t)"
  have "stats_step\<^sup>*\<^sup>* s s'" using stop mono_rtranclp [of works stats_step] by (auto simp: works_def)
  then have inv: "sys_inv d s'" using assms sys_inv_reachable by (meson rtranclp_trans)
  with stop show idle: "\<forall>i. sys_procs s' i = Idle" using work_possible by blast
  with inv show "sys_lock s' = 0" unfolding sys_inv_def using progress_holds by fastforce
qed

theorem shared_stats_completes_witness:
  "pending demo_contended \<le> 10 \<and> \<not> (works ^^ 11) demo_contended demo_final"
proof -
  have "active demo_contended = {0, 1}" by (auto simp: active_def demo_contended_def)
  then have two: "card (active demo_contended) = 2" by simp
  from shared_stats_completes [OF demo_contended_reachable, of 11 demo_final] have
    "(works ^^ 11) demo_contended demo_final \<longrightarrow> 11 \<le> pending demo_contended" "pending demo_contended \<le> 5 * 2"
    unfolding two by blast+
  then show ?thesis by linarith
qed

end
