(* ===== verification/Spec2Isabelle.thy ===== *)
theory Spec2Isabelle
  imports Thread_Start Ip_Signer_Stake_Model Closed_Loop Traffic_Analysis Channel_Demos Unit_Tests
    Example_Programs Stats_Progress
begin

text \<open>
  \<^bold>\<open>A verification of the Solana QoS process\<close>

  \<^bold>\<open>The program.\<close> The QoS process sits between the network and the signature verification of a
  validator. It reads packets from four shared-memory channels, parses them, scores each
  transaction by the history of its sender address and fee payer and by its fee per compute unit,
  keeps the best ones in a bounded priority queue and hands a batch of them to signature
  verification every 100 milliseconds. Three further channels bring back confirmed signatures,
  execution results and failed signature checks; from them the process filters what was already
  processed and learns its scores.

  \<^bold>\<open>The theories and the code they model.\<close>
  \<^item> \<open>QoS_Prelude\<close>: machine integers, unchecked slice accesses as partial operations, association
    lists and the lemmas shared by the components.
  \<^item> \<open>LRU_Cache\<close>, \<open>LRU_Interface\<close> (lru/src/lib.rs): the array-based doubly linked LRU cache. State: the
    record \<open>LRUCache\<close> with \<open>Node\<close> slots, free list, head and tail; operations \<open>lru_new\<close>,
    \<open>lru_new_boxed\<close>, \<open>lru_get\<close>, \<open>lru_contains\<close>, \<open>lru_pop\<close>, \<open>lru_put\<close>, \<open>move_to_front\<close>, \<open>evict\<close>. Every
    \<open>get_unchecked\<close> and \<open>unwrap_unchecked\<close> is a partial operation, so a result \<open>Some\<close> proves the absence of
    undefined behaviour. The locale \<open>lru_api\<close> is the contract for clients: the cache behaves like a
    list of entries ordered by recency.
  \<^item> \<open>Float64\<close>: IEEE binary64 arithmetic with rounding to nearest even over the rationals, infinities
    and NaN, ordered as \<open>OrderedFloat\<close> orders them. Zero is unsigned.
  \<^item> \<open>Ordered_Tree\<close>, \<open>Score_Table\<close>, \<open>Score_Range\<close>, \<open>QoS_Model_Interface\<close>, \<open>Ip_Signer_Model\<close>,
    \<open>Ip_Signer_Stake_Model\<close> (model/src): the two scoring models. A score table is a pair of trees, one
    from key to score and one of score-key pairs; the steps both models and both tables share are in
    \<open>Score_Table\<close>, their numeric ranges in \<open>Score_Range\<close>. The locale \<open>qos_model\<close> is the trait \<open>QoSModel\<close>
    with its laws; both models interpret it.
  \<^item> \<open>MinMax_Heap\<close> (minmax/src/lib.rs): the bounded priority queue; locale \<open>bounded_queue\<close>.
  \<^item> \<open>Wire_Data\<close> (internal-common/src, common/src): addresses, packets, the packet hash, signature keys,
    partial and remaining metadata, scored transactions, counters.
  \<^item> \<open>Packet_Processor\<close> (qos-core/src/lib.rs, error.rs): \<open>try_process_packet\<close> with every error path, and
    \<open>total_fee\<close>.
  \<^item> \<open>Timer_Clock\<close> (timer/src/lib.rs): the timer, its calibration and the cells that keep the results.
  \<^item> \<open>Banking\<close> (qos-core/src/banking.rs): the transaction container.
  \<^item> \<open>Packet_Bytes\<close> (common/src/packet_bytes.rs, internal-common/src/packet_bytes.rs): packets as bytes on the channels.
  \<^item> \<open>Shared_Stats\<close> (common/src/shared_stats.rs): the counters in shared memory, used by several
    processes under a spin lock, as an interleaving step relation; \<open>Stats_Progress\<close> bounds the work that is left.
  \<^item> \<open>Text_Format\<close>: decimal numbers, dotted addresses, lines and words as the standard library prints and
    reads them, each with its round trip.
  \<^item> \<open>Score_File\<close> (\<open>save_ip_scores\<close> of model/src/models/ip_signer.rs): the file of scores, on a disk that may
    refuse or run full.
  \<^item> \<open>Mpsc\<close> (mpsc/src/lib.rs): the consumer over several single-producer queues and \<open>bounded\<close>.
  \<^item> \<open>QoS_Main\<close> (qos/src/main.rs): the state of the process, one definition per consumer, the loop body
    \<open>qos_iteration\<close>, runs of it from the initial state, and the exit.
  \<^item> \<open>Startup\<close> (common/src/ipc_parameters.rs, common/src/lib.rs, cli/src/main.rs, \<open>join_ipc\<close> and \<open>main\<close> of
    qos/src/main.rs): channel parameters, their creation by the command-line tool, joining them, dropping
    privileges, and \<open>qos_main\<close>, which puts start-up, the loop on the exit flag and the exit together.
  \<^item> \<open>Traffic_Agents\<close> (engine/src/rng.rs, engine/src/agent.rs): the random source, the signers and agents with
    their prices, the packet patches and the template packet of the traffic generator. \<open>f32\<close> values are
    rounded \<open>f64\<close> values.
  \<^item> \<open>Packet_Recording\<close> (packet-analysis/src/main.rs and the recording in the two loops): recorded traffic as text,
    and the analysis that reads it back.
  \<^item> \<open>Packet_Generator\<close> (the generator threads of engine/src/lib.rs): agents, recording, sending.
  \<^item> \<open>Engine_Ipc\<close> (engine/src/lib.rs, engine-ipc/src/main.rs, \<open>EngineStats\<close> of common/src/shared_stats.rs): the
    engine with its funnel, and the mock signature verification and scheduler that answers the process.
  \<^item> \<open>Mock_Startup\<close> (\<open>main\<close> of engine-ipc/src/main.rs): the start of the mock validator.
  \<^item> \<open>Thread_Start\<close> (the end of the same \<open>main\<close>, the beginning of the generator threads): the threads of the mock
    validator, the flag they wait for, the directory of the recordings, the terminal view (which may panic, and the main
    thread with it) and the joins.
  \<^item> \<open>Feedback_Loop\<close>, \<open>Closed_Loop\<close>, \<open>Traffic_Analysis\<close>: the composition of the processes: from an accepted packet to
    the model update its answer causes; the QoS process and the mock validator taking turns in any order
    over unreliable channels; from the generators and the mock validator to the analysis.
  \<^item> \<open>Terminal_View\<close> (engine-ipc/src/tui.rs): the frames of the view, \<open>FlowGraph::run\<close> with its failures, and the loads of
    the counters interleaved with the thread that adds to them; a run carries the outcomes of the packets popped so far.
  \<^item> \<open>Channel_Demos\<close> (ipc-demo/src/main.rs, std-demo/src/main.rs): the two demonstration programs; the locale
    \<open>packet_channel\<close> is what they need of a channel, interpreted on that of the standard library.
  \<^item> \<open>Unit_Tests\<close>: the unit tests of lru/src/lib.rs, minmax/src/lib.rs, common/src/remaining_meta.rs,
    internal-common/src/xxhash.rs and engine/src/agent.rs, as definitions, run on the models.
  \<^item> \<open>Example_Programs\<close> (model/examples, engine/examples, timer/examples): the example programs and what they print.

  \<^bold>\<open>Code outside the repository\<close> is a parameter: the trees of the red-black tree crate
  (\<open>tree_ops\<close>, \<open>tree_laws\<close>), the heap (\<open>heap_ops\<close>, \<open>heap_laws\<close>), the transaction parser (\<open>view_ops\<close>,
  \<open>view_laws\<close>), the shared-memory queues (lists of pending messages, \<open>producer_ops\<close>, \<open>queue_law\<close>), the hash
  function (\<open>xx_ops\<close>), the time-stamp counter, the processor description, the disk (\<open>disk_ops\<close>), the archive writer
  (\<open>npz_ops\<close>, \<open>npz_laws\<close>), key pairs, signing and the price distribution (\<open>agent_ops\<close>, \<open>choice_law\<close>), the transaction
  library (\<open>sdk_ops\<close>, \<open>sdk_laws\<close>, for keys that are distinct as those of \<open>Pubkey::new_unique\<close> are, \<open>unique_keys\<close>), the layout of packets in memory (\<open>layout\<close>, \<open>layout_laws\<close>) and the printing of floats and IPv6 addresses. Each law is instantiated by a
  concrete structure (association lists, a sorted list, a toy parser) in the witnesses.

  \<^bold>\<open>What is shown.\<close>
  \<^item> Safety of the whole process (\<open>qos_process_safe\<close>, and from the command line \<open>startup_after_cli\<close>): for every traffic, no panic, no undefined
    behaviour, all structures within their bounds, all scores finite. Its hypotheses name what it needs:
    an invariant time-stamp counter, table limits of at most \<open>16384 - 80\<close> (an update of at most 401
    entries admits at most 80 new keys, since a key needs five observations), failed signature checks
    only for IPv4 packets.
  \<^item> Refinement: the LRU cache against a recency list, the statistics block against a sequential
    one, the score tables against maps.
  \<^item> Functional correctness of packet processing, of the fee, of model updates and feedback, of the
    priority queue and of each transmission; freshness filters (duplicates, \<open>resent_packet_is_duplicate\<close>; confirmed
    signatures, \<open>confirmed_signature_blocks\<close>). Both hold while the caches, which keep \<open>2^20\<close> keys, have not evicted the key.
  \<^item> Numeric ranges: scores stay below \<open>2^68\<close> (a value is a 64-bit fee divided by at least one
    nanosecond and multiplied by at most ten), so no product of scores overflows. The calibrated timer is accurate up to the overshoot of its calibration and keeps
    its first calibration for ever (\<open>calibrated_timer_accuracy\<close>, \<open>memoized_timer_constant\<close>).
  \<^item> Termination: all loops are structural recursions except \<open>fill_loop\<close>, whose measure is the number of
    remaining bytes, and \<open>pull\<close>, which drains the queue through a filter and is a partial function;
    \<open>queue_drains_descending\<close> proves that it returns. No definition uses fuel. Loops that wait for other
    processes (the spin lock, the heartbeat) and the endless main loops are step relations or runs over
    an arbitrary finite list of observations.
  \<^item> The surroundings: \<open>bounded\<close> and \<open>pop\<close> of \<open>Mpsc\<close>, delivery by the funnel, the agents' patches, the start of
    the mock validator and its replies to accepted packets.
  \<^item> The closed loop (\<open>feedback_reaches_model\<close>): the reply to an accepted packet completes exactly the entry the
    packet was scored with, if fewer than \<open>2^20\<close> packets came between. Over any number of turns of the two processes
    in any order neither panics (\<open>closed_loop_safe\<close>), and every message on a channel stems from a packet of the
    traffic (\<open>closed_loop_provenance\<close>).
  \<^item> The generators in front of both processes (\<open>generated_traffic_safe\<close>, below): none of them panics, each packet is sent
    twice and is well-formed unless the misbehaving agent sends it, and whatever they send is handled without a panic; only
    the misbehaving agent is ever punished for failed signatures (\<open>only_bad_agent_punished\<close>). Both processes hash alike when started with the same seed
    (\<open>same_seed_same_hash\<close>).
  \<^item> Round trips: numbers, addresses, lines, packets as bytes; what the generators and the mock validator record is what the
    analysis recovers (\<open>generator_recording_recovered\<close>, \<open>analysis_recovers_traffic\<close>).
  \<^item> Concurrency: mutual exclusion, serial equivalence, absence of deadlock, completion of every call under every schedule that works
    (\<open>shared_stats_completes\<close>) and delivery of resets of the statistics block, exact and consistent engine counters (\<open>flow_counters_consistent\<close>) and counters of the demonstration programs
    (\<open>demo_reads_bounded\<close>), both below \<open>2^64\<close> packets, the order of the start-up of the threads of
    the mock validator (\<open>recordings_opened_in_directory\<close>), for sequentially consistent memory; a copy of the counter block is one step, which mutual
    exclusion justifies.
  \<^item> Deviations: the reversed address in the feedback on unparsable packets, the wrapping fee, the
    unimplemented fallback timer, the ineffective cursor of \<open>Mpsc\<close>, the queues shared by two engines, the stake multiplier with a zero
    total, repeated keys in \<open>new\<close>, a cache of capacity zero, the reversed addresses of the score file, the
    wrapping difference in the terminal view, the bandwidth of the producer in the demonstration programs, the mock
    validator that never exits, the ignored failure to create the directory of the recordings, the unit
    test that reads beyond its buffer, the thread name without a terminating zero.

  \<^bold>\<open>What is not modelled.\<close> The text of log lines and drawn frames, parsing of the arguments; failures of the
  writes of recordings; the benchmarks; the test \<open>update_transaction\<close> of engine/src/agent.rs, which exercises the
  decoder of another crate. Signed zeros and NaN payloads of \<open>f64\<close> are identified.

  \<^bold>\<open>Planned extensions\<close>, in this order: progress of the demonstration programs under scheduling assumptions, the text of the log lines and frames.
\<close>

section \<open>The generators in front of the process\<close>

text \<open>
  The packets that a generator thread sends, collected in a list (\<open>None\<close> if it panics), and the traffic of several
  threads: everything any of them sent, in whatever order and with whatever losses the funnel and the channels deliver it.
\<close>

type_synonym 'k thread = "nat \<times> ((u64 \<times> 'k) \<times> (u64 \<times> 'k) \<times> (u64 \<times> 'k)) \<times> gen_draw list"

definition sent_by :: "('k, 'd) agent_ops \<Rightarrow> (u16 list \<Rightarrow> string) \<Rightarrow> bool \<Rightarrow> Packet option \<Rightarrow> 'k thread \<Rightarrow> Packet list option" where
  "sent_by A show_v6 write_to_file template = (\<lambda>(thread, fresh, ds). do {
     g \<leftarrow> generator_start A template thread fresh [];
     g \<leftarrow> generator_run A demo_producer show_v6 write_to_file 0 ds g;
     Some (gen_producer g)
   })"

definition generated :: "('k, 'd) agent_ops \<Rightarrow> (u16 list \<Rightarrow> string) \<Rightarrow> bool \<Rightarrow> Packet option \<Rightarrow> 'k thread list \<Rightarrow> Packet set" where
  "generated A show_v6 write_to_file template threads =
     {p. \<exists>t \<in> set threads. \<exists>sent. sent_by A show_v6 write_to_file template t = Some sent \<and> p \<in> set sent}"

definition thread_ok :: "'k thread \<Rightarrow> bool" where
  "thread_ok = (\<lambda>(_, _, ds). list_all draw_ok ds)"

text \<open>The three agents of a thread; the last one misbehaves.\<close>

abbreviation agents :: "(Ipv4Addr \<times> bool) list" where
  "agents \<equiv> [(Ipv4Addr 1 1 1 1, False), (Ipv4Addr 2 2 2 2, False), (Ipv4Addr 7 7 7 7, True)]"

text \<open>
  What a thread sends: it does not panic, and each of its packets is sent twice and is a full buffer with the address of
  one of the agents, of the full size and without the mark unless that is the misbehaving one.
\<close>

definition sends_agent_packets :: "Packet list option \<Rightarrow> nat \<Rightarrow> bool" where
  "sends_agent_packets sent n \<longleftrightarrow> (\<exists>packets. sent = Some (concat (map (\<lambda>p. [p, p]) packets)) \<and> length packets = n \<and>
     (\<forall>p \<in> set packets. agent_packet agents p))"

lemma sent_by_ok:
  assumes A: "choice_law A" "\<forall>mean. lognormal_new A mean (Fin 2) \<noteq> None" and K: "sdk_laws K" "unique_keys K keys"
    and "thread_ok (thread, fresh, ds)"
  shows "sends_agent_packets
    (sent_by A show_v6 on (null_transfer_transaction_with_compute_unit_price K keys) (thread, fresh, ds)) (length ds)"
proof -
  let ?tmpl = "null_transfer_transaction_with_compute_unit_price K keys"
  obtain packet where tmpl: "?tmpl = Some packet" "length (packet_buffer packet) = 1232" using template_price [OF K] by blast
  have ds: "\<forall>d \<in> set ds. draw_ok d" using assms(5) by (simp add: thread_ok_def list_all_iff)
  obtain g0 where g0: "generator_start A ?tmpl thread fresh ([] :: Packet list) = Some g0" "gen_ready g0" "gen_producer g0 = []"
    "kinds (gen_ips g0) = agents"
    by (rule generator_start_ready [OF tmpl A(2)])
  have push: "fold (p_push demo_producer) ps q = q @ ps" for ps q
    by (induction ps arbitrary: q) (simp_all add: demo_producer_def)
  have count: "length (observations A n ips rng) = n" for n ips rng
    by (induction n arbitrary: ips rng) (simp_all add: Let_def split: prod.split)
  from generator_run_ok [OF A(1) g0(2) ds, of demo_producer show_v6 on 0] obtain g packets where
    "generator_run A demo_producer show_v6 on 0 ds g0 = Some g" "gen_producer g = concat (map (\<lambda>p. [p, p]) packets)"
    "length packets = length ds" "\<forall>p \<in> set packets. agent_packet (kinds (gen_ips g0)) p"
    using g0(3) by (auto simp: push count dest!: list_all2_lengthD)
  with g0(1,4) show ?thesis by (auto simp: sent_by_def sends_agent_packets_def)
qed

lemma threads_send:
  assumes "choice_law A" "\<forall>mean. lognormal_new A mean (Fin 2) \<noteq> None" "sdk_laws K" "unique_keys K keys" "\<forall>t \<in> set threads. thread_ok t"
    and "(thread, fresh, ds) \<in> set threads"
  shows "sends_agent_packets
    (sent_by A show_v6 on (null_transfer_transaction_with_compute_unit_price K keys) (thread, fresh, ds)) (length ds)"
  using sent_by_ok [OF assms(1-4)] assms(5,6) by blast

lemma generated_agent_packets:
  assumes "choice_law A" "\<forall>mean. lognormal_new A mean (Fin 2) \<noteq> None" "sdk_laws K" "unique_keys K keys" "\<forall>t \<in> set threads. thread_ok t"
    and "p \<in> generated A show_v6 on (null_transfer_transaction_with_compute_unit_price K keys) threads"
  shows "agent_packet agents p" "length (packet_buffer p) = PACKET_DATA_SIZE"
proof -
  from assms(6) obtain thread fresh ds sent where t: "(thread, fresh, ds) \<in> set threads" "p \<in> set sent"
    "sent_by A show_v6 on (null_transfer_transaction_with_compute_unit_price K keys) (thread, fresh, ds) = Some sent"
    by (auto simp: generated_def)
  from threads_send [OF assms(1-5) t(1), of show_v6 on] show "agent_packet agents p"
    unfolding t(3) sends_agent_packets_def using t(2) by auto
  then show "length (packet_buffer p) = PACKET_DATA_SIZE" by (simp add: agent_packet_def PACKET_DATA_SIZE_def)
qed

text \<open>Punishing one address leaves the scores of all others.\<close>

lemma failures_punish_only:
  assumes laws: "model_laws NS NI Ok (env_trees E)"
    and "model_inv Ok (env_trees E) (qos_model_st q)" "\<forall>p \<in> set failures. meta_addr (packet_meta p) = V4 bad"
  shows "\<exists>q'. consume_sigverify_signals E failures q = Some q' \<and> (\<forall>ip. ip \<noteq> ip_key bad \<longrightarrow>
    ip_score_map (env_trees E) (qos_model_st q') ip = ip_score_map (env_trees E) (qos_model_st q) ip)"
  using assms(2,3)
proof (induction failures arbitrary: q)
  case (Cons p failures)
  let ?q = "q\<lparr>qos_model_st := ip_feedback (env_trees E) (ip_key bad) (qos_model_st q)\<rparr>"
  note fb = ip_feedback_ok [OF laws Cons.prems(1), of "ip_key bad"]
  from Cons.IH [of ?q] fb(1) Cons.prems(2) obtain q' where "consume_sigverify_signals E failures ?q = Some q'"
    "\<forall>ip. ip \<noteq> ip_key bad \<longrightarrow> ip_score_map (env_trees E) (qos_model_st q') ip = ip_score_map (env_trees E) (qos_model_st ?q) ip"
    by auto
  with fb(3) Cons.prems(2) show ?case by (simp add: process_failed_sigverify_def)
qed simp

text \<open>
  C8. The whole test bed is safe: whatever the generator threads draw, none of them panics, each sends every
  packet twice, and every packet is a full buffer of an agent, which only the misbehaving one may cut or mark; and when the QoS
  process and the mock validator take turns in any order on these packets, over channels that may lose, repeat and
  reorder messages, no turn of either process panics and the QoS process keeps its invariant.\<close>

theorem generated_traffic_safe:
  assumes "loop_env S Ok hok content C E M" "loop_initial C E start"
    and "choice_law A" "\<forall>mean. lognormal_new A mean (Fin 2) \<noteq> None" "sdk_laws K" "unique_keys K keys" "\<forall>t \<in> set threads. thread_ok t"
    and "traffic = generated A show_v6 on (null_transfer_transaction_with_compute_unit_price K keys) threads"
  shows "(\<forall>(thread, fresh, ds) \<in> set threads. sends_agent_packets
      (sent_by A show_v6 on (null_transfer_transaction_with_compute_unit_price K keys) (thread, fresh, ds)) (length ds)) \<and>
    (\<forall>s ev. loop_reachable E M C traffic start s \<and> available C traffic s ev \<longrightarrow>
      (\<exists>s'. loop_turn E M ev s = Some s' \<and> qos_inv S Ok hok content E (fst s')))"
proof (intro conjI allI impI)
  show "\<forall>(thread, fresh, ds) \<in> set threads. sends_agent_packets
      (sent_by A show_v6 on (null_transfer_transaction_with_compute_unit_price K keys) (thread, fresh, ds)) (length ds)"
    using threads_send [OF assms(3-7)] by blast
  fix s ev assume s: "loop_reachable E M C traffic start s \<and> available C traffic s ev"
  have full: "\<forall>p \<in> traffic. length (packet_buffer p) = PACKET_DATA_SIZE"
    using generated_agent_packets(2) [OF assms(3-7)] by (simp add: assms(8))
  have "loop_inv S Ok hok content C E M traffic s" using loop_reachable_inv [OF assms(1) full assms(2)] s by blast
  with loop_turn_ok [OF assms(1) full] s obtain s' where
    "loop_turn E M ev s = Some s'" "loop_inv S Ok hok content C E M traffic s'" by blast
  then show "\<exists>s'. loop_turn E M ev s = Some s' \<and> qos_inv S Ok hok content E (fst s')" by (cases s') simp
qed

text \<open>
  C9. Only the misbehaving agent is punished for bad signatures: in every reachable state of the test bed, every
  packet that the mock validator has returned as failed was sent by the agent with the address 7.7.7.7, never by one of
  the two honest agents, although all agents of a thread share one packet buffer; so the failures that the QoS process
  reads in its next turn change no score but that of 7.7.7.7.\<close>

theorem only_bad_agent_punished:
  assumes "loop_env S Ok hok content C E M" "loop_initial C E (q0, m0)"
    and "choice_law A" "\<forall>mean. lognormal_new A mean (Fin 2) \<noteq> None" "sdk_laws K" "unique_keys K keys" "\<forall>t \<in> set threads. thread_ok t"
    and "traffic = generated A show_v6 on (null_transfer_transaction_with_compute_unit_price K keys) threads"
    and "loop_reachable E M C traffic (q0, m0) (q, m)"
  shows "(\<forall>p \<in> sent_failures C (sig_qos_producer m).
      meta_addr (packet_meta p) = V4 (Ipv4Addr 7 7 7 7) \<and> last (packet_buffer p) \<noteq> 0) \<and>
    (\<forall>i q1. available C traffic (q, m) (QosTurn i) \<and> qos_inv S Ok hok content E q1 \<longrightarrow>
      (\<exists>q2. consume_sigverify_signals E (in_sig i) q1 = Some q2 \<and> (\<forall>ip. ip \<noteq> ip_key (Ipv4Addr 7 7 7 7) \<longrightarrow>
        ip_score_map (env_trees E) (qos_model_st q2) ip = ip_score_map (env_trees E) (qos_model_st q1) ip)))"
proof (intro conjI allI impI)
  note agent = generated_agent_packets [OF assms(3-7), of _ show_v6 on, folded assms(8)]
  then have full: "\<forall>p \<in> traffic. length (packet_buffer p) = PACKET_DATA_SIZE" by blast
  have "loop_inv S Ok hok content C E M traffic (q, m)" by (rule loop_reachable_inv [OF assms(1) full assms(2,9)])
  then have "p \<in> traffic \<and> last (packet_buffer p) \<noteq> 0" if "p \<in> sent_failures C (sig_qos_producer m)" for p
    using that by (auto simp: mock_from_def failure_of_def good_traffic_def)
  then show failed: "\<forall>p \<in> sent_failures C (sig_qos_producer m).
      meta_addr (packet_meta p) = V4 (Ipv4Addr 7 7 7 7) \<and> last (packet_buffer p) \<noteq> 0"
    using agent(1) by (fastforce simp: agent_packet_def)
  fix i q1 assume i: "available C traffic (q, m) (QosTurn i) \<and> qos_inv S Ok hok content E q1"
  then have sig: "\<forall>p \<in> set (in_sig i). meta_addr (packet_meta p) = V4 (Ipv4Addr 7 7 7 7)" using failed by auto
  from i have "qos_inv S Ok hok content E q1" by blast
  note ok = model_okD(5,6) [OF qos_invD(1) [OF this]]
  show "\<exists>q2. consume_sigverify_signals E (in_sig i) q1 = Some q2 \<and> (\<forall>ip. ip \<noteq> ip_key (Ipv4Addr 7 7 7 7) \<longrightarrow>
        ip_score_map (env_trees E) (qos_model_st q2) ip = ip_score_map (env_trees E) (qos_model_st q1) ip)"
    by (rule failures_punish_only [OF ok sig])
qed

section \<open>A run of the test bed\<close>

text \<open>The misbehaving agent sends a packet that it marks.\<close>

definition marking_agents :: "(u8, f64) agent_ops" where
  "marking_agents = demo_agents\<lparr>gen_f32 := \<lambda>rng. (Fin (7 / 25), rng), choose_index := \<lambda>n rng. (n - 1, rng)\<rparr>"

lemma marking_agents_laws: "choice_law marking_agents" "\<forall>mean. lognormal_new marking_agents mean (Fin 2) \<noteq> None"
  using demo_agents_laws by (simp_all add: choice_law_def marking_agents_def)

definition demo_thread :: "u8 thread" where
  "demo_thread = (1, demo_fresh, [demo_draw])"

abbreviation demo_template :: "Packet option" where
  "demo_template \<equiv> null_transfer_transaction_with_compute_unit_price demo_sdk demo_keys"

definition demo_traffic :: "Packet set" where
  "demo_traffic = generated marking_agents (\<lambda>_. []) True demo_template [demo_thread]"

lemma demo_threads_ok: "\<forall>t \<in> set [demo_thread]. thread_ok t"
  using demo_agents_laws(3) by (simp add: thread_ok_def demo_thread_def)

definition marked_packet :: "Packet \<Rightarrow> bool" where
  "marked_packet p \<longleftrightarrow> length (packet_buffer p) = PACKET_DATA_SIZE \<and> meta_size (packet_meta p) = 259 \<and>
     meta_addr (packet_meta p) = V4 (Ipv4Addr 7 7 7 7) \<and> last (packet_buffer p) \<noteq> 0"

lemma marked_packet_sent: "\<exists>p \<in> demo_traffic. marked_packet p"
proof -
  obtain packet where tmpl: "demo_template = Some packet" "length (packet_buffer packet) = 1232"
    using template_price [OF demo_sdk_laws demo_keys] by blast
  obtain g0 where g0: "generator_start marking_agents demo_template 1 demo_fresh ([] :: Packet list) = Some g0" "gen_ready g0"
    "gen_producer g0 = []" "kinds (gen_ips g0) = agents"
    by (rule generator_start_ready [OF tmpl marking_agents_laws(2)])
  have n: "length (gen_ips g0) = 3" using arg_cong [OF g0(4), of length] by (simp add: kinds_def)
  let ?ip = "gen_ips g0 ! 2"
  have "kinds (gen_ips g0) ! 2 = (Ipv4Addr 7 7 7 7, True)" unfolding g0(4) by simp
  then have ip: "ip_addr ?ip = Ipv4Addr 7 7 7 7" "ip_bad ?ip" using n by (simp_all add: kinds_def)
  have sample: "fst (bad_sample marking_agents ?ip) = Fin (7 / 25)" by (simp add: bad_sample_def marking_agents_def)
  obtain p where p: "update_transfer_with_priority marking_agents (draw_blockhash demo_draw) (draw_signature demo_draw) ?ip (gen_packet g0) =
      Some (next_agent marking_agents ?ip, p)" "length (packet_buffer p) = 1232" "read_price p = Some (next_price marking_agents ?ip)"
    "meta_addr (packet_meta p) = V4 (ip_addr ?ip)" "(meta_size (packet_meta p), packet_buffer p ! 1231) = marked marking_agents ?ip (gen_packet g0)"
    using transfer_patches_fields [of "gen_packet g0" "draw_blockhash demo_draw" "draw_signature demo_draw" marking_agents ?ip]
      g0(2) demo_agents_laws(3) by (auto simp: gen_ready_def draw_ok_def)
  have "last (packet_buffer p) = packet_buffer p ! 1231" using p(2) by (subst last_conv_nth) auto
  with p(2,4,5) ip sample have "marked_packet p" by (simp add: marked_packet_def marked_def PACKET_DATA_SIZE_def)
  moreover have "choose_index marking_agents 3 (gen_rng g0) = (2, gen_rng g0)" by (simp add: marking_agents_def)
  with p(1-4) n g0(1,3) have "sent_by marking_agents (\<lambda>_. []) True demo_template demo_thread = Some [p, p]"
    using record_packet_exhibits [of p "(ip_addr ?ip, next_price marking_agents ?ip)"]
    by (simp add: sent_by_def demo_thread_def generator_step_def exhibits_def demo_producer_def)
  then have "p \<in> demo_traffic" by (simp add: demo_traffic_def generated_def)
  ultimately show ?thesis by blast
qed

text \<open>The QoS process accepts it and, at the end of the interval, sends it on.\<close>

definition generated_turn :: "Packet \<Rightarrow> qos_input" where
  "generated_turn p =
     \<lparr>in_tpu = [(p, 200000, 200001)], in_fwd = [], in_re1 = [], in_re2 = [], in_recent = [], in_sch = [], in_sig = [],
      in_now = 200000, in_stats_ops = []\<rparr>"

abbreviation demo_start :: "(pubkey alist_fwd, u32 alist_fwd, pubkey alist_inv, u32 alist_inv, ScoredTransaction list, Packet list) qos_state" where
  "demo_start \<equiv> qos_start demo_env [] 1000000 None 0 0"

lemma marked_packet_accepted:
  assumes "marked_packet p"
  obtains st m' metas' stats' where "try_process_packet demo_view (alist_trees MODEL_CAP) from_le_bytes LRU_CAP p (Some (lru_new LRU_CAP))
      (model_new (alist_trees MODEL_CAP) [] []) (lru_new LRU_CAP) Stats_new = Some (Inr st, m', metas', stats')" "st_packet st = p"
proof -
  have inv: "lru_inv LRU_CAP (lru_new LRU_CAP :: meta_cache)" "entries (lru_new LRU_CAP :: meta_cache) = []"
    "lru_inv LRU_CAP (lru_new LRU_CAP :: sig_cache)" "entries (lru_new LRU_CAP :: sig_cache) = []"
    by (simp_all add: lru_new_inv lru_new_entries LRU_CAP_def)
  then have none: "\<not> lru_contains (lru_new LRU_CAP :: meta_cache) k" "\<not> lru_contains (lru_new LRU_CAP :: sig_cache) k" for k
    using lru.contains_ok [OF inv(1), of k] lru.contains_ok [OF inv(3), of k] by simp_all
  have len: "length (packet_buffer p) = PACKET_DATA_SIZE" using assms by (simp add: marked_packet_def)
  have ok: "packet_ok p" "meta_addr (packet_meta p) = V4 (Ipv4Addr 7 7 7 7)" "take 259 (packet_buffer p) \<noteq> []"
    using assms by (auto simp: marked_packet_def packet_ok_def PACKET_DATA_SIZE_def)
  let ?d = "take 259 (packet_buffer p)"
  have "meta_size (packet_meta p) = 259" using assms by (simp add: marked_packet_def)
  then have view: "packet_data demo_view p = Some ?d" "try_new_unsanitized demo_view ?d = Some ?d" "sanitize demo_view ?d = Some ?d"
    "slice_get (tx_signatures demo_view ?d) 0 = Some (hd ?d # replicate 63 0)" "fee_payer demo_view ?d = Some [1]"
    using ok(3) by (simp_all add: demo_view_def fee_payer_def slice_get_def)
  show thesis
    by (cases rule: process_cases [OF demo_view_laws inv(1) len, where T = "alist_trees MODEL_CAP"
          and hash = from_le_bytes and recent = "Some (lru_new LRU_CAP)" and m = "model_new (alist_trees MODEL_CAP) [] []" and stats = Stats_new])
      (use ok view none that in \<open>auto simp: not_recent_def\<close>)
qed

lemma empty_batch: "consume_transaction_packets demo_env [] q = Some ([], q)"
proof -
  have "container_beat demo_producer c = c" for c :: "(ScoredTransaction list, Packet list) TransactionContainer"
    by (cases c) (simp add: container_beat_def demo_producer_def split: option.split)
  moreover have "consume_packets demo_env n [] q = Some ([], q)" for n by (cases n) simp_all
  ultimately show ?thesis by (simp add: consume_transaction_packets_def demo_env_def)
qed

lemma one_packet: "consume_packet E a q = Some q' \<Longrightarrow> 0 < n \<Longrightarrow> consume_packets E n [a] q = Some ([], q')"
  by (cases n; cases "n - 1") simp_all

lemma one_queued: "pull (pop_desc_next (list_heap st_score)) (\<lambda>tx. True) 100000 [st] = Some ([st], 0, [])"
  by (subst pull.simps) (simp add: pop_desc_next_def list_heap_def pull.simps [where h = "[]"])

lemma demo_first_batch:
  assumes "\<forall>k. \<not> lru_contains recent k"
  obtains c1 stats1 c' stats' where
    "container_queue (list_heap st_score) st (container_new (list_heap st_score) (Some []) 1000000 (RDTSC 0)) stats = Some (c1, stats1)"
    "maybe_transmit (list_heap st_score) demo_producer 1000 200000 timer recent c1 stats1 = Some (c', stats')"
    "transmitter c' = Some [st_packet st]"
proof -
  let ?c = "container_new (list_heap st_score) (Some [] :: Packet list option) 1000000 (RDTSC 0)"
  have push: "mm_push (list_heap st_score) QUEUE_CAPACITY st [] = Some (None, [st])"
    by (simp add: mm_push_def list_heap_def QUEUE_CAPACITY_def)
  have c: "priority_queue_heap ?c = []" "transmitter ?c = Some []" "last_send ?c = RDTSC 0" "max_send ?c = 100000"
    by (simp_all add: container_new_def mm_new_def list_heap_def SEND_INTERVAL_MS_def)
  let ?c1 = "?c\<lparr>priority_queue_heap := [st]\<rparr>"
  have tick: "send_tick 1000 200000 ?c1 = Some True"
    by (simp add: send_tick_def c elapsed_ms_def SEND_INTERVAL_MS_def)
  have "container_queue (list_heap st_score) st ?c stats = Some (?c1, stats)" by (simp add: container_queue_def push c)
  moreover have "maybe_transmit (list_heap st_score) demo_producer 1000 200000 timer recent ?c1 stats =
      Some (?c1\<lparr>priority_queue_heap := [], transmitter := Some [st_packet st], last_send := timer\<rparr>,
        stats\<lparr>banking_transmissions := banking_transmissions stats + 1\<rparr>)"
    by (simp add: maybe_transmit_def tick one_queued assms demo_producer_def Let_def c)
  ultimately show thesis by (rule that) simp
qed

lemma marked_packet_transmitted:
  assumes "marked_packet p"
  obtains i q where "qos_iteration demo_env (generated_turn p) demo_start = Some (i, q)" "transmitter (qos_container q) = Some [p]"
proof -
  obtain st m' metas' stats' where acc: "try_process_packet demo_view (alist_trees MODEL_CAP) from_le_bytes LRU_CAP p (Some (lru_new LRU_CAP))
      (model_new (alist_trees MODEL_CAP) [] []) (lru_new LRU_CAP) Stats_new = Some (Inr st, m', metas', stats')" "st_packet st = p"
    by (rule marked_packet_accepted [OF assms])
  have inv: "lru_inv LRU_CAP (lru_new LRU_CAP :: sig_cache)" "entries (lru_new LRU_CAP :: sig_cache) = []"
    by (simp_all add: lru_new_inv lru_new_entries LRU_CAP_def)
  then have none: "\<forall>k. \<not> lru_contains (lru_new LRU_CAP :: sig_cache) k" using lru.contains_ok by fastforce
  have timer: "timer_new (Some ''constant_tsc nonstop_tsc'') r = RDTSC r" for r
    using timer_new_rdtsc [OF demo_env_ok] by (simp add: demo_env_def)
  define stats where "stats = (if st_score st = ZERO then stats'\<lparr>zero_score := zero_score stats' + 1\<rparr> else stats')"
  obtain c1 stats1 c2 stats2 where c:
    "container_queue (list_heap st_score) st (container_new (list_heap st_score) (Some []) 1000000 (RDTSC 0)) stats = Some (c1, stats1)"
    "maybe_transmit (list_heap st_score) demo_producer 1000 200000 (RDTSC 200001) (lru_new LRU_CAP) c1 stats1 = Some (c2, stats2)"
    "transmitter c2 = Some [st_packet st]"
    by (rule demo_first_batch [OF none])
  let ?q = "demo_start\<lparr>qos_model_st := m', qos_tx_partial_metas := metas', qos_container := c2, qos_stats := stats2\<rparr>"
  have "consume_packet demo_env (p, 200000, 200001) demo_start = Some ?q"
    unfolding consume_packet_def prod.case demo_env_def qos_start_def
    by (simp only: qos_env.simps qos_state.simps acc(1) timer bind.bind_lunit prod.case sum.case Let_def stats_def [symmetric] c(1,2))
  then have "consume_packets demo_env 1000 [(p, 200000, 200001)] demo_start = Some ([], ?q)" by (rule one_packet) simp
  moreover have "container_beat (env_producer demo_env) c2 = c2"
    using c(3) by (cases c2) (simp add: container_beat_def demo_env_def demo_producer_def)
  ultimately have batch: "consume_transaction_packets demo_env [(p, 200000, 200001)] demo_start = Some ([], ?q)"
    by (simp add: consume_transaction_packets_def)
  have "log_and_publish demo_env 200000 [] ?q = Some ?q"
    by (simp add: log_and_publish_def publish_stats_def elapsed_ms_def qos_start_def demo_env_def timer Let_def)
  then have "qos_iteration demo_env (generated_turn p) demo_start = Some (generated_turn p\<lparr>in_tpu := []\<rparr>, ?q)"
    by (simp add: qos_iteration_def generated_turn_def batch empty_batch)
  then show thesis by (rule that) (simp add: c(3) acc(2))
qed

text \<open>The mock validator returns it as failed.\<close>

lemma marked_packet_fails:
  assumes "marked_packet p"
  obtains m where "mock_banking_step demo_mock (Some p) demo_mock_state = Some m" "sig_qos_producer m = [p]"
proof -
  have p: "length (packet_buffer p) = PACKET_DATA_SIZE" "packet_buffer p \<noteq> []" "last (packet_buffer p) \<noteq> 0"
    and ok: "packet_ok p" "meta_addr (packet_meta p) = V4 (Ipv4Addr 7 7 7 7)"
    using assms by (auto simp: marked_packet_def packet_ok_def PACKET_DATA_SIZE_def)
  obtain m1 where "mock_packet demo_mock p demo_mock_state = Some m1" "sig_qos_producer m1 = [p]"
    using packet_hash_eq [OF ok, of "mock_hash demo_mock"] p(2,3)
    by (simp add: mock_packet_def demo_mock_def demo_mock_state_def Let_def)
  then show thesis by (metis mock_step_after_packet p(1) that)
qed

lemma demo_failure:
  obtains p q m i where "p \<in> demo_traffic" "marked_packet p"
    "loop_turn demo_env demo_mock (QosTurn (generated_turn p)) (demo_start, demo_mock_state) = Some (q, demo_mock_state)"
    "loop_turn demo_env demo_mock (MockTurn (Some p)) (q, demo_mock_state) = Some (q, m)" "sig_qos_producer m = [p]"
    "loop_reachable demo_env demo_mock list_channels demo_traffic (demo_start, demo_mock_state) (q, m)"
proof -
  obtain p where p: "p \<in> demo_traffic" "marked_packet p" using marked_packet_sent by blast
  obtain i q where q: "qos_iteration demo_env (generated_turn p) demo_start = Some (i, q)" "transmitter (qos_container q) = Some [p]"
    by (rule marked_packet_transmitted [OF p(2)])
  obtain m where m: "mock_banking_step demo_mock (Some p) demo_mock_state = Some m" "sig_qos_producer m = [p]"
    by (rule marked_packet_fails [OF p(2)])
  have t1: "loop_turn demo_env demo_mock (QosTurn (generated_turn p)) (demo_start, demo_mock_state) = Some (q, demo_mock_state)"
    using q(1) by simp
  have t2: "loop_turn demo_env demo_mock (MockTurn (Some p)) (q, demo_mock_state) = Some (q, m)" using m(1) by simp
  have "available list_channels demo_traffic (demo_start, demo_mock_state) (QosTurn (generated_turn p))"
    using p(1) by (simp add: generated_turn_def)
  moreover have "available list_channels demo_traffic (q, demo_mock_state) (MockTurn (Some p))"
    using q(2) by (simp add: transmitted_def list_channels_def)
  ultimately have "loop_reachable demo_env demo_mock list_channels demo_traffic (demo_start, demo_mock_state) (q, m)"
    using loop_next [OF loop_next [OF loop_start _ t1] _ t2] by blast
  with p t1 t2 m(2) show thesis by (intro that)
qed

theorem generated_traffic_safe_witness:
  "sends_agent_packets (sent_by marking_agents (\<lambda>_. []) True demo_template demo_thread) 1 \<and>
   (\<exists>p \<in> demo_traffic. \<exists>s'. loop_turn demo_env demo_mock (QosTurn (generated_turn p)) (demo_start, demo_mock_state) = Some s')"
proof
  note safe = generated_traffic_safe [OF demo_loop marking_agents_laws demo_sdk_laws demo_keys demo_threads_ok demo_traffic_def]
  from safe show "sends_agent_packets (sent_by marking_agents (\<lambda>_. []) True demo_template demo_thread) 1"
    by (simp add: demo_thread_def)
  obtain p where p: "p \<in> demo_traffic" using marked_packet_sent by blast
  then have "available list_channels demo_traffic (demo_start, demo_mock_state) (QosTurn (generated_turn p))"
    by (simp add: generated_turn_def)
  with safe loop_start p
  show "\<exists>p \<in> demo_traffic. \<exists>s'. loop_turn demo_env demo_mock (QosTurn (generated_turn p)) (demo_start, demo_mock_state) = Some s'"
    by blast
qed

text \<open>The marked packet goes through both processes and comes back as a failure of 7.7.7.7.\<close>

theorem only_bad_agent_punished_witness:
  "\<exists>p \<in> demo_traffic. \<exists>q m.
     loop_turn demo_env demo_mock (QosTurn (generated_turn p)) (demo_start, demo_mock_state) = Some (q, demo_mock_state) \<and>
     loop_turn demo_env demo_mock (MockTurn (Some p)) (q, demo_mock_state) = Some (q, m) \<and>
     sig_qos_producer m = [p] \<and> meta_addr (packet_meta p) = V4 (Ipv4Addr 7 7 7 7) \<and>
     (\<exists>q2. consume_sigverify_signals demo_env [p] demo_start = Some q2 \<and> (\<forall>ip. ip \<noteq> ip_key (Ipv4Addr 7 7 7 7) \<longrightarrow>
        ip_score_map (env_trees demo_env) (qos_model_st q2) ip = ip_score_map (env_trees demo_env) (qos_model_st demo_start) ip))"
proof -
  obtain p q m where r: "p \<in> demo_traffic" "marked_packet p"
    "loop_turn demo_env demo_mock (QosTurn (generated_turn p)) (demo_start, demo_mock_state) = Some (q, demo_mock_state)"
    "loop_turn demo_env demo_mock (MockTurn (Some p)) (q, demo_mock_state) = Some (q, m)" "sig_qos_producer m = [p]"
    "loop_reachable demo_env demo_mock list_channels demo_traffic (demo_start, demo_mock_state) (q, m)"
    by (rule demo_failure)
  note punished = only_bad_agent_punished [OF demo_loop marking_agents_laws demo_sdk_laws demo_keys demo_threads_ok demo_traffic_def r(6)]
  have "p \<in> sent_failures list_channels (sig_qos_producer m)" using r(5) by (simp add: list_channels_def)
  with punished have bad: "meta_addr (packet_meta p) = V4 (Ipv4Addr 7 7 7 7)" by blast
  let ?i = "generated_turn p\<lparr>in_tpu := [], in_sig := [p]\<rparr>"
  have "available list_channels demo_traffic (q, m) (QosTurn ?i)" using r(5) by (simp add: generated_turn_def list_channels_def)
  with punished qos_start_ok [OF demo_env_ok] have "\<exists>q2. consume_sigverify_signals demo_env (in_sig ?i) demo_start = Some q2 \<and>
      (\<forall>ip. ip \<noteq> ip_key (Ipv4Addr 7 7 7 7) \<longrightarrow>
        ip_score_map (env_trees demo_env) (qos_model_st q2) ip = ip_score_map (env_trees demo_env) (qos_model_st demo_start) ip)"
    by blast
  with r bad show ?thesis by auto
qed

end
